(* ===== verification/Kernel_Prelude.thy ===== *)
theory Kernel_Prelude
  imports Main "HOL-Library.Word"
begin

text \<open>
  Shared vocabulary of the development: the machine integer types of the kernel sources, the
  result type of calls that may fail to return, and the generic lemmas about words and windows of
  addresses that the component theories use. Nothing in this theory models a particular file of
  the kernel.
\<close>

unbundle bit_operations_syntax

section \<open>Machine integers\<close>

type_synonym u8 = "8 word"
type_synonym u16 = "16 word"
type_synonym u32 = "32 word"
type_synonym u64 = "64 word"

text \<open>
  Collections: \<open>kernel_simps\<close> holds the equations that evaluate the state-passing
  operations of the components, \<open>frame_simps\<close> the equations that say which parts of the
  memory an operation leaves alone.
\<close>

named_theorems kernel_simps
named_theorems frame_simps

section \<open>Results of calls that may not return\<close>

text \<open>
  A kernel routine either returns a value together with the changed state, or it never comes back:
  it spins on a lock that nobody releases, follows the null pointer that a failed lookup gave it,
  or walks a cyclic list for ever, it stops the processor on purpose, it reads past the end of an
  array, or it fetches a variable argument that the caller did not pass.
\<close>

datatype stuck = Spins | NullDeref | Diverges | Halted | OutOfBounds | BadArgument

type_synonym 'a outcome = "stuck + 'a"

fun obind :: "'a outcome \<Rightarrow> ('a \<Rightarrow> 'b outcome) \<Rightarrow> 'b outcome" where
  "obind (Inl e) f = Inl e"
| "obind (Inr x) f = f x"

lemma obind_eq_Inr_iff:
  "obind r f = Inr y \<longleftrightarrow> (\<exists>x. r = Inr x \<and> f x = Inr y)"
  by (cases r) auto

lemma obind_eq_Inl_iff:
  "obind r f = Inl e \<longleftrightarrow> r = Inl e \<or> (\<exists>x. r = Inr x \<and> f x = Inl e)"
  by (cases r) auto

lemma obind_Inr [simp]: "obind r Inr = r"
  by (cases r) auto

lemma obind_assoc: "obind (obind r f) g = obind r (\<lambda>x. obind (f x) g)"
  by (cases r) auto

fun of_option :: "stuck \<Rightarrow> 'a option \<Rightarrow> 'a outcome" where
  "of_option e None = Inl e"
| "of_option e (Some x) = Inr x"

section \<open>Masks and small words\<close>

text \<open>The masks of the sources as \<open>take_bit\<close>, on which the bit lemmas of the library work.\<close>

lemma and_mask_take_bit:
  fixes w :: "'a::len word"
  shows "w AND 0xFF = take_bit 8 w" and "w AND 0x1FF = take_bit 9 w"
    and "w AND 0xFFF = take_bit 12 w" and "w AND 0xFFFF = take_bit 16 w"
    and "w AND 0xFFFFFFFF = take_bit 32 w" and "w AND 0xFFFFFFFFFFFF = take_bit 48 w"
  by (simp_all add: take_bit_eq_mask mask_eq_exp_minus_1)

lemma bit_add_diff:
  "bit (w :: 'a::len word) (k + (n - k)) \<longleftrightarrow> (if k \<le> n then bit w n else bit w k)"
  by simp

lemma word_lt_iff_bits:
  fixes w :: "'a::len word"
  assumes "k < LENGTH('a)"
  shows "w < 2 ^ k \<longleftrightarrow> (\<forall>n \<ge> k. \<not> bit w n)"
proof -
  have "(2 :: nat) ^ k < 2 ^ LENGTH('a)" using assms by (intro power_strict_increasing) simp_all
  then have "unat (of_nat (2 ^ k) :: 'a word) = 2 ^ k" by (simp only: unat_of_nat mod_less)
  then have "w < 2 ^ k \<longleftrightarrow> take_bit k (unat w) = unat w"
    by (simp add: word_less_nat_alt take_bit_nat_eq_self_iff)
  also have "\<dots> \<longleftrightarrow> take_bit k w = w" by (simp add: word_unat_eq_iff unsigned_take_bit_eq)
  also have "\<dots> \<longleftrightarrow> (\<forall>n \<ge> k. \<not> bit w n)"
    using bit_imp_le_length[of w] by (fastforce simp: bit_eq_iff bit_take_bit_iff not_le)
  finally show ?thesis .
qed

lemma word1_cases: "(w :: 1 word) = 0 \<or> w = 1"
proof -
  have "unat w < 2" using unsigned_less[of w, where ?'a = nat] by simp
  then have "unat w = 0 \<or> unat w = 1" by auto
  then show ?thesis by (auto simp: word_unat_eq_iff)
qed

section \<open>Windows of addresses\<close>

text \<open>
  \<open>inside a n b\<close>: the address \<open>b\<close> lies in the \<open>n\<close> bytes that start at
  \<open>a\<close>. \<open>apart a n b k\<close>: the \<open>n\<close> bytes at \<open>a\<close> and the \<open>k\<close> bytes at \<open>b\<close> have no
  address in common. Both are stated with the wrap-around of 64-bit addresses.
\<close>

definition inside :: "u64 \<Rightarrow> nat \<Rightarrow> u64 \<Rightarrow> bool" where
  "inside a n b \<longleftrightarrow> unat (b - a) < n"

definition apart :: "u64 \<Rightarrow> nat \<Rightarrow> u64 \<Rightarrow> nat \<Rightarrow> bool" where
  "apart a n b k \<longleftrightarrow> n \<le> unat (b - a) \<and> k \<le> unat (a - b)"

lemma apart_sym: "apart a n b k \<longleftrightarrow> apart b k a n"
  by (auto simp: apart_def)

lemma apart_mono: "apart a n b k \<Longrightarrow> n' \<le> n \<Longrightarrow> k' \<le> k \<Longrightarrow> apart a n' b k'"
  by (auto simp: apart_def)

lemma unat_lt64 [simp]: "unat (a :: u64) < 2 ^ 64"
  using unsigned_less[of a] by simp

lemma unat_lt64': "unat (a :: u64) < 18446744073709551616"
  using unat_lt64[of a] by simp

lemma unat_of_nat64: "n < 2 ^ 64 \<Longrightarrow> unat (of_nat n :: u64) = n"
  by (simp add: unat_of_nat)

lemma ucast_of_nat_64_32 [simp]: "ucast (of_nat n :: u64) = (of_nat n :: u32)"
  by transfer simp

lemma unat_ucast_32_64 [simp]: "unat (ucast (w :: u32) :: u64) = unat w"
  using unsigned_less[of w, where ?'a = nat] by (simp add: unsigned_ucast_eq take_bit_nat_eq_self)

lemma offset_eq_iff:
  assumes "i < 2 ^ 64"
  shows "x = b + of_nat i \<longleftrightarrow> unat (x - b :: u64) = i"
proof
  assume "unat (x - b) = i"
  then have "x - b = of_nat i" by auto
  then show "x = b + of_nat i" by (simp add: algebra_simps)
qed (use assms in \<open>simp add: unat_of_nat64\<close>)

lemma unat_diff_cases:
  fixes a b :: u64
  shows "unat (b - a) = (if unat a \<le> unat b then unat b - unat a
                         else 2 ^ 64 + unat b - unat a)"
proof (cases "unat a \<le> unat b")
  case True
  then show ?thesis by (simp add: unat_sub_if')
next
  case False
  then have "unat (b - a) = unat b + 2 ^ 64 - unat a" by (simp add: unat_sub_if')
  then show ?thesis using False by (simp only: if_False add.commute)
qed

text \<open>On addresses whose windows do not wrap around, \<open>apart\<close> is the usual interval test.\<close>

lemma apart_nat:
  assumes "unat a + n \<le> 2 ^ 64" and "unat b + k \<le> 2 ^ 64" and "0 < n" and "0 < k"
  shows "apart a n b k \<longleftrightarrow> unat a + n \<le> unat b \<or> unat b + k \<le> unat a"
  using assms unat_lt64'[of a] unat_lt64'[of b]
  unfolding apart_def unat_diff_cases[of b a] unat_diff_cases[of a b] by auto

lemma inside_nat:
  assumes "unat a + n \<le> 2 ^ 64"
  shows "inside a n b \<longleftrightarrow> unat a \<le> unat b \<and> unat b < unat a + n"
  using assms unat_lt64'[of b]
  unfolding inside_def unat_diff_cases[of b a] by auto

lemma apart_inside: "apart a n b k \<Longrightarrow> inside a n x \<Longrightarrow> \<not> inside b k x"
  unfolding apart_def inside_def unat_diff_cases[of b a] unat_diff_cases[of a b]
    unat_diff_cases[of x a] unat_diff_cases[of x b]
  using unat_lt64'[of a] unat_lt64'[of b] unat_lt64'[of x]
  by (auto split: if_splits)

lemma inside_self [simp]: "inside a n a \<longleftrightarrow> 0 < n"
  by (simp add: inside_def)

lemma apart_iff:
  assumes "0 < n" and "0 < k"
  shows "apart a n b k \<longleftrightarrow> (\<forall>x. inside a n x \<longrightarrow> \<not> inside b k x)"
proof
  assume "\<forall>x. inside a n x \<longrightarrow> \<not> inside b k x"
  then have "\<not> inside a n b" and "\<not> inside b k a" using assms by auto
  then show "apart a n b k" by (simp add: apart_def inside_def)
qed (use apart_inside in blast)

lemma inside_shift:
  assumes "i + n' \<le> n" and "inside (a + of_nat i) n' x"
  shows "inside a n x"
proof -
  have "x - a = (x - (a + of_nat i)) + of_nat i" by simp
  then have "unat (x - a) \<le> unat (x - (a + of_nat i)) + unat (of_nat i :: u64)"
    by (metis mod_less_eq_dividend unat_word_ariths(1))
  moreover have "unat (of_nat i :: u64) \<le> i" by (simp add: unat_of_nat)
  ultimately show ?thesis using assms by (simp add: inside_def)
qed

text \<open>Sub-windows of windows that are apart are apart.\<close>

lemma apart_sub:
  assumes "apart a n b k" and "i + n' \<le> n" and "j + k' \<le> k" and "0 < n'" and "0 < k'"
  shows "apart (a + of_nat i) n' (b + of_nat j) k'"
  using assms inside_shift[OF assms(2)] inside_shift[OF assms(3)] apart_inside[OF assms(1)]
  by (subst apart_iff) blast+

lemma apart_slots:
  fixes sp :: u64
  assumes "i + n \<le> j" and "j + k \<le> 2 ^ 64" and "0 < n" and "0 < k"
  shows "apart (sp + of_nat i) n (sp + of_nat j) k"
proof -
  have d: "unat (of_nat j - of_nat i :: u64) = j - i"
    using assms unat_of_nat64[of "j - i"] by (simp add: of_nat_diff[symmetric] del: of_nat_diff)
  moreover have "unat (of_nat i - of_nat j :: u64) = (if i = j then 0 else 2 ^ 64 - (j - i))"
    using assms unat_diff_cases[of "of_nat i" "of_nat j :: u64"] unat_of_nat64[of i] unat_of_nat64[of j] by simp
  ultimately show ?thesis using assms by (auto simp: apart_def)
qed

end
