(* ===== verification/Kernel_Memory.thy ===== *)
theory Kernel_Memory
  imports Kernel_Prelude
begin

text \<open>
  The byte-addressed memory of the machine, little-endian loads and stores of the widths the
  kernel uses, and the two memory routines of \<^verbatim>\<open>src/Kernel/MiscFunctions.cpp\<close>. The lemmas say
  how loads see earlier stores (the same window, a window apart from it) and what
  \<^verbatim>\<open>memset\<close> and \<^verbatim>\<open>memcpy\<close> leave in memory.
\<close>

section \<open>Bytes, loads and stores\<close>

type_synonym memory = "u64 \<Rightarrow> u8"

fun load_le :: "nat \<Rightarrow> memory \<Rightarrow> u64 \<Rightarrow> nat" where
  "load_le 0 m a = 0"
| "load_le (Suc n) m a = unat (m a) + 256 * load_le n m (a + 1)"

fun store_le :: "nat \<Rightarrow> memory \<Rightarrow> u64 \<Rightarrow> nat \<Rightarrow> memory" where
  "store_le 0 m a v = m"
| "store_le (Suc n) m a v = store_le n (m(a := of_nat v)) (a + 1) (v div 256)"

definition load64 :: "memory \<Rightarrow> u64 \<Rightarrow> u64" where
  "load64 m a = of_nat (load_le 8 m a)"

definition store64 :: "memory \<Rightarrow> u64 \<Rightarrow> u64 \<Rightarrow> memory" where
  "store64 m a v = store_le 8 m a (unat v)"

definition load32 :: "memory \<Rightarrow> u64 \<Rightarrow> u32" where
  "load32 m a = of_nat (load_le 4 m a)"

definition store32 :: "memory \<Rightarrow> u64 \<Rightarrow> u32 \<Rightarrow> memory" where
  "store32 m a v = store_le 4 m a (unat v)"

lemma inside_Suc: "n < 2 ^ 64 \<Longrightarrow> inside a (Suc n) x \<longleftrightarrow> x = a \<or> inside (a + 1) n x"
proof (cases "x = a")
  case False
  then have "unat (x - a) = Suc (unat (x - (a + 1)))"
    using unatSuc[of "x - a - 1"] by (simp add: algebra_simps)
  with False show ?thesis by (simp add: inside_def)
qed (simp add: inside_def)

lemma store_le_other: "\<not> inside a n x \<Longrightarrow> n \<le> 2 ^ 64 \<Longrightarrow> store_le n m a v x = m x"
proof (induction n arbitrary: m a v)
  case (Suc n)
  then have "x \<noteq> a" and "\<not> inside (a + 1) n x" and "n \<le> 2 ^ 64" by (auto simp: inside_Suc)
  then have "store_le n (m(a := of_nat v)) (a + 1) (v div 256) x = (m(a := of_nat v)) x"
    by (intro Suc.IH)
  with \<open>x \<noteq> a\<close> show ?case by simp
qed simp

lemma load_le_cong:
  "(\<And>x. inside a n x \<Longrightarrow> m x = m' x) \<Longrightarrow> n \<le> 2 ^ 64 \<Longrightarrow> load_le n m a = load_le n m' a"
proof (induction n m a rule: load_le.induct)
  case (2 n m a)
  then show ?case by (simp add: inside_Suc)
qed simp

lemma load_le_store_le_apart:
  "apart a n b k \<Longrightarrow> n \<le> 2 ^ 64 \<Longrightarrow> k \<le> 2 ^ 64 \<Longrightarrow> load_le k (store_le n m a v) b = load_le k m b"
  by (rule load_le_cong) (auto intro!: store_le_other dest: apart_inside)

lemma load_le_store_le_same:
  "n \<le> 2 ^ 63 \<Longrightarrow> load_le n (store_le n m a v) a = v mod 256 ^ n"
proof (induction n arbitrary: m a v)
  case (Suc n)
  have "unat (- 1 :: u64) = 2 ^ 64 - 1" by (simp add: unat_eq_nat_uint uint_word_ariths)
  then have "\<not> inside (a + 1) n a" using Suc.prems by (simp add: inside_def)
  then have "store_le n (m(a := of_nat v)) (a + 1) (v div 256) a = of_nat v"
    using Suc.prems by (subst store_le_other) auto
  moreover have "unat (of_nat v :: u8) = v mod 256" by (simp add: unat_of_nat)
  moreover have "v mod 256 ^ Suc n = v mod 256 + 256 * (v div 256 mod 256 ^ n)"
    by (simp add: mod_mult2_eq add.commute)
  ultimately show ?case using Suc by simp
qed simp

lemma unat_u8: "unat (w :: u8) < 256"
  using unsigned_less[of w, where ?'a = nat] by simp

lemma load_le_less: "load_le n m a < 256 ^ n"
proof (induction n m a rule: load_le.induct)
  case (2 n m a)
  then show ?case using unat_u8[of "m a"] by simp
qed simp

section \<open>Quad words\<close>

lemma load64_store64 [simp]: "load64 (store64 m a v) a = v"
  using unat_lt64'[of v] by (simp add: load64_def store64_def load_le_store_le_same)

lemma load64_store64_apart [frame_simps]:
  "apart a 8 b 8 \<Longrightarrow> load64 (store64 m a v) b = load64 m b"
  by (simp add: load64_def store64_def load_le_store_le_apart)

lemma store64_other [frame_simps]: "\<not> inside a 8 x \<Longrightarrow> store64 m a v x = m x"
  by (simp add: store64_def store_le_other)

lemma load64_zero: "load64 (\<lambda>_. 0) p = 0"
proof -
  have "load_le n (\<lambda>_. 0) a = 0" for n a by (induction n arbitrary: a) simp_all
  then show ?thesis by (simp add: load64_def)
qed

lemma load64_cong: "(\<And>x. inside a 8 x \<Longrightarrow> m x = m' x) \<Longrightarrow> load64 m a = load64 m' a"
  unfolding load64_def by (subst load_le_cong) auto

lemma load32_store32 [simp]: "load32 (store32 m a v) a = v"
  using unsigned_less[of v, where ?'a = nat] by (simp add: load32_def store32_def load_le_store_le_same)

lemma store64_load64_id: "store64 m a (load64 m a) = m"
proof -
  have *: "store_le n m a (load_le n m a) = m" for n and m :: memory and a
  proof (induction n m a rule: load_le.induct)
    case (2 n m a)
    have "(of_nat (unat (m a) + 256 * load_le n m (a + 1)) :: u8) = m a"
      using unat_u8[of "m a"] by (simp add: word_unat_eq_iff unat_of_nat del: of_nat_add of_nat_mult)
    moreover have "(unat (m a) + 256 * load_le n m (a + 1)) div 256 = load_le n m (a + 1)"
      using unat_u8[of "m a"] by simp
    ultimately show ?case using "2" by simp
  qed simp
  have "unat (load64 m a) = load_le 8 m a"
    using load_le_less[of 8 m a] by (simp add: load64_def unat_of_nat)
  then show ?thesis by (simp add: store64_def *)
qed

section \<open>memset and memcpy\<close>

text \<open>
  \<^verbatim>\<open>rep stosb\<close> with the direction flag clear (\<^verbatim>\<open>cld\<close>): store \<^verbatim>\<open>al\<close> at \<^verbatim>\<open>rdi\<close>, step
  \<^verbatim>\<open>rdi\<close>, count \<^verbatim>\<open>rcx\<close> down to zero. The result is the memory and the final
  \<^verbatim>\<open>rdi\<close>.
\<close>

fun rep_stosb :: "nat \<Rightarrow> memory \<Rightarrow> u64 \<Rightarrow> u8 \<Rightarrow> memory \<times> u64" where
  "rep_stosb 0 m rdi al = (m, rdi)"
| "rep_stosb (Suc rcx) m rdi al = rep_stosb rcx (m(rdi := al)) (rdi + 1) al"

text \<open>
  The operands of the assembly are read-write (\<^verbatim>\<open>"+c"(count), "+D"(b)\<close>), so the \<^verbatim>\<open>b\<close> that
  \<^verbatim>\<open>return b\<close> returns is the stepped \<^verbatim>\<open>rdi\<close>.
\<close>

definition memset :: "memory \<Rightarrow> u64 \<Rightarrow> u32 \<Rightarrow> u64 \<Rightarrow> memory \<times> u64" where
  "memset m b val count = rep_stosb (unat count) m b (ucast val)"

fun memcpy_loop :: "nat \<Rightarrow> u64 \<Rightarrow> memory \<Rightarrow> u64 \<Rightarrow> u64 \<Rightarrow> memory" where
  "memcpy_loop 0 i m dst src = m"
| "memcpy_loop (Suc n) i m dst src = memcpy_loop n (i + 1) (m(dst + i := m (src + i))) dst src"

definition memcpy :: "memory \<Rightarrow> u64 \<Rightarrow> u64 \<Rightarrow> u64 \<Rightarrow> memory \<times> u64" where
  "memcpy m dstptr srcptr sz = (memcpy_loop (unat sz) 0 m dstptr srcptr, dstptr)"

lemma rep_stosb_closed:
  "n \<le> 2 ^ 64 \<Longrightarrow> rep_stosb n m d v = ((\<lambda>x. if inside d n x then v else m x), d + of_nat n)"
proof (induction n arbitrary: m d)
  case 0
  then show ?case by (simp add: inside_def)
next
  case (Suc n)
  then have "rep_stosb n (m(d := v)) (d + 1) v =
      ((\<lambda>x. if inside (d + 1) n x then v else (m(d := v)) x), d + 1 + of_nat n)"
    by simp
  then show ?case using Suc.prems by (auto simp: inside_Suc)
qed

lemma memset_closed:
  "memset m b val count = ((\<lambda>x. if inside b (unat count) x then ucast val else m x), b + count)"
  using unat_lt64'[of count] by (simp add: memset_def rep_stosb_closed)

lemma memset_apart [frame_simps]:
  "apart b (unat count) a 8 \<Longrightarrow> load64 (fst (memset m b val count)) a = load64 m a"
  by (rule load64_cong) (use apart_inside in \<open>auto simp: memset_closed\<close>)

lemma load_le_zeros: "(\<And>x. inside a n x \<Longrightarrow> m x = 0) \<Longrightarrow> n \<le> 2 ^ 64 \<Longrightarrow> load_le n m a = 0"
proof (induction n m a rule: load_le.induct)
  case (2 n m a)
  then show ?case by (simp add: inside_Suc)
qed simp

lemma load64_memset_zero:
  assumes "i + 8 \<le> unat count"
  shows "load64 (fst (memset m b 0 count)) (b + of_nat i) = 0"
proof -
  have "inside b (unat count) x" if "inside (b + of_nat i) 8 x" for x
    using inside_shift[OF assms that] .
  then show ?thesis by (simp add: load64_def memset_closed load_le_zeros)
qed

lemma memcpy_loop_closed:
  assumes "apart dst N src N" and "unat i + n \<le> N" and "N \<le> 2 ^ 63"
  shows "memcpy_loop n i m dst src x =
    (if inside (dst + i) n x then m (src + (x - dst)) else m x)"
  using assms(2)
proof (induction n arbitrary: i m)
  case 0
  then show ?case by (simp add: inside_def)
next
  case (Suc n)
  have i1: "unat (i + 1) = Suc (unat i)"
    using Suc.prems assms(3) by (simp add: unat_word_ariths(1))
  have src: "src + (x - dst) \<noteq> dst + i" if "inside (dst + (i + 1)) n x"
  proof -
    have "of_nat (Suc (unat i)) = i + 1" by simp
    then have "inside dst N x"
      using inside_shift[of "Suc (unat i)" n N dst x] that Suc.prems
      by (simp add: add.commute)
    then have "inside src N (src + (x - dst))" by (simp add: inside_def)
    moreover have "inside dst N (dst + i)" using Suc.prems by (simp add: inside_def)
    ultimately show ?thesis using apart_inside[OF assms(1)] by metis
  qed
  let ?m = "m(dst + i := m (src + i))"
  have "memcpy_loop n (i + 1) ?m dst src x =
      (if inside (dst + (i + 1)) n x then ?m (src + (x - dst)) else ?m x)"
    using Suc.prems i1 by (intro Suc.IH) simp
  also have "\<dots> = (if inside (dst + i) (Suc n) x then m (src + (x - dst)) else m x)"
    using Suc.prems assms(3) src by (auto simp: inside_Suc add.assoc)
  finally show ?case by simp
qed

lemma memcpy_closed:
  assumes "apart dst (unat n) src (unat n)" and "unat n \<le> 2 ^ 63"
  shows "memcpy m dst src n =
    ((\<lambda>x. if inside dst (unat n) x then m (src + (x - dst)) else m x), dst)"
  using memcpy_loop_closed[OF assms(1), of 0 "unat n" m] assms(2)
  by (auto simp: memcpy_def fun_eq_iff)

text \<open>
  \<^verbatim>\<open>memset\<close> stores the low byte of its \<^verbatim>\<open>int\<close> argument at exactly the \<open>count\<close> addresses
  from \<open>b\<close> on and changes no other byte; the pointer it returns is the end of the filled range,
  not the pointer it was given.
\<close>

theorem memset_fills:
  "(\<forall>x. fst (memset m b val count) x = (if inside b (unat count) x then ucast val else m x))
   \<and> snd (memset m b val count) = b + count"
  by (simp add: memset_closed)

text \<open>
  For ranges that have no byte in common, \<^verbatim>\<open>memcpy\<close> leaves at every offset of the
  destination the byte that stood at this offset of the source, leaves every byte outside of the
  destination as it was, and returns the destination.
\<close>

theorem memcpy_copies:
  assumes "apart dst (unat n) src (unat n)" and "unat n \<le> 2 ^ 63" and "i < unat n"
    and "\<not> inside dst (unat n) x"
  shows "fst (memcpy m dst src n) (dst + of_nat i) = m (src + of_nat i)
    \<and> fst (memcpy m dst src n) x = m x \<and> snd (memcpy m dst src n) = dst"
proof -
  have "unat (of_nat i :: u64) = i" using assms(2,3) by (intro unat_of_nat64) simp
  then have "inside dst (unat n) (dst + of_nat i)" using assms(3) by (simp add: inside_def)
  then show ?thesis using assms(4) by (simp add: memcpy_closed[OF assms(1,2)])
qed

theorem memcpy_copies_witness:
  "fst (memcpy (\<lambda>x. ucast x) 0x1000 0x2005 16) (0x1000 + of_nat 3) = (\<lambda>x. ucast x) (0x2005 + of_nat 3 :: u64)
    \<and> fst (memcpy (\<lambda>x. ucast x) 0x1000 0x2005 16) 0x1010 = (\<lambda>x. ucast x) (0x1010 :: u64)
    \<and> snd (memcpy (\<lambda>x. ucast x) 0x1000 0x2005 16) = 0x1000"
  by (rule memcpy_copies) (simp_all add: apart_def inside_def)

end
