(* ===== verification/Chunk_List.thy ===== *)
theory Chunk_List
  imports Kernel_Memory
begin

text \<open>
  The free lists of the two allocators. \<^verbatim>\<open>MemoryChunk\<close> (pages) and \<^verbatim>\<open>FreeChunk\<close> (bytes) have the same
  layout, a forward pointer, a backward pointer and a count at the start of the free memory itself,
  and the allocators share their list code word for word, but for the size of the unit that the
  count counts. This theory has the fields, the loops and the link and unlink code, the predicate
  that a piece of memory holds a given doubly linked list, and the lemmas that say what the code
  does to such a list.
\<close>

section \<open>Chunk headers\<close>

definition chunk_next :: "memory \<Rightarrow> u64 \<Rightarrow> u64" where "chunk_next m p = load64 m p"
definition chunk_prev :: "memory \<Rightarrow> u64 \<Rightarrow> u64" where "chunk_prev m p = load64 m (p + 8)"
definition chunk_count :: "memory \<Rightarrow> u64 \<Rightarrow> u64" where "chunk_count m p = load64 m (p + 16)"

definition set_next :: "memory \<Rightarrow> u64 \<Rightarrow> u64 \<Rightarrow> memory" where "set_next m p v = store64 m p v"
definition set_prev :: "memory \<Rightarrow> u64 \<Rightarrow> u64 \<Rightarrow> memory" where "set_prev m p v = store64 m (p + 8) v"
definition set_count :: "memory \<Rightarrow> u64 \<Rightarrow> u64 \<Rightarrow> memory" where "set_count m p v = store64 m (p + 16) v"

lemmas chunk_defs = chunk_next_def chunk_prev_def chunk_count_def set_next_def set_prev_def
  set_count_def

lemma apart_offsets:
  "apart p 8 (p + 8) 8" "apart p 8 (p + 16) 8" "apart (p + 8) 8 (p + 16) 8"
  "apart (p + 8) 8 p 8" "apart (p + 16) 8 p 8" "apart (p + 16) 8 (p + 8) 8"
  by (simp_all add: apart_def unat_sub_if' word_less_nat_alt)

lemma chunk_same [simp]:
  "chunk_next (set_next m p v) p = v" "chunk_next (set_prev m p v) p = chunk_next m p"
  "chunk_next (set_count m p v) p = chunk_next m p"
  "chunk_prev (set_prev m p v) p = v" "chunk_prev (set_next m p v) p = chunk_prev m p"
  "chunk_prev (set_count m p v) p = chunk_prev m p"
  "chunk_count (set_count m p v) p = v" "chunk_count (set_next m p v) p = chunk_count m p"
  "chunk_count (set_prev m p v) p = chunk_count m p"
  by (simp_all add: chunk_defs frame_simps apart_offsets)

text \<open>Headers that do not overlap: the fields of one are not touched by writes to the other.\<close>

definition hdr_apart :: "u64 \<Rightarrow> u64 \<Rightarrow> bool" where
  "hdr_apart p q \<longleftrightarrow> apart p 24 q 24"

lemma hdr_apart_sym: "hdr_apart p q \<longleftrightarrow> hdr_apart q p"
  by (simp add: hdr_apart_def apart_sym[of p])

lemma hdr_apart_fields:
  assumes "hdr_apart p q"
  shows "apart p 8 q 8" "apart p 8 (q + 8) 8" "apart p 8 (q + 16) 8"
    "apart (p + 8) 8 q 8" "apart (p + 8) 8 (q + 8) 8" "apart (p + 8) 8 (q + 16) 8"
    "apart (p + 16) 8 q 8" "apart (p + 16) 8 (q + 8) 8" "apart (p + 16) 8 (q + 16) 8"
  using apart_sub[OF assms[unfolded hdr_apart_def], of 0 8 0 8]
    apart_sub[OF assms[unfolded hdr_apart_def], of 0 8 8 8]
    apart_sub[OF assms[unfolded hdr_apart_def], of 0 8 16 8]
    apart_sub[OF assms[unfolded hdr_apart_def], of 8 8 0 8]
    apart_sub[OF assms[unfolded hdr_apart_def], of 8 8 8 8]
    apart_sub[OF assms[unfolded hdr_apart_def], of 8 8 16 8]
    apart_sub[OF assms[unfolded hdr_apart_def], of 16 8 0 8]
    apart_sub[OF assms[unfolded hdr_apart_def], of 16 8 8 8]
    apart_sub[OF assms[unfolded hdr_apart_def], of 16 8 16 8]
  by simp_all

definition hdr_eq :: "memory \<Rightarrow> memory \<Rightarrow> u64 \<Rightarrow> bool" where
  "hdr_eq m m' q \<longleftrightarrow> chunk_next m' q = chunk_next m q \<and> chunk_prev m' q = chunk_prev m q
     \<and> chunk_count m' q = chunk_count m q"

lemma hdr_eq_refl [simp]: "hdr_eq m m q"
  by (simp add: hdr_eq_def)

lemma hdr_eq_trans: "hdr_eq m m' q \<Longrightarrow> hdr_eq m' m'' q \<Longrightarrow> hdr_eq m m'' q"
  by (simp add: hdr_eq_def)

lemma hdr_apart_eq [frame_simps]:
  assumes "hdr_apart p q"
  shows "hdr_eq m (set_next m p v) q" "hdr_eq m (set_prev m p v) q" "hdr_eq m (set_count m p v) q"
  using hdr_apart_fields[OF assms] by (simp_all add: hdr_eq_def chunk_defs frame_simps)

lemma chunk_other [frame_simps]:
  assumes "hdr_apart p q"
  shows "chunk_next (set_next m p v) q = chunk_next m q" "chunk_next (set_prev m p v) q = chunk_next m q"
    "chunk_next (set_count m p v) q = chunk_next m q" "chunk_prev (set_next m p v) q = chunk_prev m q"
    "chunk_prev (set_prev m p v) q = chunk_prev m q" "chunk_prev (set_count m p v) q = chunk_prev m q"
    "chunk_count (set_next m p v) q = chunk_count m q" "chunk_count (set_prev m p v) q = chunk_count m q"
    "chunk_count (set_count m p v) q = chunk_count m q"
  using hdr_apart_eq[OF assms, unfolded hdr_eq_def] by auto

lemma memset_hdr_eq [frame_simps]:
  assumes "apart b (unat count) c 24"
  shows "hdr_eq m (fst (memset m b val count)) c"
proof (cases "unat count = 0")
  case True
  then have "fst (memset m b val count) = m" by (simp add: memset_closed inside_def)
  then show ?thesis by simp
next
  case False
  then have "apart b (unat count) (c + of_nat i) 8" if "i + 8 \<le> 24" for i
    using apart_sub[OF assms, of 0 "unat count" i 8] that by simp
  from this[of 0] this[of 8] this[of 16] show ?thesis
    by (simp add: hdr_eq_def chunk_defs memset_apart)
qed

lemma memset_hdr_zero:
  assumes "24 \<le> unat count"
  shows "chunk_next (fst (memset m b 0 count)) b = 0" "chunk_prev (fst (memset m b 0 count)) b = 0"
  using load64_memset_zero[of 0 count m b] load64_memset_zero[of 8 count m b] assms
  by (simp_all add: chunk_defs)

section \<open>The list code\<close>

text \<open>
  The search of \<^verbatim>\<open>freePages\<close> and \<^verbatim>\<open>free\<close> for the neighbours of a block, and the first-fit search of
  \<^verbatim>\<open>allocatePages\<close> and \<^verbatim>\<open>allocate\<close>. Neither loop ends on a cyclic list.
\<close>

partial_function (option) find_slot :: "memory \<Rightarrow> u64 \<Rightarrow> u64 \<Rightarrow> u64 \<Rightarrow> (u64 \<times> u64) option" where
  "find_slot m base prev next =
     (if next = 0 then Some (prev, next)
      else if next > base then Some (prev, next)
      else find_slot m base next (chunk_next m next))"

partial_function (option) find_fit :: "memory \<Rightarrow> u64 \<Rightarrow> u64 \<Rightarrow> u64 option" where
  "find_fit m want chunk =
     (if chunk = 0 then Some 0
      else if chunk_count m chunk \<ge> want then Some chunk
      else find_fit m want (chunk_next m chunk))"

text \<open>The code that takes an exhausted chunk out of the list; the result is memory and list head.\<close>

definition unlink_chunk :: "memory \<Rightarrow> u64 \<Rightarrow> u64 \<Rightarrow> memory \<times> u64" where
  "unlink_chunk m freeList chunk =
     (let m1 = (if chunk_prev m chunk \<noteq> 0 then set_next m (chunk_prev m chunk) (chunk_next m chunk) else m);
          m2 = (if chunk_next m1 chunk \<noteq> 0 then set_prev m1 (chunk_next m1 chunk) (chunk_prev m1 chunk) else m1)
      in (m2, if chunk = freeList then chunk_next m2 chunk else freeList))"

text \<open>The code that carves \<open>want\<close> units off the end of a chunk.\<close>

definition take_chunk :: "memory \<Rightarrow> u64 \<Rightarrow> u64 \<Rightarrow> u64 \<Rightarrow> memory \<times> u64" where
  "take_chunk m freeList chunk want =
     (let m1 = set_count m chunk (chunk_count m chunk - want)
      in if chunk_count m1 chunk = 0 then unlink_chunk m1 freeList chunk else (m1, freeList))"

text \<open>
  The code that links a block between its neighbours and merges it with an adjacent one;
  \<open>unit\<close> is the size of a unit in bytes.
\<close>

definition link_chunk :: "u64 \<Rightarrow> memory \<Rightarrow> u64 \<Rightarrow> u64 \<Rightarrow> u64 \<Rightarrow> u64 \<Rightarrow> memory" where
  "link_chunk unit m base num prev next =
     (let m1 = set_next m base next;
          m2 = (if chunk_next m1 base \<noteq> 0
                then (let m3 = set_prev m1 (chunk_next m1 base) base
                      in if base + unit * num = chunk_next m3 base
                         then (let m4 = set_count m3 base (chunk_count m3 base + chunk_count m3 (chunk_next m3 base))
                               in set_next m4 base (chunk_next m4 (chunk_next m4 base)))
                         else m3)
                else m1);
          m5 = set_prev m2 base prev
      in if chunk_prev m5 base \<noteq> 0
         then (let m6 = set_next m5 (chunk_prev m5 base) base
               in if chunk_prev m6 base + unit * chunk_count m6 (chunk_prev m6 base) = base
                  then set_count m6 prev (chunk_count m6 prev + num)
                  else m6)
         else m5)"

section \<open>Lists in memory\<close>

text \<open>
  \<open>dseg m pv p xs l q\<close>: from the pointer \<open>p\<close>, reached from the chunk \<open>pv\<close>, the memory holds
  the chunks \<open>xs\<close> (address and count) linked in both directions; the last one is \<open>l\<close> and points
  on to \<open>q\<close>. A whole free list ends in the null pointer.
\<close>

fun dseg :: "memory \<Rightarrow> u64 \<Rightarrow> u64 \<Rightarrow> (u64 \<times> u64) list \<Rightarrow> u64 \<Rightarrow> u64 \<Rightarrow> bool" where
  "dseg m pv p [] l q \<longleftrightarrow> p = q \<and> pv = l"
| "dseg m pv p ((a, n) # xs) l q \<longleftrightarrow> p = a \<and> a \<noteq> 0 \<and> chunk_prev m a = pv \<and> chunk_count m a = n
     \<and> dseg m a (chunk_next m a) xs l q"

definition dll :: "memory \<Rightarrow> u64 \<Rightarrow> u64 \<Rightarrow> (u64 \<times> u64) list \<Rightarrow> bool" where
  "dll m pv p xs \<longleftrightarrow> (\<exists>l. dseg m pv p xs l 0)"

lemma dseg_append:
  "dseg m pv p (xs @ ys) l q \<longleftrightarrow> (\<exists>l' q'. dseg m pv p xs l' q' \<and> dseg m l' q' ys l q)"
proof (induction xs arbitrary: pv p)
  case (Cons x xs)
  then show ?case by (cases x) (simp; blast)
qed simp

lemma dseg_last: "dseg m pv p xs l q \<Longrightarrow> l = (if xs = [] then pv else fst (last xs))"
  by (induction xs arbitrary: pv p) auto

lemma dseg_head: "dseg m pv p xs l q \<Longrightarrow> p = (if xs = [] then q else fst (hd xs))"
  by (cases xs) auto

lemma dseg_nonzero: "dseg m pv p xs l q \<Longrightarrow> x \<in> set xs \<Longrightarrow> fst x \<noteq> 0"
  by (induction xs arbitrary: pv p) auto

lemma dseg_cong:
  "(\<And>x. x \<in> set xs \<Longrightarrow> hdr_eq m m' (fst x)) \<Longrightarrow> dseg m' pv p xs l q = dseg m pv p xs l q"
proof (induction xs arbitrary: pv p)
  case (Cons x xs)
  have "hdr_eq m m' (fst x)" using Cons.prems by simp
  then show ?case using Cons by (cases x) (simp add: hdr_eq_def)
qed simp

lemma dseg_frame [frame_simps]:
  assumes "\<And>x. x \<in> set xs \<Longrightarrow> hdr_apart c (fst x)"
  shows "dseg (set_next m c v) pv p xs l q = dseg m pv p xs l q"
    "dseg (set_prev m c v) pv p xs l q = dseg m pv p xs l q"
    "dseg (set_count m c v) pv p xs l q = dseg m pv p xs l q"
  using assms by (auto intro!: dseg_cong frame_simps)

lemma dseg_redirect_last:
  assumes "dseg m pv p (xs @ [(b, n)]) b q" and "\<And>x. x \<in> set xs \<Longrightarrow> hdr_apart b (fst x)"
  shows "dseg (set_next m b q') pv p (xs @ [(b, n)]) b q'"
  using assms by (auto simp: dseg_append frame_simps)

lemma dseg_redirect_first:
  assumes "dseg m pv p ((a, n) # xs) l q" and "\<And>x. x \<in> set xs \<Longrightarrow> hdr_apart a (fst x)"
  shows "dseg (set_prev m a pv') pv' p ((a, n) # xs) l q"
  using assms by (auto simp: frame_simps)

section \<open>The searches end and find\<close>

lemma find_fit_dseg:
  "dseg m pv p xs l 0 \<Longrightarrow>
     find_fit m want p = Some (case List.find (\<lambda>x. want \<le> snd x) xs of None \<Rightarrow> 0 | Some x \<Rightarrow> fst x)"
proof (induction xs arbitrary: pv p)
  case Nil
  then show ?case by (simp add: find_fit.simps)
next
  case (Cons x xs)
  then show ?case by (cases x) (auto simp: find_fit.simps[of m want p])
qed

lemma find_slot_dseg:
  assumes "dseg m pv p (ys @ zs) l 0" and "\<And>x. x \<in> set ys \<Longrightarrow> fst x \<le> base"
    and "zs \<noteq> [] \<Longrightarrow> base < fst (hd zs)"
  shows "find_slot m base pv p = Some (if ys = [] then pv else fst (last ys), if zs = [] then 0 else fst (hd zs))"
  using assms
proof (induction ys arbitrary: pv p)
  case Nil
  then show ?case using dseg_head[of m pv p zs l 0]
    by (subst find_slot.simps) auto
next
  case (Cons y ys)
  obtain a n where y: "y = (a, n)" by (cases y)
  have "a \<le> base" using Cons.prems(2)[of y] y by simp
  then have p: "p \<noteq> 0" "\<not> p > base" "dseg m (fst y) (chunk_next m p) (ys @ zs) l 0" "p = fst y"
    using Cons.prems(1) y by (simp_all add: not_less)
  have "find_slot m base pv p = find_slot m base p (chunk_next m p)"
    using p(1,2) by (subst find_slot.simps) simp
  also have "\<dots> = Some (if ys = [] then fst y else fst (last ys), if zs = [] then 0 else fst (hd zs))"
    unfolding p(4) using p(3,4) Cons.prems by (intro Cons.IH) auto
  finally show ?case by simp
qed

section \<open>What the link code does to a list\<close>

definition hdrs_apart :: "(u64 \<times> u64) list \<Rightarrow> bool" where
  "hdrs_apart xs \<longleftrightarrow> sorted_wrt (\<lambda>x y. hdr_apart (fst x) (fst y)) xs"

lemma hdrs_apart_Nil [simp]: "hdrs_apart []"
  by (simp add: hdrs_apart_def)

lemma hdrs_apart_Cons [simp]:
  "hdrs_apart (x # xs) \<longleftrightarrow> (\<forall>y \<in> set xs. hdr_apart (fst x) (fst y)) \<and> hdrs_apart xs"
  by (simp add: hdrs_apart_def)

lemma hdrs_apart_append [simp]:
  "hdrs_apart (xs @ ys) \<longleftrightarrow>
     hdrs_apart xs \<and> hdrs_apart ys \<and> (\<forall>x \<in> set xs. \<forall>y \<in> set ys. hdr_apart (fst x) (fst y))"
  by (simp add: hdrs_apart_def sorted_wrt_append)

text \<open>\<open>hdr_frame m m' xs\<close>: the memories differ in the headers of \<open>xs\<close> at most.\<close>

definition hdr_frame :: "memory \<Rightarrow> memory \<Rightarrow> (u64 \<times> u64) list \<Rightarrow> bool" where
  "hdr_frame m m' xs \<longleftrightarrow> (\<forall>x. (\<forall>c \<in> set xs. \<not> inside (fst c) 24 x) \<longrightarrow> m' x = m x)"

lemma hdr_frame_refl [simp]: "hdr_frame m m xs"
  by (simp add: hdr_frame_def)

lemma hdr_frame_trans: "hdr_frame m m' xs \<Longrightarrow> hdr_frame m' m'' xs \<Longrightarrow> hdr_frame m m'' xs"
  by (simp add: hdr_frame_def)

lemma hdr_frame_set:
  assumes "c \<in> set xs" and "hdr_frame m m' xs"
  shows "hdr_frame m (set_next m' (fst c) v) xs" "hdr_frame m (set_prev m' (fst c) v) xs"
    "hdr_frame m (set_count m' (fst c) v) xs"
proof -
  have w: "\<not> inside (fst c) 8 x \<and> \<not> inside (fst c + 8) 8 x \<and> \<not> inside (fst c + 16) 8 x"
    if "\<not> inside (fst c) 24 x" for x
    using that inside_shift[of 0 8 24 "fst c" x] inside_shift[of 8 8 24 "fst c" x]
      inside_shift[of 16 8 24 "fst c" x] by auto
  show "hdr_frame m (set_next m' (fst c) v) xs" "hdr_frame m (set_prev m' (fst c) v) xs"
    "hdr_frame m (set_count m' (fst c) v) xs"
    using assms w by (auto simp: hdr_frame_def set_next_def set_prev_def set_count_def frame_simps)
qed

lemma unlink_chunk_dseg:
  assumes d: "dseg m 0 fl (ys @ (a, n) # zs) l 0" and h: "hdrs_apart (ys @ (a, n) # zs)"
  shows "\<exists>m' fl'. unlink_chunk m fl a = (m', fl') \<and> dll m' 0 fl' (ys @ zs)
    \<and> hdr_frame m m' (ys @ (a, n) # zs) \<and> chunk_count m' a = chunk_count m a"
proof -
  obtain l1 where y: "dseg m 0 fl ys l1 a" and a0: "a \<noteq> 0" and pa: "chunk_prev m a = l1"
    and z: "dseg m a (chunk_next m a) zs l 0"
    using d by (auto simp: dseg_append)
  let ?q = "chunk_next m a" and ?xs = "ys @ (a, n) # zs"
  define m1 where "m1 = (if l1 \<noteq> 0 then set_next m l1 ?q else m)"
  define m2 where "m2 = (if ?q \<noteq> 0 then set_prev m1 ?q l1 else m1)"
  have l1: "l1 = (if ys = [] then 0 else fst (last ys))" using y by (rule dseg_last)
  have q: "?q = (if zs = [] then 0 else fst (hd zs))" using z by (rule dseg_head)
  have last_in: "ys \<noteq> [] \<Longrightarrow> last ys \<in> set ys" and hd_in: "zs \<noteq> [] \<Longrightarrow> hd zs \<in> set zs" by auto
  have l1nz: "l1 \<noteq> 0 \<longleftrightarrow> ys \<noteq> []" using y l1 last_in dseg_nonzero by auto
  have qnz: "?q \<noteq> 0 \<longleftrightarrow> zs \<noteq> []" using z q hd_in dseg_nonzero by auto
  have m1a: "hdr_eq m m1 a" using h l1 last_in by (auto simp: m1_def frame_simps)
  have m2a: "hdr_eq m1 m2 a"
    using h q hd_in hdr_apart_sym by (auto simp: m2_def frame_simps)
  have e: "chunk_next m1 a = ?q" "chunk_prev m1 a = l1" "chunk_next m2 a = ?q"
    using m1a m2a pa by (simp_all add: hdr_eq_def)
  have eq: "unlink_chunk m fl a = (m2, if a = fl then ?q else fl)"
    by (simp only: unlink_chunk_def Let_def pa m1_def[symmetric] e m2_def[symmetric])
  have fl: "(if a = fl then ?q else fl) = (if ys = [] then ?q else fl)"
  proof (cases ys)
    case Nil
    then show ?thesis using y by simp
  next
    case (Cons b ys')
    then have "fl = fst b" using dseg_head[OF y] by simp
    moreover have "hdr_apart (fst b) a" using h Cons by simp
    ultimately show ?thesis using Cons by (auto simp: hdr_apart_def apart_def)
  qed
  have y1: "dseg m1 0 (if ys = [] then ?q else fl) ys l1 ?q"
  proof (cases ys rule: rev_cases)
    case (snoc ys' b)
    then show ?thesis
      using y h l1 l1nz by (cases b) (auto simp: m1_def hdr_apart_sym intro!: dseg_redirect_last)
  qed (use y in simp)
  have z1: "dseg m1 a ?q zs l 0"
    using z h l1 last_in by (auto simp: m1_def frame_simps)
  have y2: "dseg m2 0 (if ys = [] then ?q else fl) ys l1 ?q"
  proof (cases "zs = []")
    case False
    then have "hdr_apart ?q (fst y)" if "y \<in> set ys" for y
      using that h q hd_in hdr_apart_sym by auto
    then have "dseg (set_prev m1 ?q l1) 0 fl0 ys l1 ?q = dseg m1 0 fl0 ys l1 ?q" for fl0
      by (intro frame_simps)
    with y1 show ?thesis unfolding m2_def by presburger
  qed (use y1 q in \<open>simp add: m2_def\<close>)
  have z2: "dll m2 l1 ?q zs"
  proof (cases zs)
    case (Cons c zs')
    obtain b k where c: "c = (b, k)" by (cases c)
    have "dseg m1 a ?q ((b, k) # zs') l 0" using z1 Cons c by simp
    then have "dseg (set_prev m1 b l1) l1 ?q ((b, k) # zs') l 0"
      by (rule dseg_redirect_first) (use h Cons c in auto)
    moreover have "b = ?q" using q Cons c by simp
    ultimately show ?thesis using qnz Cons c by (auto simp: m2_def dll_def)
  qed (use z1 q in \<open>simp add: dll_def\<close>)
  have "hdr_frame m m2 ?xs"
    using l1 q l1nz qnz last_in hd_in
    by (auto simp: m1_def m2_def intro!: hdr_frame_set)
  moreover have "chunk_count m2 a = chunk_count m a"
    using m1a m2a by (simp add: hdr_eq_def)
  moreover have "dll m2 0 (if ys = [] then ?q else fl) (ys @ zs)"
    using y2 z2 unfolding dll_def dseg_append by blast
  ultimately show ?thesis using eq fl by simp
qed

lemma take_chunk_dseg:
  assumes d: "dseg m 0 fl (ys @ (a, n) # zs) l 0" and h: "hdrs_apart (ys @ (a, n) # zs)"
  shows "\<exists>m' fl'. take_chunk m fl a k = (m', fl')
    \<and> dll m' 0 fl' (ys @ (if n = k then [] else [(a, n - k)]) @ zs)
    \<and> hdr_frame m m' (ys @ (a, n) # zs)
    \<and> chunk_count m' a = n - k"
proof -
  let ?m1 = "set_count m a (n - k)" and ?xs = "ys @ (a, n) # zs"
  have n: "chunk_count m a = n" using d by (auto simp: dseg_append)
  have "hdr_apart a (fst x)" if "x \<in> set ys \<or> x \<in> set zs" for x
    using that h hdr_apart_sym by auto
  then have d1: "dseg ?m1 0 fl (ys @ (a, n - k) # zs) l 0"
    using d by (auto simp: dseg_append frame_simps)
  have f1: "hdr_frame m ?m1 ?xs" using hdr_frame_set(3)[of "(a, n)" ?xs m m] by simp
  show ?thesis
  proof (cases "n = k")
    case False
    then show ?thesis using d1 f1 n by (auto simp: take_chunk_def Let_def dll_def)
  next
    case True
    have h1: "hdrs_apart (ys @ (a, n - k) # zs)" using h by simp
    obtain m' fl' where u: "unlink_chunk ?m1 fl a = (m', fl')" "dll m' 0 fl' (ys @ zs)"
      "hdr_frame ?m1 m' (ys @ (a, n - k) # zs)" "chunk_count m' a = chunk_count ?m1 a"
      using unlink_chunk_dseg[OF d1 h1] by auto
    have "hdr_frame m m' ?xs" using hdr_frame_trans[OF f1] u(3) by (auto simp: hdr_frame_def)
    then show ?thesis using True u n by (auto simp: take_chunk_def Let_def)
  qed
qed

text \<open>A block with no adjacent neighbour, above the head of the list, is linked in its place.\<close>

lemma link_chunk_dseg:
  assumes d: "dseg m 0 fl (ys @ zs) l 0" and h: "hdrs_apart (ys @ (b, n) # zs)"
    and ys: "ys \<noteq> []" and b: "b \<noteq> 0" and n: "chunk_count m b = n"
    and nx: "next = (if zs = [] then 0 else fst (hd zs))"
    and adj_next: "zs \<noteq> [] \<Longrightarrow> b + unit * num \<noteq> next"
    and adj_prev: "fst (last ys) + unit * snd (last ys) \<noteq> b"
  shows "dll (link_chunk unit m b num (fst (last ys)) next) 0 fl (ys @ (b, n) # zs)"
proof -
  obtain ys' p k where ys': "ys = ys' @ [(p, k)]" using ys by (metis append_butlast_last_id prod.collapse)
  obtain l' q' where yz: "dseg m 0 fl ys l' q'" "dseg m l' q' zs l 0"
    using d unfolding dseg_append by blast
  have "l' = p" using dseg_last[OF yz(1)] ys' by simp
  moreover have "q' = next" using dseg_head[OF yz(2)] nx by simp
  ultimately have y: "dseg m 0 fl ys p next" and z: "dseg m p next zs l 0" using yz by auto
  have p0: "p \<noteq> 0" and pk: "chunk_count m p = k" using y ys' by (auto simp: dseg_append)
  have bp: "hdr_apart b p" "hdr_apart p b" using h ys' hdr_apart_sym by auto
  have bz: "hdr_apart b (fst x)" if "x \<in> set ys \<union> set zs" for x using that h hdr_apart_sym by auto
  define m1 where "m1 = set_next m b next"
  define m2 where "m2 = (if next \<noteq> 0 then set_prev m1 next b else m1)"
  define m5 where "m5 = set_prev m2 b p"
  define m6 where "m6 = set_next m5 p b"
  have nxt: "hdr_apart next x" if "zs \<noteq> []" "x = b \<or> x \<in> fst ` set ys" for x
    using that h nx hdr_apart_sym by (cases zs) auto
  have next0: "next \<noteq> 0 \<longleftrightarrow> zs \<noteq> []" using z nx dseg_nonzero[OF z, of "hd zs"] by auto
  have e1: "chunk_next m1 b = next" "chunk_count m1 b = n" using n by (simp_all add: m1_def)
  have e2: "chunk_next m2 b = next" "chunk_count m2 b = n" "chunk_count m2 p = k"
    using e1 nxt next0 bp pk ys' by (auto simp: m2_def m1_def frame_simps)
  have e5: "chunk_prev m5 b = p" "chunk_next m5 b = next" "chunk_count m5 b = n" "chunk_count m5 p = k"
    using e2 bp by (simp_all add: m5_def frame_simps)
  have e6: "chunk_prev m6 b = p" "chunk_next m6 b = next" "chunk_count m6 b = n" "chunk_count m6 p = k"
    using e5 bp by (simp_all add: m6_def frame_simps)
  have "link_chunk unit m b num p next = m6"
    using e1 e2(1) e5(1) e6 adj_next adj_prev next0 p0 ys'
    by (simp add: link_chunk_def Let_def flip: m1_def) (auto simp: m2_def m5_def m6_def)
  moreover have "dseg m6 0 fl ys p b"
  proof -
    have "dseg m1 0 fl ys p next" using y bz by (simp add: m1_def frame_simps)
    then have "dseg m2 0 fl ys p next" using nxt next0 by (auto simp: m2_def frame_simps)
    then have "dseg m5 0 fl ys p next" using bz by (simp add: m5_def frame_simps)
    then show ?thesis unfolding m6_def ys'
      by (rule dseg_redirect_last) (use h ys' hdr_apart_sym in auto)
  qed
  moreover have "dll m6 b next zs"
  proof (cases zs)
    case Nil
    then show ?thesis using nx by (simp add: dll_def)
  next
    case (Cons c zs')
    obtain c' j where c: "c = (c', j)" by (cases c)
    have "dseg m1 p next zs l 0" using z bz by (simp add: m1_def frame_simps)
    then have "dseg m1 p next ((c', j) # zs') l 0" using Cons c by simp
    then have "dseg (set_prev m1 c' b) b next ((c', j) # zs') l 0"
      by (rule dseg_redirect_first) (use h Cons c in auto)
    then have "dseg m2 b next zs l 0" using Cons c nx next0 by (simp add: m2_def)
    then have "dseg m5 b next zs l 0" using bz by (simp add: m5_def frame_simps)
    then have "dseg m6 b next zs l 0" using h ys' by (simp add: m6_def frame_simps)
    then show ?thesis by (auto simp: dll_def)
  qed
  ultimately show ?thesis using e6 b ys' by (auto simp: dll_def dseg_append)
qed

text \<open>
  A block below the head of the list: the head's backward pointer changes, but the list that the
  head reaches stays the list it was, whether the block is adjacent to the head or not.
\<close>

lemma link_chunk_below_head:
  assumes d: "dseg m 0 fl xs l 0" and h: "hdrs_apart ((b, n) # xs)" and xs: "xs \<noteq> []"
  shows "dseg (link_chunk unit m b num 0 fl) b fl xs l 0"
proof -
  obtain a k xs' where xs': "xs = (a, k) # xs'" and fl: "fl = a" and a0: "a \<noteq> 0"
    using d xs by (cases xs) auto
  have ba: "hdr_apart b a" "hdr_apart a b" and bx: "\<And>x. x \<in> set xs \<Longrightarrow> hdr_apart b (fst x)"
    using h xs' hdr_apart_sym by auto
  define m3 where "m3 = set_prev (set_next m b a) a b"
  have "dseg (set_next m b a) 0 a xs l 0" using d bx fl by (simp add: frame_simps)
  then have d3: "dseg m3 b a xs l 0"
    unfolding m3_def xs' by (rule dseg_redirect_first) (use h xs' in auto)
  have e3: "chunk_next m3 b = a" using ba by (simp add: m3_def frame_simps)
  have "link_chunk unit m b num 0 a =
    set_prev (if b + unit * num = a
              then set_next (set_count m3 b (chunk_count m3 b + chunk_count m3 a)) b
                (chunk_next (set_count m3 b (chunk_count m3 b + chunk_count m3 a)) a)
              else m3) b 0"
    using e3 a0 by (simp add: link_chunk_def Let_def flip: m3_def)
  then show ?thesis using d3 bx fl by (auto simp: frame_simps)
qed

section \<open>The memory a list stands for\<close>

text \<open>
  \<open>chunk_bytes u x\<close> are the addresses of the free memory of a chunk that counts units of \<open>u\<close>
  bytes. A list is well formed when its chunks are large enough for their headers, do not wrap
  around the address space, and lie one after the other.
\<close>

definition chunk_end :: "nat \<Rightarrow> u64 \<times> u64 \<Rightarrow> nat" where
  "chunk_end u x = unat (fst x) + u * unat (snd x)"

definition chunk_bytes :: "nat \<Rightarrow> u64 \<times> u64 \<Rightarrow> nat set" where
  "chunk_bytes u x = {unat (fst x) ..< chunk_end u x}"

definition list_bytes :: "nat \<Rightarrow> (u64 \<times> u64) list \<Rightarrow> nat set" where
  "list_bytes u xs = (\<Union>x \<in> set xs. chunk_bytes u x)"

definition wf_chunks :: "nat \<Rightarrow> (u64 \<times> u64) list \<Rightarrow> bool" where
  "wf_chunks u xs \<longleftrightarrow> (\<forall>x \<in> set xs. 24 \<le> u * unat (snd x) \<and> chunk_end u x \<le> 2 ^ 64)
     \<and> sorted_wrt (\<lambda>x y. chunk_end u x \<le> unat (fst y)) xs"

lemma list_bytes_simps [simp]:
  "list_bytes u [] = {}" "list_bytes u (x # xs) = chunk_bytes u x \<union> list_bytes u xs"
  "list_bytes u (xs @ ys) = list_bytes u xs \<union> list_bytes u ys"
  by (auto simp: list_bytes_def)

lemma wf_chunks_Nil [simp]: "wf_chunks u []"
  by (simp add: wf_chunks_def)

lemma wf_chunks_Cons:
  "wf_chunks u (x # xs) \<longleftrightarrow> 24 \<le> u * unat (snd x) \<and> chunk_end u x \<le> 2 ^ 64
     \<and> (\<forall>y \<in> set xs. chunk_end u x \<le> unat (fst y)) \<and> wf_chunks u xs"
  by (auto simp: wf_chunks_def)

lemma wf_chunks_append:
  "wf_chunks u (xs @ ys) \<longleftrightarrow> wf_chunks u xs \<and> wf_chunks u ys
     \<and> (\<forall>x \<in> set xs. \<forall>y \<in> set ys. chunk_end u x \<le> unat (fst y))"
  by (auto simp: wf_chunks_def sorted_wrt_append)

lemma wf_chunks_hdrs_apart: "wf_chunks u xs \<Longrightarrow> hdrs_apart xs"
proof (induction xs)
  case (Cons x xs)
  have "hdr_apart (fst x) (fst y)" if "y \<in> set xs" for y
  proof -
    have "24 \<le> u * unat (snd y) \<and> chunk_end u y \<le> 2 ^ 64"
      using Cons.prems that by (auto simp: wf_chunks_def)
    then show ?thesis
      using Cons.prems that unfolding hdr_apart_def wf_chunks_Cons chunk_end_def
      by (subst apart_nat) force+
  qed
  then show ?case using Cons by (simp add: wf_chunks_Cons)
qed simp

lemma wf_chunks_disjoint:
  "wf_chunks u (xs @ ys) \<Longrightarrow> list_bytes u xs \<inter> list_bytes u ys = {}"
  by (fastforce simp: wf_chunks_append list_bytes_def chunk_bytes_def)

section \<open>First fit on the abstract list\<close>

text \<open>
  The specification of an allocation: the end of the first chunk that is large enough, zero if
  there is none, and what is left of the list.
\<close>

definition fit_addr :: "u64 \<Rightarrow> u64 \<Rightarrow> (u64 \<times> u64) list \<Rightarrow> u64" where
  "fit_addr unit k xs =
     (case List.find (\<lambda>x. k \<le> snd x) xs of None \<Rightarrow> 0 | Some x \<Rightarrow> fst x + unit * (snd x - k))"

fun fit_rest :: "u64 \<Rightarrow> (u64 \<times> u64) list \<Rightarrow> (u64 \<times> u64) list" where
  "fit_rest k [] = []"
| "fit_rest k ((a, n) # xs) =
     (if k \<le> n then (if n = k then xs else (a, n - k) # xs) else (a, n) # fit_rest k xs)"

lemma find_split:
  "List.find P xs = Some x \<Longrightarrow> \<exists>ys zs. xs = ys @ x # zs \<and> P x \<and> (\<forall>y \<in> set ys. \<not> P y)"
proof (induction xs)
  case (Cons y ys)
  then show ?case
  proof (cases "P y")
    case False
    then obtain as bs where "ys = as @ x # bs" "P x" "\<forall>z \<in> set as. \<not> P z" using Cons by auto
    then have "y # ys = (y # as) @ x # bs \<and> P x \<and> (\<forall>z \<in> set (y # as). \<not> P z)" using False by simp
    then show ?thesis by blast
  qed (auto intro: exI[of _ "[]"])
qed simp

lemma fit_rest_split:
  "\<forall>y \<in> set ys. \<not> k \<le> snd y \<Longrightarrow> k \<le> n \<Longrightarrow>
     fit_rest k (ys @ (a, n) # zs) = ys @ (if n = k then [] else [(a, n - k)]) @ zs"
  by (induction ys) auto

lemma fit_rest_none: "\<forall>y \<in> set xs. \<not> k \<le> snd y \<Longrightarrow> fit_rest k xs = xs"
  by (induction xs) auto

lemma fit_rest_fst: "fst ` set (fit_rest k xs) \<subseteq> fst ` set xs"
  by (induction k xs rule: fit_rest.induct) auto

lemma find_None: "List.find P xs = None \<longleftrightarrow> (\<forall>x \<in> set xs. \<not> P x)"
  by (induction xs) auto

text \<open>
  The block an allocation returns is free memory of the list, and exactly this memory is gone from
  the rest.
\<close>

lemma fit_bytes:
  assumes wf: "wf_chunks u xs" and u: "unit = of_nat u" "u < 2 ^ 64"
    and f: "List.find (\<lambda>x. k \<le> snd x) xs = Some x" and k0: "k \<noteq> 0"
  shows "unat (fit_addr unit k xs) = unat (fst x) + u * (unat (snd x) - unat k)"
    and "{unat (fit_addr unit k xs) ..< unat (fit_addr unit k xs) + u * unat k} \<subseteq> list_bytes u xs"
    and "list_bytes u (fit_rest k xs) =
      list_bytes u xs - {unat (fit_addr unit k xs) ..< unat (fit_addr unit k xs) + u * unat k}"
proof -
  obtain a n where x: "x = (a, n)" by (cases x)
  obtain ys zs where xs: "xs = ys @ x # zs" and k: "k \<le> n" and ys: "\<forall>y \<in> set ys. \<not> k \<le> snd y"
    using find_split[OF f] x by auto
  have fit: "fit_addr unit k xs = a + unit * (n - k)" using f x by (simp add: fit_addr_def)
  have nk: "unat (n - k) = unat n - unat k" "unat k \<le> unat n"
    using k by (simp_all add: unat_sub word_le_nat_alt)
  have ends: "unat a + u * unat n \<le> 2 ^ 64" "24 \<le> u * unat n"
    using wf xs x by (auto simp: wf_chunks_append wf_chunks_Cons chunk_end_def)
  have sum: "u * (unat n - unat k) + u * unat k = u * unat n"
    using nk(2) by (metis add_mult_distrib2 le_add_diff_inverse2)
  show addr: "unat (fit_addr unit k xs) = unat (fst x) + u * (unat (snd x) - unat k)"
  proof -
    have "0 < u" using ends(2) by (cases u) auto
    then have "0 < u * unat k" using k0 by (simp add: unat_gt_0)
    then have lt: "unat a + u * (unat n - unat k) < 2 ^ 64" using sum ends(1) by linarith
    then have "unat (unit * (n - k)) = u * (unat n - unat k)"
      using u nk(1) by (simp add: unat_word_ariths(2) unat_of_nat64)
    then show ?thesis using lt x fit by (simp add: unat_word_ariths(1))
  qed
  have sub: "{unat (fit_addr unit k xs) ..< unat (fit_addr unit k xs) + u * unat k} \<subseteq> chunk_bytes u x"
    using addr sum x by (auto simp: chunk_bytes_def chunk_end_def)
  then show "{unat (fit_addr unit k xs) ..< unat (fit_addr unit k xs) + u * unat k} \<subseteq> list_bytes u xs"
    using xs by auto
  have "chunk_bytes u (a, n - k) =
      chunk_bytes u x - {unat (fit_addr unit k xs) ..< unat (fit_addr unit k xs) + u * unat k}"
    using addr sum nk x by (auto simp: chunk_bytes_def chunk_end_def)
  moreover have "list_bytes u (ys @ zs) \<inter> chunk_bytes u x = {}"
    using wf_chunks_disjoint[of u ys "x # zs"] wf_chunks_disjoint[of u "ys @ [x]" zs] wf xs by auto
  moreover have "chunk_bytes u (a, n - k) = {}" if "n = k" using that by (simp add: chunk_bytes_def chunk_end_def)
  ultimately show "list_bytes u (fit_rest k xs) =
      list_bytes u xs - {unat (fit_addr unit k xs) ..< unat (fit_addr unit k xs) + u * unat k}"
    using sub fit_rest_split[OF ys k] xs x by auto
qed

end
