(* ===== verification/Allocator_Interface.thy ===== *)
theory Allocator_Interface
  imports Chunk_List
begin

text \<open>
  What a client of an allocator relies on. The locale states the contract of a first-fit allocator
  against the abstract list of chunks; inside it, the guarantee clients want is proved once: a run
  of successful allocations hands out pairwise disjoint blocks, all of them memory that was free at
  the start. The page allocator and the byte allocator of the kernel are its two instances.
\<close>

text \<open>A list of requests that the chunks of \<open>xs\<close> can serve one after the other.\<close>

fun feasible :: "nat \<Rightarrow> u64 list \<Rightarrow> (u64 \<times> u64) list \<Rightarrow> bool" where
  "feasible u [] xs \<longleftrightarrow> True"
| "feasible u (k # ks) xs \<longleftrightarrow> k \<noteq> 0 \<and> (\<exists>x \<in> set xs. k \<le> snd x) \<and> wf_chunks u (fit_rest k xs)
     \<and> feasible u ks (fit_rest k xs)"

definition block :: "nat \<Rightarrow> u64 \<Rightarrow> u64 \<Rightarrow> nat set" where
  "block u r k = {unat r ..< unat r + u * unat k}"

fun alloc_all :: "('s \<Rightarrow> u64 \<Rightarrow> (u64 \<times> 's) outcome) \<Rightarrow> 's \<Rightarrow> u64 list \<Rightarrow> (u64 list \<times> 's) outcome" where
  "alloc_all alloc s [] = Inr ([], s)"
| "alloc_all alloc s (k # ks) =
     obind (alloc s k) (\<lambda>(r, s1). obind (alloc_all alloc s1 ks) (\<lambda>(rs, s2). Inr (r # rs, s2)))"

locale first_fit_allocator =
  fixes unit_size :: nat
    and alloc :: "'s \<Rightarrow> u64 \<Rightarrow> (u64 \<times> 's) outcome"
    and holds :: "'s \<Rightarrow> (u64 \<times> u64) list \<Rightarrow> bool"
  assumes unit_bound: "unit_size < 2 ^ 64"
    and holds_wf: "holds s xs \<Longrightarrow> wf_chunks unit_size xs"
    and alloc_refines: "holds s xs \<Longrightarrow> k \<noteq> 0 \<Longrightarrow> \<exists>x \<in> set xs. k \<le> snd x \<Longrightarrow>
      wf_chunks unit_size (fit_rest k xs) \<Longrightarrow>
      \<exists>s'. alloc s k = Inr (fit_addr (of_nat unit_size) k xs, s') \<and> holds s' (fit_rest k xs)"
begin

lemma alloc_block:
  assumes "holds s xs" and "k \<noteq> 0" and "\<exists>x \<in> set xs. k \<le> snd x" and "wf_chunks unit_size (fit_rest k xs)"
  shows "\<exists>r s'. alloc s k = Inr (r, s') \<and> holds s' (fit_rest k xs)
    \<and> block unit_size r k \<subseteq> list_bytes unit_size xs
    \<and> list_bytes unit_size (fit_rest k xs) = list_bytes unit_size xs - block unit_size r k"
proof -
  obtain s' where s': "alloc s k = Inr (fit_addr (of_nat unit_size) k xs, s')" "holds s' (fit_rest k xs)"
    using alloc_refines[OF assms] by blast
  obtain x where "List.find (\<lambda>x. k \<le> snd x) xs = Some x"
    using assms(3) find_None[of "\<lambda>x. k \<le> snd x" xs] by (cases "List.find (\<lambda>x. k \<le> snd x) xs") auto
  then show ?thesis
    using s' fit_bytes(2,3)[OF holds_wf[OF assms(1)] refl unit_bound _ assms(2)]
    by (auto simp: block_def)
qed

lemma alloc_all_disjoint:
  assumes "holds s xs" and "feasible unit_size ks xs"
  shows "\<exists>rs s'. alloc_all alloc s ks = Inr (rs, s') \<and> length rs = length ks
    \<and> (\<forall>i < length ks. block unit_size (rs ! i) (ks ! i) \<subseteq> list_bytes unit_size xs)
    \<and> (\<forall>i < length ks. \<forall>j < i.
        block unit_size (rs ! i) (ks ! i) \<inter> block unit_size (rs ! j) (ks ! j) = {})"
  using assms
proof (induction ks arbitrary: s xs)
  case (Cons k ks)
  obtain r s1 where r: "alloc s k = Inr (r, s1)" "holds s1 (fit_rest k xs)"
    "block unit_size r k \<subseteq> list_bytes unit_size xs"
    "list_bytes unit_size (fit_rest k xs) = list_bytes unit_size xs - block unit_size r k"
    using alloc_block[OF Cons.prems(1), of k] Cons.prems(2) by auto
  obtain rs s2 where rs: "alloc_all alloc s1 ks = Inr (rs, s2)" "length rs = length ks"
    "\<forall>i < length ks. block unit_size (rs ! i) (ks ! i) \<subseteq> list_bytes unit_size (fit_rest k xs)"
    "\<forall>i < length ks. \<forall>j < i. block unit_size (rs ! i) (ks ! i) \<inter> block unit_size (rs ! j) (ks ! j) = {}"
    using Cons.IH[OF r(2)] Cons.prems(2) by auto
  have "\<forall>i < length (k # ks). block unit_size ((r # rs) ! i) ((k # ks) ! i) \<subseteq> list_bytes unit_size xs"
    using r(3,4) rs(3) by (fastforce simp: less_Suc_eq_0_disj)
  moreover have "\<forall>i < length (k # ks). \<forall>j < i.
      block unit_size ((r # rs) ! i) ((k # ks) ! i) \<inter> block unit_size ((r # rs) ! j) ((k # ks) ! j) = {}"
    using r(4) rs(3,4) by (auto simp: less_Suc_eq_0_disj nth_Cons' split: if_splits) fastforce+
  ultimately show ?case using r(1) rs(1,2) by simp
qed simp

end

end
