(* ===== verification/Descriptor_Tables.thy ===== *)
theory Descriptor_Tables
  imports Kernel_Prelude
begin

text \<open>
  The global descriptor table of \<^verbatim>\<open>src/Kernel/GDT.h\<close>: access bytes, flags, segment and system
  entries as the packed structs of the source, the table that \<^verbatim>\<open>Table::init\<close> builds and the
  descriptor-table pointer that \<^verbatim>\<open>Table::install\<close> loads. Bit-fields are words of their width; the
  encoding functions lay them out as the x86-64 System V ABI does, first field in the lowest bits.
  The lemmas show that the constructors lose nothing of a base address, keep the low twenty bits
  of a limit, and that the table has the exact descriptors the processor expects.
\<close>

section \<open>Access bytes and flags\<close>

text \<open>The enumerations of the source give several names to one value; they are their values.\<close>

definition Ring0 :: "2 word" where "Ring0 = 0"
definition Ring3 :: "2 word" where "Ring3 = 3"
definition NullDPL :: "2 word" where "NullDPL = 0"
definition NullRW :: "1 word" where "NullRW = 0"
definition CodeAllowRead :: "1 word" where "CodeAllowRead = 1"
definition DataAllowWrite :: "1 word" where "DataAllowWrite = 1"
definition NullSeg :: "1 word" where "NullSeg = 0"
definition DataSeg :: "1 word" where "DataSeg = 0"
definition CodeSeg :: "1 word" where "CodeSeg = 1"
definition AvailableTSS :: "4 word" where "AvailableTSS = 9"
definition NullGran :: "1 word" where "NullGran = 0"
definition Byte_gran :: "1 word" where "Byte_gran = 0"
definition NullSize :: "1 word" where "NullSize = 0"
definition Bit32 :: "1 word" where "Bit32 = 1"

lemmas gdt_enum_defs = Ring0_def Ring3_def NullDPL_def NullRW_def CodeAllowRead_def
  DataAllowWrite_def NullSeg_def DataSeg_def CodeSeg_def AvailableTSS_def NullGran_def
  Byte_gran_def NullSize_def Bit32_def

record UserAccessByte =
  ua_accessed :: "1 word"
  ua_readableWriteable :: "1 word"
  ua_directionConforming :: "1 word"
  ua_executable :: "1 word"
  ua_isUserSegment :: "1 word"
  ua_descriptorPrivilegeLevel :: "2 word"
  ua_present :: "1 word"

definition mk_UserAccessByte :: "1 word \<Rightarrow> 1 word \<Rightarrow> 2 word \<Rightarrow> UserAccessByte" where
  "mk_UserAccessByte rw executable level =
     \<lparr>ua_accessed = 0, ua_readableWriteable = rw, ua_directionConforming = 0,
      ua_executable = executable, ua_isUserSegment = 1,
      ua_descriptorPrivilegeLevel = level, ua_present = 1\<rparr>"

definition null_UserAccessByte :: UserAccessByte where
  "null_UserAccessByte =
     \<lparr>ua_accessed = 0, ua_readableWriteable = NullRW, ua_directionConforming = 0,
      ua_executable = NullSeg, ua_isUserSegment = 0,
      ua_descriptorPrivilegeLevel = NullDPL, ua_present = 0\<rparr>"

definition UserAccessByte_bits :: "UserAccessByte \<Rightarrow> u8" where
  "UserAccessByte_bits a =
     ucast (ua_accessed a) OR push_bit 1 (ucast (ua_readableWriteable a))
     OR push_bit 2 (ucast (ua_directionConforming a)) OR push_bit 3 (ucast (ua_executable a))
     OR push_bit 4 (ucast (ua_isUserSegment a))
     OR push_bit 5 (ucast (ua_descriptorPrivilegeLevel a)) OR push_bit 7 (ucast (ua_present a))"

record SystemAccessByte =
  sa_type :: "4 word"
  sa_isUserSegment :: "1 word"
  sa_descriptorPrivilegeLevel :: "2 word"
  sa_present :: "1 word"

definition mk_SystemAccessByte :: "4 word \<Rightarrow> 2 word \<Rightarrow> SystemAccessByte" where
  "mk_SystemAccessByte type dpl =
     \<lparr>sa_type = type, sa_isUserSegment = 0, sa_descriptorPrivilegeLevel = dpl, sa_present = 1\<rparr>"

definition SystemAccessByte_bits :: "SystemAccessByte \<Rightarrow> u8" where
  "SystemAccessByte_bits a =
     ucast (sa_type a) OR push_bit 4 (ucast (sa_isUserSegment a))
     OR push_bit 5 (ucast (sa_descriptorPrivilegeLevel a)) OR push_bit 7 (ucast (sa_present a))"

record Flags =
  fl_reserved :: "1 word"
  fl_isLongModeCode :: "1 word"
  fl_size :: "1 word"
  fl_granularity :: "1 word"

definition mk_Flags3 :: "1 word \<Rightarrow> 1 word \<Rightarrow> 1 word \<Rightarrow> Flags" where
  "mk_Flags3 isLong sz gran =
     \<lparr>fl_reserved = 0, fl_isLongModeCode = isLong, fl_size = sz, fl_granularity = gran\<rparr>"

definition mk_Flags2 :: "1 word \<Rightarrow> 1 word \<Rightarrow> Flags" where
  "mk_Flags2 sz gran = mk_Flags3 0 sz gran"

definition null_Flags :: Flags where
  "null_Flags = mk_Flags3 0 NullSize NullGran"

definition longModeCode :: Flags where
  "longModeCode = mk_Flags3 1 NullSize Byte_gran"

text \<open>
  \<^verbatim>\<open>operator uint8_t\<close> followed by the initialisation of the four-bit field \<^verbatim>\<open>flags\<close>: the low
  four bits of the byte. \<^verbatim>\<open>Flags(uint8_t)\<close> is the converse.
\<close>

definition Flags_bits :: "Flags \<Rightarrow> 4 word" where
  "Flags_bits f = ucast (fl_reserved f) OR push_bit 1 (ucast (fl_isLongModeCode f))
     OR push_bit 2 (ucast (fl_size f)) OR push_bit 3 (ucast (fl_granularity f))"

definition Flags_of_bits :: "4 word \<Rightarrow> Flags" where
  "Flags_of_bits b =
     \<lparr>fl_reserved = ucast b, fl_isLongModeCode = ucast (drop_bit 1 b),
      fl_size = ucast (drop_bit 2 b), fl_granularity = ucast (drop_bit 3 b)\<rparr>"

section \<open>Segment and system entries\<close>

record UserEntry =
  ue_limitLow :: u16
  ue_baseLow :: u16
  ue_baseMid :: u8
  ue_access :: UserAccessByte
  ue_limitHigh :: "4 word"
  ue_flags :: "4 word"
  ue_baseHigh :: u8

definition mk_UserEntry :: "u32 \<Rightarrow> u32 \<Rightarrow> UserAccessByte \<Rightarrow> Flags \<Rightarrow> UserEntry" where
  "mk_UserEntry limit base access flags =
     \<lparr>ue_limitLow = ucast (limit AND 0xFFFF),
      ue_baseLow = ucast (base AND 0xFFFF),
      ue_baseMid = ucast (drop_bit 16 base AND 0xFF),
      ue_access = access,
      ue_limitHigh = ucast (drop_bit 16 limit AND 0xFF),
      ue_flags = Flags_bits flags,
      ue_baseHigh = ucast (drop_bit 24 base AND 0xFF)\<rparr>"

definition UserEntry_raw :: "UserEntry \<Rightarrow> u64" where
  "UserEntry_raw e =
     ucast (ue_limitLow e) OR push_bit 16 (ucast (ue_baseLow e))
     OR push_bit 32 (ucast (ue_baseMid e))
     OR push_bit 40 (ucast (UserAccessByte_bits (ue_access e)))
     OR push_bit 48 (ucast (ue_limitHigh e)) OR push_bit 52 (ucast (ue_flags e))
     OR push_bit 56 (ucast (ue_baseHigh e))"

record SystemEntry =
  se_limitLow :: u16
  se_baseLow :: u16
  se_baseMid :: u8
  se_access :: SystemAccessByte
  se_limitHigh :: "4 word"
  se_flags :: "4 word"
  se_baseHigh :: u8
  se_baseHigher :: u32
  se_reserved :: u32

text \<open>The limit is a \<^verbatim>\<open>uint16_t\<close>: shifted right by 16 (after promotion to \<^verbatim>\<open>int\<close>) it is 0.\<close>

definition mk_SystemEntry :: "u16 \<Rightarrow> u64 \<Rightarrow> SystemAccessByte \<Rightarrow> Flags \<Rightarrow> SystemEntry" where
  "mk_SystemEntry limit base access granularity =
     \<lparr>se_limitLow = limit AND 0xFFFF,
      se_baseLow = ucast (base AND 0xFFFF),
      se_baseMid = ucast (drop_bit 16 base AND 0xFF),
      se_access = access,
      se_limitHigh = ucast (drop_bit 16 (ucast limit :: u32) AND 0xFF),
      se_flags = Flags_bits granularity,
      se_baseHigh = ucast (drop_bit 24 base AND 0xFF),
      se_baseHigher = ucast (drop_bit 32 base AND 0xFFFFFFFF),
      se_reserved = 0\<rparr>"

text \<open>What the processor reads back: the base spread over the entry's fields.\<close>

definition UserEntry_base :: "UserEntry \<Rightarrow> u32" where
  "UserEntry_base e = ucast (ue_baseLow e) OR push_bit 16 (ucast (ue_baseMid e))
     OR push_bit 24 (ucast (ue_baseHigh e))"

definition UserEntry_limit :: "UserEntry \<Rightarrow> u32" where
  "UserEntry_limit e = ucast (ue_limitLow e) OR push_bit 16 (ucast (ue_limitHigh e))"

definition SystemEntry_base :: "SystemEntry \<Rightarrow> u64" where
  "SystemEntry_base e = ucast (se_baseLow e) OR push_bit 16 (ucast (se_baseMid e))
     OR push_bit 24 (ucast (se_baseHigh e)) OR push_bit 32 (ucast (se_baseHigher e))"

section \<open>The table\<close>

record TSSEntry =
  ts_reserved0 :: u32
  ts_stackPointers :: "u64 list"
  ts_reserved1 :: u64
  ts_interruptStackTable :: "u64 list"
  ts_reserved2 :: u64
  ts_reserved3 :: u16
  ts_iomapBase :: u16

record Table =
  nullEntry :: UserEntry
  kernelCode :: UserEntry
  kernelData :: UserEntry
  userCode32 :: UserEntry
  userData32 :: UserEntry
  userCode64 :: UserEntry
  userData64 :: UserEntry
  theEntryForTheTSS :: SystemEntry
  theTSSEntryItself :: TSSEntry

text \<open>Sizes and offsets of the packed structs, in bytes.\<close>

definition sizeof_UserEntry :: nat where "sizeof_UserEntry = 2 + 2 + 1 + 1 + 1 + 1"
definition sizeof_SystemEntry :: nat where "sizeof_SystemEntry = 2 + 2 + 1 + 1 + 1 + 1 + 4 + 4"
definition sizeof_TSSEntry :: nat where "sizeof_TSSEntry = 4 + 3 * 8 + 8 + 7 * 8 + 8 + 2 + 2"

datatype TableField = NullEntry | KernelCode | KernelData | UserCode32 | UserData32 | UserCode64
  | UserData64 | TheEntryForTheTSS | TheTSSEntryItself

fun Table_offsetof :: "TableField \<Rightarrow> nat" where
  "Table_offsetof NullEntry = 0"
| "Table_offsetof KernelCode = 1 * sizeof_UserEntry"
| "Table_offsetof KernelData = 2 * sizeof_UserEntry"
| "Table_offsetof UserCode32 = 3 * sizeof_UserEntry"
| "Table_offsetof UserData32 = 4 * sizeof_UserEntry"
| "Table_offsetof UserCode64 = 5 * sizeof_UserEntry"
| "Table_offsetof UserData64 = 6 * sizeof_UserEntry"
| "Table_offsetof TheEntryForTheTSS = 7 * sizeof_UserEntry"
| "Table_offsetof TheTSSEntryItself = 7 * sizeof_UserEntry + sizeof_SystemEntry"

text \<open>\<open>self\<close> is the address of the table, from which the address of its TSS member follows.\<close>

definition Table_init :: "u64 \<Rightarrow> u64 \<Rightarrow> Table \<Rightarrow> Table" where
  "Table_init self stackLocation t =
     t\<lparr>nullEntry := mk_UserEntry 0 0 null_UserAccessByte null_Flags,
       kernelCode := mk_UserEntry 0xffffffff 0 (mk_UserAccessByte CodeAllowRead CodeSeg Ring0) longModeCode,
       kernelData := mk_UserEntry 0xffffffff 0 (mk_UserAccessByte DataAllowWrite DataSeg Ring0) (mk_Flags2 Bit32 Byte_gran),
       userCode32 := mk_UserEntry 0xffffffff 0 (mk_UserAccessByte CodeAllowRead CodeSeg Ring3) (mk_Flags2 Bit32 Byte_gran),
       userData32 := mk_UserEntry 0xffffffff 0 (mk_UserAccessByte DataAllowWrite DataSeg Ring3) (mk_Flags2 Bit32 Byte_gran),
       userCode64 := mk_UserEntry 0xffffffff 0 (mk_UserAccessByte CodeAllowRead CodeSeg Ring3) longModeCode,
       userData64 := mk_UserEntry 0xffffffff 0 (mk_UserAccessByte DataAllowWrite DataSeg Ring3) (mk_Flags2 Bit32 Byte_gran),
       theEntryForTheTSS := mk_SystemEntry (of_nat sizeof_TSSEntry)
         (self + of_nat (Table_offsetof TheTSSEntryItself))
         (mk_SystemAccessByte AvailableTSS Ring0) null_Flags,
       theTSSEntryItself := (theTSSEntryItself t)
         \<lparr>ts_stackPointers := (ts_stackPointers (theTSSEntryItself t))[0 := stackLocation]\<rparr>\<rparr>"

text \<open>The operands of \<^verbatim>\<open>lgdt\<close>, of the far return, of the data segment loads and of \<^verbatim>\<open>ltr\<close>.\<close>

record gdt_install =
  gi_limit :: u16
  gi_base :: u64
  gi_cs :: u64
  gi_ds :: u64
  gi_tr :: u16

definition Table_install :: "u64 \<Rightarrow> gdt_install" where
  "Table_install self =
     \<lparr>gi_limit = of_nat (Table_offsetof TheTSSEntryItself) - 1, gi_base = self,
      gi_cs = of_nat (Table_offsetof KernelCode), gi_ds = of_nat (Table_offsetof KernelData),
      gi_tr = 0x3b\<rparr>"

section \<open>Properties\<close>

lemmas gdt_sizes = sizeof_UserEntry_def sizeof_SystemEntry_def sizeof_TSSEntry_def

lemma Flags_of_bits_inverse: "Flags_of_bits (Flags_bits f) = f"
proof (cases f)
  case (fields r l z g)
  then show ?thesis
    using word1_cases[of r] word1_cases[of l] word1_cases[of z] word1_cases[of g]
    by (elim disjE) (simp_all add: Flags_of_bits_def Flags_bits_def)
qed

lemma UserEntry_base_mk: "UserEntry_base (mk_UserEntry limit base access flags) = base"
  by (rule bit_word_eqI)
    (auto simp: UserEntry_base_def mk_UserEntry_def and_mask_take_bit bit_simps bit_add_diff)

lemma UserEntry_limit_mk:
  "UserEntry_limit (mk_UserEntry limit base access flags) = take_bit 20 limit"
  by (rule bit_word_eqI)
    (auto simp: UserEntry_limit_def mk_UserEntry_def and_mask_take_bit bit_simps bit_add_diff)

lemma SystemEntry_base_mk: "SystemEntry_base (mk_SystemEntry limit base access gran) = base"
  by (rule bit_word_eqI)
    (auto simp: SystemEntry_base_def mk_SystemEntry_def and_mask_take_bit bit_simps bit_add_diff)

text \<open>
  The descriptor constructors lose nothing the processor needs: the base address spread over
  the fields of a segment entry reads back as the base given, its limit as the low twenty bits of
  the limit given, the 64-bit base of a system entry reads back whole, and the flags survive the
  round trip through the entry's four-bit field.
\<close>

theorem descriptor_roundtrip:
  "UserEntry_base (mk_UserEntry limit base access flags) = base
   \<and> UserEntry_limit (mk_UserEntry limit base access flags) = take_bit 20 limit
   \<and> Flags_of_bits (ue_flags (mk_UserEntry limit base access flags)) = flags
   \<and> SystemEntry_base (mk_SystemEntry slimit sbase saccess sflags) = sbase"
  by (simp add: UserEntry_base_mk UserEntry_limit_mk SystemEntry_base_mk)
    (simp add: mk_UserEntry_def Flags_of_bits_inverse)

section \<open>What the processor finds\<close>

text \<open>
  The table in memory, as quad words: an entry for a system segment takes two. The rest of this section is written from the
  processor's manual: a selector has the requested privilege in its lowest two bits and the index of an entry above the
  third; the whole entry has to lie within the limit. In an entry, bit 47 says that it is present, bits 45 and 46 are the
  privilege, bit 44 is set for code and data, 43 for code, 41 for readable code and writable data, 53 for 64-bit code, 54 for
  32-bit code, and 55 counts the limit in pages.
\<close>

definition SystemEntry_raw :: "SystemEntry \<Rightarrow> u64 list" where
  "SystemEntry_raw e =
     [ucast (se_limitLow e) OR push_bit 16 (ucast (se_baseLow e)) OR push_bit 32 (ucast (se_baseMid e))
        OR push_bit 40 (ucast (SystemAccessByte_bits (se_access e)))
        OR push_bit 48 (ucast (se_limitHigh e)) OR push_bit 52 (ucast (se_flags e)) OR push_bit 56 (ucast (se_baseHigh e)),
      ucast (se_baseHigher e) OR push_bit 32 (ucast (se_reserved e))]"

definition Table_raw :: "Table \<Rightarrow> u64 list" where
  "Table_raw t = map UserEntry_raw [nullEntry t, kernelCode t, kernelData t, userCode32 t, userData32 t, userCode64 t, userData64 t]
     @ SystemEntry_raw (theEntryForTheTSS t)"

datatype hw_kind = Code64 | Code32 | WritableData

definition hw_dpl :: "u64 \<Rightarrow> u64" where "hw_dpl raw = drop_bit 45 raw AND 3"

definition hw_base :: "u64 \<Rightarrow> u64" where
  "hw_base raw = (drop_bit 16 raw AND 0xFFFFFF) OR push_bit 24 (drop_bit 56 raw)"

definition hw_limit :: "u64 \<Rightarrow> u64" where
  "hw_limit raw = (let l = (raw AND 0xFFFF) OR push_bit 16 (drop_bit 48 raw AND 0xF)
     in if drop_bit 55 raw AND 1 = 0 then l else push_bit 12 l OR 0xFFF)"

definition hw_kind :: "u64 \<Rightarrow> hw_kind option" where
  "hw_kind raw =
     (if drop_bit 47 raw AND 1 = 0 \<or> drop_bit 44 raw AND 1 = 0 then None
      else if drop_bit 43 raw AND 1 = 0 then (if drop_bit 41 raw AND 1 = 0 then None else Some WritableData)
      else if drop_bit 53 raw AND 3 = 1 then Some Code64
      else if drop_bit 53 raw AND 3 = 2 then Some Code32 else None)"

text \<open>The entry that a selector finds, for the privilege that the selector asks for.\<close>

definition hw_entry :: "gdt_install \<Rightarrow> u64 list \<Rightarrow> u64 \<Rightarrow> u64 option" where
  "hw_entry g q sel =
     (let i = unat (drop_bit 3 sel) in if sel AND 4 = 0 \<and> 8 * i + 7 \<le> unat (gi_limit g) then Some (q ! i) else None)"

definition hw_segment :: "gdt_install \<Rightarrow> u64 list \<Rightarrow> u64 \<Rightarrow> (hw_kind \<times> u64 \<times> u64) option" where
  "hw_segment g q sel =
     (case hw_entry g q sel of
        None \<Rightarrow> None
      | Some raw \<Rightarrow> if sel AND 3 = hw_dpl raw then map_option (\<lambda>k. (k, hw_base raw, hw_limit raw)) (hw_kind raw) else None)"

text \<open>The base and the limit of the task state that \<^verbatim>\<open>ltr\<close> finds: type 9, present, in two quad words.\<close>

definition hw_task :: "gdt_install \<Rightarrow> u64 list \<Rightarrow> u64 \<Rightarrow> (u64 \<times> u64) option" where
  "hw_task g q sel =
     (case hw_entry g q (sel + 8) of
        None \<Rightarrow> None
      | Some high \<Rightarrow>
          (case hw_entry g q sel of
             None \<Rightarrow> None
           | Some raw \<Rightarrow> if drop_bit 40 raw AND 0x9F = 0x89 then Some (hw_base raw OR push_bit 32 (take_bit 32 high), hw_limit raw) else None))"

text \<open>The fields of the low quad word of a system entry, read back.\<close>

lemma bit_beyond_word: "LENGTH('a) \<le> n \<Longrightarrow> \<not> bit (a :: 'a::len word) n"
  by (meson bit_imp_le_length not_le)

lemma system_entry_fields:
  fixes base :: u64 and c :: u8 and l :: u16
  defines "lo \<equiv> ucast l OR push_bit 16 (take_bit 24 base) OR push_bit 40 (ucast c) OR push_bit 56 (drop_bit 24 base)"
  shows "hw_base lo OR push_bit 32 (take_bit 32 (drop_bit 32 base)) = base"
    and "hw_limit lo = ucast l" and "take_bit 8 (drop_bit 40 lo) = ucast c"
proof -
  have "drop_bit 16 lo AND mask 24 = take_bit 24 base" "drop_bit 56 lo = take_bit 8 (drop_bit 24 base)"
    "lo AND mask 16 = ucast l" "drop_bit 48 lo AND mask 4 = 0" "drop_bit 55 lo AND 1 = 0"
    by (rule bit_word_eqI; auto simp: lo_def bit_simps bit_add_diff bit_beyond_word dest: bit_imp_le_length)+
  note f = this
  show "hw_base lo OR push_bit 32 (take_bit 32 (drop_bit 32 base)) = base"
  proof -
    have "hw_base lo = take_bit 24 base OR push_bit 24 (take_bit 8 (drop_bit 24 base))" using f(1) unfolding hw_base_def f(2) by (simp add: mask_eq_decr_exp)
    then show ?thesis
    by (simp only:) (rule bit_word_eqI, auto simp: bit_simps bit_add_diff bit_beyond_word dest: bit_imp_le_length)
  qed
  show "hw_limit lo = ucast l" using f by (simp add: hw_limit_def mask_eq_decr_exp)
  show "take_bit 8 (drop_bit 40 lo) = ucast c" by (rule bit_word_eqI) (auto simp: lo_def bit_simps bit_add_diff bit_beyond_word dest: bit_imp_le_length)
qed

text \<open>The two quad words of the entry for a task state at any address.\<close>

lemma SystemEntry_raw_TSS:
  "SystemEntry_raw (mk_SystemEntry (of_nat sizeof_TSSEntry) base (mk_SystemAccessByte AvailableTSS Ring0) null_Flags)
   = [ucast (0x68 :: u16) OR push_bit 16 (take_bit 24 base) OR push_bit 40 (ucast (0x89 :: u8)) OR push_bit 56 (drop_bit 24 base),
      drop_bit 32 base]"
proof -
  have bits: "SystemAccessByte_bits (mk_SystemAccessByte AvailableTSS Ring0) = 0x89" "Flags_bits null_Flags = 0"
    by (simp_all add: SystemAccessByte_bits_def mk_SystemAccessByte_def gdt_enum_defs Flags_bits_def null_Flags_def mk_Flags3_def)
  have "16 + (n - 32) = (if n < 32 then 16 else n - 16)" for n :: nat by simp
  then have mid: "push_bit 16 (ucast (ucast (base AND 0xFFFF) :: u16)) OR push_bit 32 (ucast (ucast (drop_bit 16 base AND 0xFF) :: u8)) = push_bit 16 (take_bit 24 base)"
    by (intro bit_word_eqI) (auto simp: and_mask_take_bit bit_simps split: if_splits)
  have top: "(push_bit 56 (ucast (ucast (drop_bit 24 base AND 0xFF) :: u8)) :: u64) = push_bit 56 (drop_bit 24 base)"
    "(ucast (ucast (drop_bit 32 base AND 0xFFFFFFFF) :: u32) :: u64) = drop_bit 32 base"
    by (rule bit_word_eqI, auto simp: and_mask_take_bit bit_simps bit_beyond_word dest: bit_imp_le_length)+
  have fields: "se_limitLow (mk_SystemEntry (of_nat sizeof_TSSEntry) base a f) = 0x68" "se_limitHigh (mk_SystemEntry (of_nat sizeof_TSSEntry) base a f) = 0" for a f
    by (simp_all add: mk_SystemEntry_def gdt_sizes)
  show ?thesis
    unfolding SystemEntry_raw_def fields mid[symmetric]
    by (simp only: mk_SystemEntry_def SystemEntry.simps bits top or.assoc) (simp add: or.assoc)
qed

lemma Table_raw_init:
  "Table_raw (Table_init self st t) =
     [0, 0x002F9A000000FFFF, 0x004F92000000FFFF, 0x004FFA000000FFFF, 0x004FF2000000FFFF, 0x002FFA000000FFFF, 0x004FF2000000FFFF]
     @ SystemEntry_raw (mk_SystemEntry (of_nat sizeof_TSSEntry) (self + of_nat (Table_offsetof TheTSSEntryItself))
         (mk_SystemAccessByte AvailableTSS Ring0) null_Flags)"
  by (simp add: Table_raw_def Table_init_def UserEntry_raw_def mk_UserEntry_def UserAccessByte_bits_def mk_UserAccessByte_def
      null_UserAccessByte_def Flags_bits_def mk_Flags2_def mk_Flags3_def null_Flags_def longModeCode_def gdt_enum_defs)

lemma gi_limit_install: "unat (gi_limit (Table_install self)) = 71"
  by (simp add: Table_install_def gdt_sizes)

text \<open>What each quad word of the segments means.\<close>

lemma decode_raw:
  "hw_kind 0 = None"
  "(hw_kind 0x002F9A000000FFFF, hw_dpl 0x002F9A000000FFFF, hw_base 0x002F9A000000FFFF, hw_limit 0x002F9A000000FFFF) = (Some Code64, 0, 0, 0xFFFFF)"
  "(hw_kind 0x004F92000000FFFF, hw_dpl 0x004F92000000FFFF, hw_base 0x004F92000000FFFF, hw_limit 0x004F92000000FFFF) = (Some WritableData, 0, 0, 0xFFFFF)"
  "(hw_kind 0x004FFA000000FFFF, hw_dpl 0x004FFA000000FFFF, hw_base 0x004FFA000000FFFF, hw_limit 0x004FFA000000FFFF) = (Some Code32, 3, 0, 0xFFFFF)"
  "(hw_kind 0x004FF2000000FFFF, hw_dpl 0x004FF2000000FFFF, hw_base 0x004FF2000000FFFF, hw_limit 0x004FF2000000FFFF) = (Some WritableData, 3, 0, 0xFFFFF)"
  "(hw_kind 0x002FFA000000FFFF, hw_dpl 0x002FFA000000FFFF, hw_base 0x002FFA000000FFFF, hw_limit 0x002FFA000000FFFF) = (Some Code64, 3, 0, 0xFFFFF)"
  by (simp_all add: hw_kind_def hw_dpl_def hw_base_def hw_limit_def)

lemma hw_segment_at:
  "sel AND 4 = 0 \<Longrightarrow> 8 * unat (drop_bit 3 sel) + 7 \<le> unat (gi_limit g) \<Longrightarrow> (hw_kind raw, hw_dpl raw, hw_base raw, hw_limit raw) = (Some k, sel AND 3, b, l)
   \<Longrightarrow> q ! unat (drop_bit 3 sel) = raw \<Longrightarrow> hw_segment g q sel = Some (k, b, l)"
  by (simp add: hw_segment_def hw_entry_def)

text \<open>
  C38. The processor finds the segments that the kernel means. With the table that \<^verbatim>\<open>Table::init\<close> builds and the limit that \<^verbatim>\<open>install\<close> loads, the
  selectors that the kernel loads find 64-bit code and writable data of ring 0, those of the first process and of \<^verbatim>\<open>sysret\<close> 64-bit code and writable
  data of ring 3, each asked for with its own privilege; the null selector finds none. \<^verbatim>\<open>ltr\<close> finds the table's own task state, with the
  new stack for ring 0, and no selector reaches the task state itself. Two values are not what was meant: the limit of the task state is its size and not its last
  byte, and the 32-bit segments end at one megabyte, because the limit of \<open>0xffffffff\<close> is cut to 20 bits and counts bytes.
\<close>

theorem Table_init_descriptors:
  "let q = Table_raw (Table_init self st t); g = Table_install self in
     gi_base g = self \<and> unat (gi_limit g) + 1 = 8 * length q
    \<and> hw_segment g q (gi_cs g) = Some (Code64, 0, 0xFFFFF) \<and> hw_segment g q (gi_ds g) = Some (WritableData, 0, 0xFFFFF)
    \<and> hw_segment g q (of_nat (Table_offsetof UserCode64) OR ucast Ring3) = Some (Code64, 0, 0xFFFFF)
    \<and> hw_segment g q (of_nat (Table_offsetof UserData64) OR ucast Ring3) = Some (WritableData, 0, 0xFFFFF)
    \<and> hw_segment g q (of_nat (Table_offsetof UserCode32) OR ucast Ring3) = Some (Code32, 0, 0xFFFFF)
    \<and> hw_segment g q (of_nat (Table_offsetof UserData32) OR ucast Ring3) = Some (WritableData, 0, 0xFFFFF)
    \<and> hw_segment g q 0 = None
    \<and> hw_task g q (ucast (gi_tr g)) = Some (self + of_nat (Table_offsetof TheTSSEntryItself), of_nat sizeof_TSSEntry)
    \<and> ts_stackPointers (theTSSEntryItself (Table_init self st t)) = (ts_stackPointers (theTSSEntryItself t))[0 := st]
    \<and> (\<forall>sel. of_nat (Table_offsetof TheTSSEntryItself) \<le> sel \<longrightarrow> hw_entry g q sel = None)"
proof -
  define q where "q = Table_raw (Table_init self st t)"
  define g where "g = Table_install self"
  have lim: "unat (gi_limit g) = 71" by (simp add: g_def gi_limit_install)
  have "hw_segment g q (gi_cs g) = Some (Code64, 0, 0xFFFFF)" "hw_segment g q (gi_ds g) = Some (WritableData, 0, 0xFFFFF)"
    "hw_segment g q (of_nat (Table_offsetof UserCode64) OR ucast Ring3) = Some (Code64, 0, 0xFFFFF)"
    "hw_segment g q (of_nat (Table_offsetof UserData64) OR ucast Ring3) = Some (WritableData, 0, 0xFFFFF)"
    "hw_segment g q (of_nat (Table_offsetof UserCode32) OR ucast Ring3) = Some (Code32, 0, 0xFFFFF)"
    "hw_segment g q (of_nat (Table_offsetof UserData32) OR ucast Ring3) = Some (WritableData, 0, 0xFFFFF)"
    by (rule hw_segment_at; simp add: lim q_def g_def gi_limit_install Table_raw_init decode_raw [unfolded prod.inject] Table_install_def gdt_sizes Ring3_def)+
  moreover have "hw_segment g q 0 = None"
    by (simp add: hw_segment_def hw_entry_def q_def Table_raw_init decode_raw)
  moreover have "hw_task g q (ucast (gi_tr g)) = Some (self + of_nat (Table_offsetof TheTSSEntryItself), of_nat sizeof_TSSEntry)"
  proof -
    define base where "base = self + of_nat (Table_offsetof TheTSSEntryItself)"
    define lo where "lo = ucast (0x68 :: u16) OR push_bit 16 (take_bit 24 base) OR push_bit 40 (ucast (0x89 :: u8)) OR push_bit 56 (drop_bit 24 base)"
    note f = system_entry_fields [of "0x68" base "0x89", folded lo_def]
    have "q ! 7 = lo" "q ! 8 = drop_bit 32 base"
      unfolding q_def Table_raw_init base_def [symmetric] SystemEntry_raw_TSS lo_def [symmetric] by simp_all
    moreover have "drop_bit 40 lo AND 0x9F = take_bit 8 (drop_bit 40 lo) AND 0x9F"
      by (rule bit_word_eqI) (auto simp: bit_simps bit_numeral_rec less_Suc_eq numeral_eq_Suc)
    moreover have "ucast (gi_tr g) = (0x3b :: u64)" by (simp add: g_def Table_install_def)
    ultimately show ?thesis unfolding base_def [symmetric]
      by (simp add: hw_task_def hw_entry_def lim f gdt_sizes)
  qed
  moreover have "hw_entry g q sel = None" if "of_nat (Table_offsetof TheTSSEntryItself) \<le> sel" for sel
  proof -
    have "72 \<le> unat sel" using that by (simp add: gdt_sizes word_le_nat_alt)
    then have "9 \<le> unat (drop_bit 3 sel)" by (simp add: drop_bit_eq_div unat_div)
    then show ?thesis by (simp add: hw_entry_def lim)
  qed
  ultimately show ?thesis
    by (simp add: Let_def flip: q_def g_def) (simp add: q_def g_def Table_raw_init SystemEntry_raw_def gi_limit_install, simp add: Table_init_def Table_install_def)
qed

definition blank_Table :: Table where
  "blank_Table = (let e = mk_UserEntry 0 0 null_UserAccessByte null_Flags in
     \<lparr>nullEntry = e, kernelCode = e, kernelData = e, userCode32 = e, userData32 = e, userCode64 = e, userData64 = e,
      theEntryForTheTSS = mk_SystemEntry 0 0 (mk_SystemAccessByte 0 Ring0) null_Flags,
      theTSSEntryItself = \<lparr>ts_reserved0 = 0, ts_stackPointers = replicate 3 0, ts_reserved1 = 0, ts_interruptStackTable = replicate 7 0,
        ts_reserved2 = 0, ts_reserved3 = 0, ts_iomapBase = 0\<rparr>\<rparr>)"

text \<open>A table at \<open>0xFFFF800000020000\<close>, with a stack for interrupts at \<open>0xFFFF800000019000\<close>.\<close>

theorem Table_init_descriptors_witness:
  "hw_segment (Table_install 0xFFFF800000020000) (Table_raw (Table_init 0xFFFF800000020000 0xFFFF800000019000 blank_Table)) 8 = Some (Code64, 0, 0xFFFFF)
   \<and> hw_entry (Table_install 0xFFFF800000020000) (Table_raw (Table_init 0xFFFF800000020000 0xFFFF800000019000 blank_Table)) 72 = None
   \<and> ts_stackPointers (theTSSEntryItself (Table_init 0xFFFF800000020000 0xFFFF800000019000 blank_Table)) = [0xFFFF800000019000, 0, 0]"
  using Table_init_descriptors [of "0xFFFF800000020000" "0xFFFF800000019000" blank_Table]
  by (simp add: Let_def gdt_sizes Table_install_def blank_Table_def numeral_3_eq_3)

end
