(* ===== verification/Cpu_State.thy ===== *)
theory Cpu_State
  imports Kernel_Memory Descriptor_Tables
begin

text \<open>
  The per-processor state of \<^verbatim>\<open>src/Kernel/ProcessManagement.h\<close>: the \<^verbatim>\<open>CPUState\<close> array, the lookup of
  the running processor by its local APIC id, and the nested interrupt disabling
  \<^verbatim>\<open>pushCLI\<close>/\<^verbatim>\<open>popCLI\<close>. The machine record holds what one running processor sees; the records
  of the components extend it. The lemmas show that a push and its pop restore the interrupt flag.
\<close>

record CPUState =
  apicID :: u32
  cliCount :: u32
  wereInterruptsEnabled :: bool
  currentProcess :: u64
  interruptStack :: u64
  table :: Table
  userStack :: u64
  schedulerTask :: u64

text \<open>
  \<open>CPUs\<close> is the array of \<^verbatim>\<open>CPUCount\<close> entries, \<open>lapicIDReg\<close> the APIC id register and
  \<open>rflags\<close> the flags register of the processor that executes, \<open>outb_log\<close> the bytes written to
  I/O ports, oldest first.
\<close>

record machine =
  mem :: memory
  CPUs :: "CPUState list"
  lapicIDReg :: u32
  rflags :: u64
  outb_log :: "(u16 \<times> u8) list"

definition InterruptFlag :: u64 where "InterruptFlag = 0x200"

definition interrupts_on :: "u64 \<Rightarrow> bool" where
  "interrupts_on flags \<longleftrightarrow> flags AND InterruptFlag \<noteq> 0"

definition cli :: "'a machine_scheme \<Rightarrow> 'a machine_scheme" where
  "cli s = s\<lparr>rflags := rflags s AND NOT InterruptFlag\<rparr>"

definition sti :: "'a machine_scheme \<Rightarrow> 'a machine_scheme" where
  "sti s = s\<lparr>rflags := rflags s OR InterruptFlag\<rparr>"

definition outb :: "u16 \<Rightarrow> u8 \<Rightarrow> 'a machine_scheme \<Rightarrow> 'a machine_scheme" where
  "outb port val s = s\<lparr>outb_log := outb_log s @ [(port, val)]\<rparr>"

definition lapicID :: "'a machine_scheme \<Rightarrow> u32" where
  "lapicID s = drop_bit 24 (lapicIDReg s)"

text \<open>The loop of \<^verbatim>\<open>thisCPU\<close>: the index of the first entry with the id, or null.\<close>

fun thisCPU_from :: "nat \<Rightarrow> CPUState list \<Rightarrow> u32 \<Rightarrow> nat option" where
  "thisCPU_from i [] ident = None"
| "thisCPU_from i (c # cs) ident = (if apicID c = ident then Some i else thisCPU_from (Suc i) cs ident)"

definition thisCPU :: "'a machine_scheme \<Rightarrow> nat option" where
  "thisCPU s = thisCPU_from 0 (CPUs s) (lapicID s)"

text \<open>The work of \<^verbatim>\<open>pushCLI\<close> and \<^verbatim>\<open>popCLI\<close> on the entry of the running processor.\<close>

definition push_cli_cpu :: "u64 \<Rightarrow> CPUState \<Rightarrow> CPUState" where
  "push_cli_cpu flags c =
     (let c1 = (if cliCount c = 0 then c\<lparr>wereInterruptsEnabled := interrupts_on flags\<rparr> else c)
      in c1\<lparr>cliCount := cliCount c1 + 1\<rparr>)"

definition pop_cli_cpu :: "CPUState \<Rightarrow> CPUState" where
  "pop_cli_cpu c = c\<lparr>cliCount := cliCount c - 1\<rparr>"

definition pop_enables :: "CPUState \<Rightarrow> bool" where
  "pop_enables c \<longleftrightarrow> cliCount c = 0 \<and> wereInterruptsEnabled c"

definition pushCLI :: "'a machine_scheme \<Rightarrow> 'a machine_scheme outcome" where
  "pushCLI s =
     (let flags = rflags s; s1 = cli s
      in case thisCPU s1 of
           None \<Rightarrow> Inl NullDeref
         | Some i \<Rightarrow> Inr (s1\<lparr>CPUs := (CPUs s1)[i := push_cli_cpu flags (CPUs s1 ! i)]\<rparr>))"

definition popCLI :: "'a machine_scheme \<Rightarrow> 'a machine_scheme outcome" where
  "popCLI s =
     (case thisCPU s of
        None \<Rightarrow> Inl NullDeref
      | Some i \<Rightarrow>
          (let s1 = s\<lparr>CPUs := (CPUs s)[i := pop_cli_cpu (CPUs s ! i)]\<rparr>
           in Inr (if pop_enables (CPUs s1 ! i) then sti s1 else s1)))"

text \<open>A processor entry as the zeroed page of \<^verbatim>\<open>initializeProcessors\<close> holds it.\<close>

definition zero_UserEntry :: UserEntry where
  "zero_UserEntry = \<lparr>ue_limitLow = 0, ue_baseLow = 0, ue_baseMid = 0,
     ue_access = null_UserAccessByte, ue_limitHigh = 0, ue_flags = 0, ue_baseHigh = 0\<rparr>"

definition zero_Table :: Table where
  "zero_Table = \<lparr>nullEntry = zero_UserEntry, kernelCode = zero_UserEntry,
     kernelData = zero_UserEntry, userCode32 = zero_UserEntry, userData32 = zero_UserEntry,
     userCode64 = zero_UserEntry, userData64 = zero_UserEntry,
     theEntryForTheTSS = \<lparr>se_limitLow = 0, se_baseLow = 0, se_baseMid = 0,
       se_access = \<lparr>sa_type = 0, sa_isUserSegment = 0, sa_descriptorPrivilegeLevel = 0, sa_present = 0\<rparr>,
       se_limitHigh = 0, se_flags = 0, se_baseHigh = 0, se_baseHigher = 0, se_reserved = 0\<rparr>,
     theTSSEntryItself = \<lparr>ts_reserved0 = 0, ts_stackPointers = [0, 0, 0], ts_reserved1 = 0,
       ts_interruptStackTable = [0, 0, 0, 0, 0, 0, 0], ts_reserved2 = 0, ts_reserved3 = 0,
       ts_iomapBase = 0\<rparr>\<rparr>"

definition zero_CPUState :: CPUState where
  "zero_CPUState = \<lparr>apicID = 0, cliCount = 0, wereInterruptsEnabled = False, currentProcess = 0,
     interruptStack = 0, table = zero_Table, userStack = 0, schedulerTask = 0\<rparr>"

section \<open>The lookup\<close>

lemma thisCPU_from_Some:
  "thisCPU_from i cs ident = Some j \<Longrightarrow>
     i \<le> j \<and> j < i + length cs \<and> apicID (cs ! (j - i)) = ident"
proof (induction cs arbitrary: i)
  case (Cons c cs)
  then show ?case by (fastforce split: if_splits simp: nth_Cons' )
qed simp

lemma thisCPU_from_None:
  "thisCPU_from i cs ident = None \<longleftrightarrow> (\<forall>c \<in> set cs. apicID c \<noteq> ident)"
  by (induction cs arbitrary: i) auto

lemma thisCPU_from_cong:
  "map apicID cs = map apicID cs' \<Longrightarrow> thisCPU_from i cs ident = thisCPU_from i cs' ident"
proof (induction cs arbitrary: i cs')
  case (Cons c cs)
  then show ?case by (cases cs') auto
qed simp

lemma apicID_push [simp]: "apicID (push_cli_cpu f c) = apicID c"
  by (simp add: push_cli_cpu_def Let_def)

lemma apicID_pop [simp]: "apicID (pop_cli_cpu c) = apicID c"
  by (simp add: pop_cli_cpu_def)

lemma thisCPU_update_same_id:
  assumes "apicID c = apicID (CPUs s ! i)"
  shows "thisCPU (s\<lparr>CPUs := (CPUs s)[i := c]\<rparr>) = thisCPU s"
proof -
  have "map apicID ((CPUs s)[i := c]) = map apicID (CPUs s)"
    using assms by (metis list_update_id map_update)
  then show ?thesis by (auto simp: thisCPU_def lapicID_def intro: thisCPU_from_cong)
qed

lemma thisCPU_cli [simp]: "thisCPU (cli s) = thisCPU s"
  by (simp add: thisCPU_def lapicID_def cli_def)

lemma thisCPU_sti [simp]: "thisCPU (sti s) = thisCPU s"
  by (simp add: thisCPU_def lapicID_def sti_def)

lemma thisCPU_bound: "thisCPU s = Some i \<Longrightarrow> i < length (CPUs s)"
  using thisCPU_from_Some[of 0 "CPUs s" "lapicID s" i] by (simp add: thisCPU_def)

section \<open>Nested interrupt disabling\<close>

lemma pop_push_cpu:
  "pop_cli_cpu (push_cli_cpu f c)
     = (if cliCount c = 0 then c\<lparr>wereInterruptsEnabled := interrupts_on f\<rparr> else c)"
  by (simp add: push_cli_cpu_def pop_cli_cpu_def Let_def)

lemma bit_InterruptFlag: "bit InterruptFlag n \<longleftrightarrow> n = 9"
proof -
  have eq: "InterruptFlag = 2 ^ 9" by (simp add: InterruptFlag_def)
  show ?thesis by (simp only: eq bit_exp_iff) (auto simp: possible_bit_word)
qed

lemma interrupts_on_bit: "interrupts_on f \<longleftrightarrow> bit f 9"
proof -
  have eq: "InterruptFlag = 2 ^ 9" by (simp add: InterruptFlag_def)
  show ?thesis by (simp only: interrupts_on_def eq and_exp_eq_0_iff_not_bit not_not)
qed

lemma or_and_not_InterruptFlag:
  "interrupts_on f \<Longrightarrow> (f AND NOT InterruptFlag) OR InterruptFlag = f"
  by (rule bit_word_eqI) (auto simp: interrupts_on_bit bit_InterruptFlag bit_simps)

lemma and_not_InterruptFlag:
  "\<not> interrupts_on f \<Longrightarrow> f AND NOT InterruptFlag = f"
  by (rule bit_word_eqI) (auto simp: interrupts_on_bit bit_InterruptFlag bit_simps)

lemma interrupts_off_cli [simp]: "\<not> interrupts_on (f AND NOT InterruptFlag)"
  by (simp add: interrupts_on_bit bit_InterruptFlag bit_simps)

text \<open>
  The combined effect of a push and its pop: as the outermost pair it records the interrupt flag
  in the processor's entry and restores the flags register; inside another pair it only clears the
  interrupt flag.
\<close>

definition cli_neutral :: "'a machine_scheme \<Rightarrow> 'a machine_scheme" where
  "cli_neutral s =
     (case thisCPU s of
        None \<Rightarrow> s
      | Some i \<Rightarrow>
          (if cliCount (CPUs s ! i) = 0
           then s\<lparr>CPUs := (CPUs s)[i := (CPUs s ! i)\<lparr>wereInterruptsEnabled := interrupts_on (rflags s)\<rparr>]\<rparr>
           else cli s))"

lemma pushCLI_eq:
  "thisCPU s = Some i \<Longrightarrow>
     pushCLI s = Inr (s\<lparr>rflags := rflags s AND NOT InterruptFlag,
                       CPUs := (CPUs s)[i := push_cli_cpu (rflags s) (CPUs s ! i)]\<rparr>)"
  by (simp add: pushCLI_def Let_def) (simp add: cli_def)

lemma popCLI_eq:
  assumes "thisCPU s = Some i"
  shows "popCLI s = Inr (s\<lparr>rflags := (if pop_enables (pop_cli_cpu (CPUs s ! i))
                                       then rflags s OR InterruptFlag else rflags s),
                          CPUs := (CPUs s)[i := pop_cli_cpu (CPUs s ! i)]\<rparr>)"
  using assms thisCPU_bound[OF assms] by (simp add: popCLI_def Let_def sti_def)

lemma popCLI_pushCLI:
  assumes "thisCPU s = Some i"
  shows "obind (pushCLI s) popCLI = Inr (cli_neutral s)"
proof -
  let ?c = "CPUs s ! i" and ?f = "rflags s AND NOT InterruptFlag"
  let ?s1 = "s\<lparr>rflags := ?f, CPUs := (CPUs s)[i := push_cli_cpu (rflags s) ?c]\<rparr>"
  have "thisCPU (s\<lparr>CPUs := (CPUs s)[i := push_cli_cpu (rflags s) ?c]\<rparr>) = Some i"
    using assms by (simp add: thisCPU_update_same_id)
  then have i1: "thisCPU ?s1 = Some i" by (simp add: thisCPU_def lapicID_def)
  have i: "i < length (CPUs s)" using assms by (rule thisCPU_bound)
  show ?thesis
    using assms i pushCLI_eq[OF assms] popCLI_eq[OF i1]
    by (auto simp: cli_neutral_def cli_def pop_push_cpu pop_enables_def
        or_and_not_InterruptFlag and_not_InterruptFlag)
qed

lemma cli_neutral_simps [simp]:
  "mem (cli_neutral s) = mem s" "lapicIDReg (cli_neutral s) = lapicIDReg s"
  "outb_log (cli_neutral s) = outb_log s" "machine.more (cli_neutral s) = machine.more s"
  "length (CPUs (cli_neutral s)) = length (CPUs s)"
  by (auto simp: cli_neutral_def cli_def split: option.splits)

lemma thisCPU_cli_neutral [simp]: "thisCPU (cli_neutral s) = thisCPU s"
  by (auto simp: cli_neutral_def thisCPU_update_same_id split: option.splits)

text \<open>Sequences of the two calls. \<open>cli_depth n ws\<close> is the depth after the calls \<open>ws\<close> from depth \<open>n\<close>, if no pop is without its push.\<close>

datatype cli_call = PushCLI | PopCLI

fun cli_calls :: "cli_call list \<Rightarrow> 'a machine_scheme \<Rightarrow> 'a machine_scheme outcome" where
  "cli_calls [] s = Inr s"
| "cli_calls (PushCLI # ws) s = obind (pushCLI s) (cli_calls ws)"
| "cli_calls (PopCLI # ws) s = obind (popCLI s) (cli_calls ws)"

fun cli_depth :: "nat \<Rightarrow> cli_call list \<Rightarrow> nat option" where
  "cli_depth n [] = Some n"
| "cli_depth n (PushCLI # ws) = cli_depth (n + 1) ws"
| "cli_depth n (PopCLI # ws) = (if n = 0 then None else cli_depth (n - 1) ws)"

text \<open>The state at depth \<open>n\<close> above \<open>s\<close>, with \<open>w\<close> in the member \<^verbatim>\<open>wereInterruptsEnabled\<close>.\<close>

definition cli_nested :: "'a machine_scheme \<Rightarrow> nat \<Rightarrow> nat \<Rightarrow> bool \<Rightarrow> 'a machine_scheme" where
  "cli_nested s i n w = s\<lparr>rflags := (if n = 0 then rflags s else rflags s AND NOT InterruptFlag),
     CPUs := (CPUs s)[i := (CPUs s ! i)\<lparr>wereInterruptsEnabled := w, cliCount := cliCount (CPUs s ! i) + of_nat n\<rparr>]\<rparr>"

definition cli_quiet :: "'a machine_scheme \<Rightarrow> nat \<Rightarrow> bool" where
  "cli_quiet s i \<longleftrightarrow> (cliCount (CPUs s ! i) \<noteq> 0 \<longrightarrow> \<not> interrupts_on (rflags s))"

lemma thisCPU_cli_nested: "thisCPU s = Some i \<Longrightarrow> thisCPU (cli_nested s i n w) = Some i"
proof -
  let ?c = "(CPUs s ! i)\<lparr>wereInterruptsEnabled := w, cliCount := cliCount (CPUs s ! i) + of_nat n\<rparr>"
  have "thisCPU (cli_nested s i n w) = thisCPU (s\<lparr>CPUs := (CPUs s)[i := ?c]\<rparr>)" by (simp add: cli_nested_def thisCPU_def lapicID_def)
  then show "thisCPU s = Some i \<Longrightarrow> thisCPU (cli_nested s i n w) = Some i" by (simp add: thisCPU_update_same_id)
qed

lemma cli_depth_count:
  assumes "unat (c :: u32) + n < 2 ^ 32"
  shows "c + of_nat n = 0 \<longleftrightarrow> c = 0 \<and> n = 0"
proof -
  have "unat (c + of_nat n) = unat c + n" using assms by (simp add: unat_word_ariths unat_of_nat take_bit_nat_eq_self)
  then show ?thesis by (metis add_eq_0_iff_both_eq_0 unat_eq_zero)
qed

lemma and_not_InterruptFlag_twice: "f AND NOT InterruptFlag AND NOT InterruptFlag = f AND NOT InterruptFlag"
  by (simp add: and.assoc)

lemma push_cli_nested:
  assumes i: "thisCPU s = Some i" and n: "unat (cliCount (CPUs s ! i)) + n < 2 ^ 32"
    and w: "n \<noteq> 0 \<Longrightarrow> cliCount (CPUs s ! i) = 0 \<Longrightarrow> w = interrupts_on (rflags s)"
  shows "pushCLI (cli_nested s i n w) = Inr (cli_nested s i (n + 1) (if cliCount (CPUs s ! i) = 0 then interrupts_on (rflags s) else w))"
  using thisCPU_bound[OF i] cli_depth_count[OF n] w unfolding pushCLI_eq[OF thisCPU_cli_nested[OF i]]
  by (auto simp: cli_nested_def push_cli_cpu_def and_not_InterruptFlag_twice Let_def ac_simps)

lemma pop_cli_nested:
  assumes i: "thisCPU s = Some i" and n: "unat (cliCount (CPUs s ! i)) + n < 2 ^ 32" and n0: "n \<noteq> 0"
    and q: "cli_quiet s i" and w: "cliCount (CPUs s ! i) = 0 \<Longrightarrow> w = interrupts_on (rflags s)"
  shows "popCLI (cli_nested s i n w) = Inr (cli_nested s i (n - 1) w)"
proof -
  obtain k where k: "n = Suc k" using n0 by (cases n) auto
  have "unat (cliCount (CPUs s ! i)) + k < 2 ^ 32" using n k by simp
  note c = cli_depth_count[OF this]
  have flags: "(if cliCount (CPUs s ! i) = 0 \<and> k = 0 \<and> w then (rflags s AND NOT InterruptFlag) OR InterruptFlag else rflags s AND NOT InterruptFlag)
      = (if k = 0 then rflags s else rflags s AND NOT InterruptFlag)"
    using q w by (auto simp: cli_quiet_def or_and_not_InterruptFlag and_not_InterruptFlag)
  show ?thesis using thisCPU_bound[OF i] c flags[symmetric] unfolding popCLI_eq[OF thisCPU_cli_nested[OF i]] k
    by (auto simp: cli_nested_def pop_cli_cpu_def pop_enables_def)
qed

lemma cli_calls_nested:
  assumes i: "thisCPU s = Some i" and q: "cli_quiet s i"
  shows "cli_depth n ws = Some d \<Longrightarrow> unat (cliCount (CPUs s ! i)) + n + length ws < 2 ^ 32
    \<Longrightarrow> (n \<noteq> 0 \<Longrightarrow> cliCount (CPUs s ! i) = 0 \<Longrightarrow> w = interrupts_on (rflags s)) \<Longrightarrow> \<exists>w'. cli_calls ws (cli_nested s i n w) = Inr (cli_nested s i d w')"
proof (induction n ws arbitrary: w rule: cli_depth.induct)
  case (1 n)
  then show ?case by auto
next
  case (2 n ws)
  have "unat (cliCount (CPUs s ! i)) + n < 2 ^ 32" using "2.prems"(2) by simp
  note push = push_cli_nested[OF i this, of w]
  show ?case using push "2.prems" "2.IH"[of "if cliCount (CPUs s ! i) = 0 then interrupts_on (rflags s) else w"] by auto
next
  case (3 n ws)
  then have n: "n \<noteq> 0" "cli_depth (n - 1) ws = Some d" by (auto split: if_splits)
  have "unat (cliCount (CPUs s ! i)) + n < 2 ^ 32" using "3.prems"(2) by simp
  note pop = pop_cli_nested[OF i this n(1) q, of w]
  show ?case using pop "3.prems" n "3.IH"[OF n(1,2), of w] by auto
qed

text \<open>
  C37. Interrupt disabling nests. On a known processor, after any sequence of \<^verbatim>\<open>pushCLI\<close> and \<^verbatim>\<open>popCLI\<close> in which no pop is without its push, the
  count has grown by the depth that is left; as long as that is not zero, interrupts are off, and when it is zero, the flags register is exactly
  what it was, interrupts on again only if they were. That is so from outside of all pairs and from within one, whatever the recorded flag was before; no
  other processor's entry and no memory changes. On a processor that is not in the table both calls follow a null pointer.
\<close>

theorem push_pop_CLI:
  assumes "cli_depth 0 ws = Some d" and "unat (cliCount (CPUs s ! i)) + length ws < 2 ^ 32"
    and "cliCount (CPUs s ! i) \<noteq> 0 \<longrightarrow> \<not> interrupts_on (rflags s)"
  shows "(thisCPU s = Some i \<longrightarrow> (\<exists>t. cli_calls ws s = Inr t \<and> cliCount (CPUs t ! i) = cliCount (CPUs s ! i) + of_nat d
      \<and> (d \<noteq> 0 \<longrightarrow> \<not> interrupts_on (rflags t)) \<and> (d = 0 \<longrightarrow> rflags t = rflags s)
      \<and> mem t = mem s \<and> machine.more t = machine.more s \<and> (\<forall>j. j \<noteq> i \<longrightarrow> CPUs t ! j = CPUs s ! j)
      \<and> currentProcess (CPUs t ! i) = currentProcess (CPUs s ! i)))
   \<and> (thisCPU s = None \<longrightarrow> pushCLI s = Inl NullDeref \<and> popCLI s = Inl NullDeref)"
proof (intro conjI impI)
  assume i: "thisCPU s = Some i"
  have "cli_nested s i 0 (wereInterruptsEnabled (CPUs s ! i)) = s" by (simp add: cli_nested_def)
  then obtain w where "cli_calls ws s = Inr (cli_nested s i d w)"
    using cli_calls_nested[OF i _ assms(1), of "wereInterruptsEnabled (CPUs s ! i)"] assms(2,3) by (auto simp: cli_quiet_def)
  then show "\<exists>t. cli_calls ws s = Inr t \<and> cliCount (CPUs t ! i) = cliCount (CPUs s ! i) + of_nat d
      \<and> (d \<noteq> 0 \<longrightarrow> \<not> interrupts_on (rflags t)) \<and> (d = 0 \<longrightarrow> rflags t = rflags s)
      \<and> mem t = mem s \<and> machine.more t = machine.more s \<and> (\<forall>j. j \<noteq> i \<longrightarrow> CPUs t ! j = CPUs s ! j)
      \<and> currentProcess (CPUs t ! i) = currentProcess (CPUs s ! i)"
    using thisCPU_bound[OF i] by (intro exI[of _ "cli_nested s i d w"]) (simp add: cli_nested_def)
qed (simp_all add: pushCLI_def popCLI_def Let_def)

theorem push_pop_CLI_witness:
  "\<exists>t u. cli_calls [PushCLI, PushCLI, PopCLI] \<lparr>mem = \<lambda>_. 0, CPUs = [zero_CPUState], lapicIDReg = 0, rflags = 0x202, outb_log = []\<rparr> = Inr t
     \<and> \<not> interrupts_on (rflags t)
     \<and> cli_calls [PushCLI, PushCLI, PopCLI, PopCLI] \<lparr>mem = \<lambda>_. 0, CPUs = [zero_CPUState], lapicIDReg = 0, rflags = 0x202, outb_log = []\<rparr> = Inr u
     \<and> rflags u = 0x202"
proof -
  let ?s = "\<lparr>mem = \<lambda>_. 0, CPUs = [zero_CPUState], lapicIDReg = 0, rflags = 0x202, outb_log = []\<rparr>"
  have i: "thisCPU ?s = Some 0" by (simp add: thisCPU_def lapicID_def zero_CPUState_def)
  have c: "cliCount (CPUs ?s ! 0) = 0" by (simp add: zero_CPUState_def)
  have "cli_depth 0 [PushCLI, PushCLI, PopCLI] = Some 1" "cli_depth 0 [PushCLI, PushCLI, PopCLI, PopCLI] = Some 0" by simp_all
  then show ?thesis
    using push_pop_CLI[of "[PushCLI, PushCLI, PopCLI]" 1 ?s 0] push_pop_CLI[of "[PushCLI, PushCLI, PopCLI, PopCLI]" 0 ?s 0] i c
    by (fastforce simp del: cli_calls.simps)
qed

end
