(* ===== verification/Spin_Lock.thy ===== *)
theory Spin_Lock
  imports Cpu_State
begin

text \<open>
  The spinlock of \<^verbatim>\<open>src/Kernel/Spinlock.cpp\<close>, twice: as the call a single processor makes
  (\<^verbatim>\<open>acquire\<close> and \<^verbatim>\<open>release\<close> on the four bytes at \<^verbatim>\<open>&held\<close>), and as the interleaving of any number
  of processors, one atomic access per step. The first shows what the calls do to the lock word
  and to the interrupt flag, the second that at most one processor is between its successful
  test-and-set and its clearing store.
\<close>

section \<open>The calls\<close>

text \<open>
  \<^verbatim>\<open>held\<close> is a \<^verbatim>\<open>uint16_t\<close>, but \<^verbatim>\<open>release\<close> clears it with \<^verbatim>\<open>movl\<close>, a four-byte store. The model
  of a lock is therefore the four bytes at the address of \<^verbatim>\<open>held\<close>: the low half is \<^verbatim>\<open>held\<close>, the
  high half is whatever the enclosing object has there.
\<close>

type_synonym lock_word = u32

definition lock_held :: "lock_word \<Rightarrow> u16" where
  "lock_held w = ucast w"

definition lock_set_held :: "u16 \<Rightarrow> lock_word \<Rightarrow> lock_word" where
  "lock_set_held h w = push_bit 16 (drop_bit 16 w) OR ucast h"

definition Spinlock_init :: "lock_word \<Rightarrow> lock_word" where
  "Spinlock_init w = lock_set_held 0 w"

text \<open>\<^verbatim>\<open>__sync_lock_test_and_set(&held, 1)\<close>: the old value and the new lock word.\<close>

definition test_and_set :: "lock_word \<Rightarrow> u16 \<times> lock_word" where
  "test_and_set w = (lock_held w, lock_set_held 1 w)"

definition movl_zero :: "lock_word \<Rightarrow> lock_word" where
  "movl_zero w = 0"

text \<open>
  The loop of \<^verbatim>\<open>acquire\<close> on its own: with no other processor at work the value a failing
  test-and-set leaves is the value it found, so a lock found held is spun on for ever.
\<close>

definition Spinlock_acquire ::
  "lock_word \<Rightarrow> 'a machine_scheme \<Rightarrow> (lock_word \<times> 'a machine_scheme) outcome" where
  "Spinlock_acquire w s =
     obind (pushCLI s) (\<lambda>s1.
       let (old, w1) = test_and_set w
       in if old \<noteq> 0 then Inl Spins
          else obind (popCLI s1) (\<lambda>s2. Inr (w1, s2)))"

definition Spinlock_release ::
  "lock_word \<Rightarrow> 'a machine_scheme \<Rightarrow> (lock_word \<times> 'a machine_scheme) outcome" where
  "Spinlock_release w s =
     obind (pushCLI s) (\<lambda>s1. obind (popCLI s1) (\<lambda>s2. Inr (movl_zero w, s2)))"

lemma lock_held_set [simp]: "lock_held (lock_set_held h w) = h"
  by (rule bit_word_eqI) (auto simp: lock_held_def lock_set_held_def bit_simps)

lemma lock_set_held_high [simp]: "drop_bit 16 (lock_set_held h w) = drop_bit 16 w"
  by (rule bit_word_eqI) (auto simp: lock_set_held_def bit_simps dest: bit_imp_le_length)

lemma lock_held_zero [simp]: "lock_held 0 = 0"
  by (simp add: lock_held_def)

lemma Spinlock_acquire_eq [kernel_simps]:
  assumes "thisCPU s = Some i"
  shows "Spinlock_acquire w s =
    (if lock_held w = 0 then Inr (lock_set_held 1 w, cli_neutral s) else Inl Spins)"
proof -
  obtain s1 where s1: "pushCLI s = Inr s1" using pushCLI_eq[OF assms] by blast
  then have "popCLI s1 = Inr (cli_neutral s)" using popCLI_pushCLI[OF assms] by simp
  with s1 show ?thesis by (simp add: Spinlock_acquire_def test_and_set_def)
qed

lemma Spinlock_release_eq [kernel_simps]:
  assumes "thisCPU s = Some i"
  shows "Spinlock_release w s = Inr (0, cli_neutral s)"
  using popCLI_pushCLI[OF assms]
  by (cases "pushCLI s") (auto simp: Spinlock_release_def movl_zero_def)

lemma cli_neutral_idem: "cli_neutral (cli_neutral s) = cli_neutral s"
proof (cases "thisCPU s")
  case (Some i)
  have [simp]: "CPUs (cli s) = CPUs s" "cli (cli s) = cli s"
    by (simp_all add: cli_def and.assoc)
  show ?thesis
    using Some thisCPU_bound[OF Some] by (auto simp: cli_neutral_def thisCPU_update_same_id)
qed (simp add: cli_neutral_def)

text \<open>
  What the lock calls do on a known processor. \<^verbatim>\<open>acquire\<close> of a free lock marks it held and
  leaves the neighbouring bytes alone, \<^verbatim>\<open>acquire\<close> of a held lock never returns, and
  \<^verbatim>\<open>release\<close> clears all four bytes at \<^verbatim>\<open>&held\<close>, two more than the lock has. With the processor
  outside of any \<^verbatim>\<open>pushCLI\<close>, the flags register after \<^verbatim>\<open>acquire\<close> is the one from before: the lock
  is held with interrupts as enabled as they were.
\<close>

theorem Spinlock_calls:
  assumes "thisCPU s = Some i"
  shows "(lock_held w = 0 \<longrightarrow>
      (\<exists>w' s'. Spinlock_acquire w s = Inr (w', s') \<and> lock_held w' = 1
        \<and> drop_bit 16 w' = drop_bit 16 w \<and> mem s' = mem s
        \<and> (cliCount (CPUs s ! i) = 0 \<longrightarrow> rflags s' = rflags s)))
    \<and> (lock_held w \<noteq> 0 \<longrightarrow> Spinlock_acquire w s = Inl Spins)
    \<and> (\<exists>s'. Spinlock_release w s = Inr (0, s') \<and> mem s' = mem s)"
proof -
  have "cliCount (CPUs s ! i) = 0 \<Longrightarrow> rflags (cli_neutral s) = rflags s"
    using assms by (simp add: cli_neutral_def)
  then show ?thesis
    using Spinlock_acquire_eq[OF assms, of w] Spinlock_release_eq[OF assms, of w] by simp
qed

theorem Spinlock_calls_witness:
  "thisCPU \<lparr>mem = \<lambda>_. 0, CPUs = [zero_CPUState], lapicIDReg = 0, rflags = 0x202, outb_log = []\<rparr> = Some 0
   \<and> (\<exists>w' s'. Spinlock_acquire 0x10000
        \<lparr>mem = \<lambda>_. 0, CPUs = [zero_CPUState], lapicIDReg = 0, rflags = 0x202, outb_log = []\<rparr>
        = Inr (w', s') \<and> lock_held w' = 1 \<and> rflags s' = 0x202)
   \<and> Spinlock_acquire 0x10001
        \<lparr>mem = \<lambda>_. 0, CPUs = [zero_CPUState], lapicIDReg = 0, rflags = 0x202, outb_log = []\<rparr>
        = Inl Spins"
proof -
  let ?s = "\<lparr>mem = \<lambda>_. 0, CPUs = [zero_CPUState], lapicIDReg = 0, rflags = 0x202, outb_log = []\<rparr>"
  have i: "thisCPU ?s = Some 0" by (simp add: thisCPU_def lapicID_def zero_CPUState_def)
  have "lock_held 0x10000 = 0" "lock_held 0x10001 \<noteq> 0" by (simp_all add: lock_held_def)
  moreover have "cliCount (CPUs ?s ! 0) = 0" by (simp add: zero_CPUState_def)
  ultimately show ?thesis
    using i Spinlock_calls[OF i, of "0x10000"] Spinlock_calls[OF i, of "0x10001"] by auto
qed

section \<open>Interleaved processors\<close>

text \<open>
  The program of a processor that takes and gives back the lock, cut at its memory accesses.
  \<open>AcqPush\<close> and \<open>AcqSpin\<close> are the two halves of \<^verbatim>\<open>acquire\<close> before the lock is taken,
  \<open>AcqPop\<close> its last call; \<open>Holding\<close> is the caller's critical section; \<open>RelPush\<close>,
  \<open>RelStore\<close> and \<open>RelPop\<close> are \<^verbatim>\<open>release\<close>.
\<close>

datatype lock_pc = Outside | AcqPush | AcqSpin | AcqPop | Holding | RelPush | RelStore | RelPop

record lock_cpu =
  lc_pc :: lock_pc
  lc_cpu :: CPUState
  lc_flags :: u64

record lock_sys =
  ls_word :: lock_word
  ls_cpus :: "nat \<Rightarrow> lock_cpu"

definition lc_push :: "lock_cpu \<Rightarrow> lock_cpu" where
  "lc_push c = c\<lparr>lc_cpu := push_cli_cpu (lc_flags c) (lc_cpu c),
                lc_flags := lc_flags c AND NOT InterruptFlag\<rparr>"

definition lc_pop :: "lock_cpu \<Rightarrow> lock_cpu" where
  "lc_pop c = c\<lparr>lc_cpu := pop_cli_cpu (lc_cpu c),
               lc_flags := (if pop_enables (pop_cli_cpu (lc_cpu c))
                            then lc_flags c OR InterruptFlag else lc_flags c)\<rparr>"

definition goto :: "lock_sys \<Rightarrow> nat \<Rightarrow> lock_cpu \<Rightarrow> lock_pc \<Rightarrow> lock_sys" where
  "goto s i c p = s\<lparr>ls_cpus := (ls_cpus s)(i := c\<lparr>lc_pc := p\<rparr>)\<rparr>"

inductive lock_step :: "lock_sys \<Rightarrow> lock_sys \<Rightarrow> bool" where
  call_acquire: "lc_pc (ls_cpus s i) = Outside \<Longrightarrow> lock_step s (goto s i (ls_cpus s i) AcqPush)"
| acquire_push: "lc_pc (ls_cpus s i) = AcqPush \<Longrightarrow>
    lock_step s (goto s i (lc_push (ls_cpus s i)) AcqSpin)"
| acquire_spin: "lc_pc (ls_cpus s i) = AcqSpin \<Longrightarrow> test_and_set (ls_word s) = (old, w) \<Longrightarrow> old \<noteq> 0 \<Longrightarrow>
    lock_step s (goto (s\<lparr>ls_word := w\<rparr>) i (ls_cpus s i) AcqSpin)"
| acquire_take: "lc_pc (ls_cpus s i) = AcqSpin \<Longrightarrow> test_and_set (ls_word s) = (0, w) \<Longrightarrow>
    lock_step s (goto (s\<lparr>ls_word := w\<rparr>) i (ls_cpus s i) AcqPop)"
| acquire_pop: "lc_pc (ls_cpus s i) = AcqPop \<Longrightarrow>
    lock_step s (goto s i (lc_pop (ls_cpus s i)) Holding)"
| call_release: "lc_pc (ls_cpus s i) = Holding \<Longrightarrow> lock_step s (goto s i (ls_cpus s i) RelPush)"
| release_push: "lc_pc (ls_cpus s i) = RelPush \<Longrightarrow>
    lock_step s (goto s i (lc_push (ls_cpus s i)) RelStore)"
| release_store: "lc_pc (ls_cpus s i) = RelStore \<Longrightarrow>
    lock_step s (goto (s\<lparr>ls_word := movl_zero (ls_word s)\<rparr>) i (ls_cpus s i) RelPop)"
| release_pop: "lc_pc (ls_cpus s i) = RelPop \<Longrightarrow>
    lock_step s (goto s i (lc_pop (ls_cpus s i)) Outside)"

inductive_cases lock_stepE: "lock_step s t"

inductive lock_reachable :: "lock_sys \<Rightarrow> lock_sys \<Rightarrow> bool" for s0 where
  start: "lock_reachable s0 s0"
| step: "lock_reachable s0 s \<Longrightarrow> lock_step s t \<Longrightarrow> lock_reachable s0 t"

definition lock_initial :: "lock_sys \<Rightarrow> bool" where
  "lock_initial s \<longleftrightarrow> lock_held (ls_word s) = 0
     \<and> (\<forall>i. lc_pc (ls_cpus s i) = Outside \<and> cliCount (lc_cpu (ls_cpus s i)) = 0)"

text \<open>The program points at which a processor owns the lock.\<close>

definition owns :: "lock_pc \<Rightarrow> bool" where
  "owns p \<longleftrightarrow> p \<in> {AcqPop, Holding, RelPush, RelStore}"

lemma owns_simps [simp]:
  "\<not> owns Outside" "\<not> owns AcqPush" "\<not> owns AcqSpin" "\<not> owns RelPop"
  "owns AcqPop" "owns Holding" "owns RelPush" "owns RelStore"
  by (simp_all add: owns_def)

definition lock_inv :: "lock_sys \<Rightarrow> bool" where
  "lock_inv s \<longleftrightarrow>
     (\<forall>i j. owns (lc_pc (ls_cpus s i)) \<longrightarrow> owns (lc_pc (ls_cpus s j)) \<longrightarrow> i = j)
     \<and> (lock_held (ls_word s) = 0 \<longleftrightarrow> (\<forall>i. \<not> owns (lc_pc (ls_cpus s i))))"

lemma pc_goto [simp]:
  "lc_pc (ls_cpus (goto s i c p) j) = (if j = i then p else lc_pc (ls_cpus s j))"
  "ls_word (goto s i c p) = ls_word s"
  by (simp_all add: goto_def)

lemma lock_inv_step: "lock_step s t \<Longrightarrow> lock_inv s \<Longrightarrow> lock_inv t"
proof (induction rule: lock_step.induct)
  case (acquire_take s i w)
  then have "lock_held w = 1" and "\<forall>j. \<not> owns (lc_pc (ls_cpus s j))"
    by (auto simp: test_and_set_def lock_inv_def)
  then show ?case by (auto simp: lock_inv_def)
next
  case (acquire_spin s i old w)
  then have "lock_held w = 1" by (auto simp: test_and_set_def)
  then have "\<exists>k. owns (lc_pc (ls_cpus s k))" and "k \<noteq> i" if "owns (lc_pc (ls_cpus s k))" for k
    using acquire_spin that by (auto simp: lock_inv_def test_and_set_def)
  then show ?case using acquire_spin \<open>lock_held w = 1\<close>
    unfolding lock_inv_def test_and_set_def by simp (metis owns_simps(3))
next
  case (release_store s i)
  then show ?case unfolding lock_inv_def movl_zero_def by simp (metis owns_simps(8))
qed (unfold lock_inv_def, (simp, metis owns_simps)+)

lemma lock_inv_reachable: "lock_reachable s0 s \<Longrightarrow> lock_initial s0 \<Longrightarrow> lock_inv s"
proof (induction rule: lock_reachable.induct)
  case start
  then show ?case by (simp add: lock_initial_def lock_inv_def)
next
  case (step s t)
  then show ?case by (blast intro: lock_inv_step)
qed

text \<open>
  C16. Mutual exclusion: whatever the interleaving of however many processors, once the lock started
  out free no two of them are in their critical sections at once, and while one is, the lock word
  reads held.
\<close>

theorem spinlock_mutual_exclusion:
  assumes "lock_initial s0" and "lock_reachable s0 s"
    and "lc_pc (ls_cpus s i) = Holding" and "lc_pc (ls_cpus s j) = Holding"
  shows "i = j \<and> lock_held (ls_word s) \<noteq> 0"
  using lock_inv_reachable[OF assms(2,1)] assms(3,4) owns_simps(6)
  unfolding lock_inv_def by metis

definition sample_lock_sys :: "lock_pc \<Rightarrow> lock_word \<Rightarrow> CPUState \<Rightarrow> u64 \<Rightarrow> lock_sys" where
  "sample_lock_sys p w c f = \<lparr>ls_word = w,
     ls_cpus = (\<lambda>_. \<lparr>lc_pc = Outside, lc_cpu = zero_CPUState, lc_flags = 0x202\<rparr>)
       (0 := \<lparr>lc_pc = p, lc_cpu = c, lc_flags = f\<rparr>)\<rparr>"

lemma sample_initial: "lock_initial (sample_lock_sys Outside 0 zero_CPUState 0x202)"
  by (simp add: lock_initial_def sample_lock_sys_def zero_CPUState_def)

lemma sample_holding:
  "lock_reachable (sample_lock_sys Outside 0 zero_CPUState 0x202)
     (sample_lock_sys Holding 1 (zero_CPUState\<lparr>wereInterruptsEnabled := True\<rparr>) 0x202)"
proof -
  let ?c1 = "zero_CPUState\<lparr>wereInterruptsEnabled := True, cliCount := 1\<rparr>"
  let ?s0 = "sample_lock_sys Outside 0 zero_CPUState 0x202"
  let ?s1 = "sample_lock_sys AcqPush 0 zero_CPUState 0x202"
  let ?s2 = "sample_lock_sys AcqSpin 0 ?c1 2"
  let ?s3 = "sample_lock_sys AcqPop 1 ?c1 2"
  let ?s4 = "sample_lock_sys Holding 1 (zero_CPUState\<lparr>wereInterruptsEnabled := True\<rparr>) 0x202"
  note defs = sample_lock_sys_def goto_def fun_eq_iff zero_CPUState_def
  have "lock_step ?s0 ?s1"
    using lock_step.call_acquire[of ?s0 0] by (simp add: defs)
  moreover have "lock_step ?s1 ?s2"
    using lock_step.acquire_push[of ?s1 0]
    by (simp add: defs lc_push_def push_cli_cpu_def interrupts_on_def InterruptFlag_def)
  moreover have "lock_step ?s2 ?s3"
    using lock_step.acquire_take[of ?s2 0 1]
    by (simp add: defs test_and_set_def lock_held_def lock_set_held_def)
  moreover have "lock_step ?s3 ?s4"
    using lock_step.acquire_pop[of ?s3 0]
    by (simp add: defs lc_pop_def pop_cli_cpu_def pop_enables_def InterruptFlag_def)
  ultimately show ?thesis by (meson lock_reachable.intros)
qed

theorem spinlock_mutual_exclusion_witness:
  "lock_initial (sample_lock_sys Outside 0 zero_CPUState 0x202)
   \<and> lock_held (ls_word (sample_lock_sys Holding 1
        (zero_CPUState\<lparr>wereInterruptsEnabled := True\<rparr>) 0x202)) \<noteq> 0"
  using sample_initial spinlock_mutual_exclusion[OF sample_initial sample_holding, of 0 0]
  by (simp add: sample_lock_sys_def)

text \<open>
  How each processor's nesting level and flags move with its program point, relative to the flags
  \<open>f0\<close> it started with.
\<close>

definition cli_inv :: "u64 \<Rightarrow> lock_cpu \<Rightarrow> bool" where
  "cli_inv f0 c \<longleftrightarrow>
     (if lc_pc c \<in> {AcqSpin, AcqPop, RelStore, RelPop}
      then cliCount (lc_cpu c) = 1 \<and> wereInterruptsEnabled (lc_cpu c) = interrupts_on f0
           \<and> lc_flags c = f0 AND NOT InterruptFlag
      else cliCount (lc_cpu c) = 0 \<and> lc_flags c = f0)"

lemma cli_inv_push:
  "cli_inv f0 c \<Longrightarrow> lc_pc c \<in> {AcqPush, RelPush} \<Longrightarrow> p \<in> {AcqSpin, RelStore} \<Longrightarrow>
     cli_inv f0 ((lc_push c)\<lparr>lc_pc := p\<rparr>)"
  by (auto simp: cli_inv_def lc_push_def push_cli_cpu_def)

lemma cli_inv_pop:
  "cli_inv f0 c \<Longrightarrow> lc_pc c \<in> {AcqPop, RelPop} \<Longrightarrow> p \<in> {Holding, Outside} \<Longrightarrow>
     cli_inv f0 ((lc_pop c)\<lparr>lc_pc := p\<rparr>)"
  by (auto simp: cli_inv_def lc_pop_def pop_cli_cpu_def pop_enables_def
      or_and_not_InterruptFlag and_not_InterruptFlag)

lemma cli_inv_move:
  "cli_inv f0 c \<Longrightarrow> (lc_pc c, p) \<in> {(Outside, AcqPush), (AcqSpin, AcqSpin), (AcqSpin, AcqPop),
     (Holding, RelPush), (RelStore, RelPop)} \<Longrightarrow> cli_inv f0 (c\<lparr>lc_pc := p\<rparr>)"
  by (auto simp: cli_inv_def)

lemma cli_inv_goto:
  "cli_inv f0 (ls_cpus s j) \<Longrightarrow> (i = j \<Longrightarrow> cli_inv f0 (c\<lparr>lc_pc := p\<rparr>)) \<Longrightarrow>
     cli_inv f0 (ls_cpus (goto s i c p) j)"
  by (simp add: goto_def)

lemma cli_inv_step:
  "lock_step s t \<Longrightarrow> cli_inv f0 (ls_cpus s j) \<Longrightarrow> cli_inv f0 (ls_cpus t j)"
proof (induction rule: lock_step.induct)
  case (acquire_push s i)
  then show ?case by (intro cli_inv_goto cli_inv_push) simp_all
next
  case (release_push s i)
  then show ?case by (intro cli_inv_goto cli_inv_push) simp_all
next
  case (acquire_pop s i)
  then show ?case by (intro cli_inv_goto cli_inv_pop) simp_all
next
  case (release_pop s i)
  then show ?case by (intro cli_inv_goto cli_inv_pop) simp_all
qed (intro cli_inv_goto cli_inv_move; simp)+

lemma cli_inv_reachable:
  "lock_reachable s0 s \<Longrightarrow> lock_initial s0 \<Longrightarrow> cli_inv (lc_flags (ls_cpus s0 i)) (ls_cpus s i)"
proof (induction rule: lock_reachable.induct)
  case start
  then show ?case by (simp add: lock_initial_def cli_inv_def)
next
  case (step s t)
  then show ?case by (blast intro: cli_inv_step)
qed

text \<open>
  The critical section itself is not protected against interrupts: in every interleaving a
  processor inside its critical section is back at nesting level zero and runs with the flags
  register it had before \<^verbatim>\<open>acquire\<close>. A processor that spins finds the lock free and can take it,
  or some processor owns it.
\<close>

theorem spinlock_critical_section_flags:
  assumes "lock_initial s0" and "lock_reachable s0 s"
  shows "(lc_pc (ls_cpus s i) = Holding \<longrightarrow>
      cliCount (lc_cpu (ls_cpus s i)) = 0 \<and> lc_flags (ls_cpus s i) = lc_flags (ls_cpus s0 i))
    \<and> (lc_pc (ls_cpus s i) = AcqSpin \<longrightarrow>
      (\<exists>t. lock_step s t \<and> lc_pc (ls_cpus t i) = AcqPop) \<or> (\<exists>j. owns (lc_pc (ls_cpus s j))))"
proof (intro conjI impI)
  assume "lc_pc (ls_cpus s i) = AcqSpin"
  then show "(\<exists>t. lock_step s t \<and> lc_pc (ls_cpus t i) = AcqPop) \<or> (\<exists>j. owns (lc_pc (ls_cpus s j)))"
    using lock_inv_reachable[OF assms(2,1)] lock_step.acquire_take[of s i "lock_set_held 1 (ls_word s)"]
    by (auto simp: lock_inv_def test_and_set_def intro: exI)
qed (use cli_inv_reachable[OF assms(2,1), of i] in \<open>auto simp: cli_inv_def\<close>)

theorem spinlock_critical_section_flags_witness:
  "interrupts_on (lc_flags (ls_cpus (sample_lock_sys Holding 1
      (zero_CPUState\<lparr>wereInterruptsEnabled := True\<rparr>) 0x202) 0))"
proof -
  have "lc_flags (ls_cpus (sample_lock_sys Holding 1
      (zero_CPUState\<lparr>wereInterruptsEnabled := True\<rparr>) 0x202) 0) = 0x202"
    using spinlock_critical_section_flags[OF sample_initial sample_holding, of 0]
    by (simp add: sample_lock_sys_def)
  then show ?thesis by (simp add: interrupts_on_def InterruptFlag_def)
qed

end
