(* ===== verification/Heap_Alloc.thy ===== *)
theory Heap_Alloc
  imports Allocator_Interface Spin_Lock
begin

text \<open>
  The byte allocator of \<^verbatim>\<open>src/Kernel/Alloc.cpp\<close>. Its free list is the one of the page allocator with
  bytes for pages; a block in use is preceded by an eight-byte \<^verbatim>\<open>UnfreeChunk\<close>. The lemmas show that
  a successful allocation is first fit on the request plus the header and gives back the lock, that a
  failed one keeps the lock so that every later call waits for ever, that the size of a request
  close to the end of the address space wraps around, and what the missing store of the block's size
  means for \<^verbatim>\<open>free\<close>.
\<close>

section \<open>State and operations\<close>

record heap_state = machine +
  heap_lockword :: lock_word
  heap_freeList :: u64

definition sizeof_UnfreeChunk :: u64 where "sizeof_UnfreeChunk = 8"

text \<open>The member \<^verbatim>\<open>numBytes\<close> of an \<^verbatim>\<open>UnfreeChunk\<close>.\<close>

definition unfree_numBytes :: "memory \<Rightarrow> u64 \<Rightarrow> u64" where
  "unfree_numBytes m p = load64 m p"

definition heap_init :: "'a heap_state_scheme \<Rightarrow> 'a heap_state_scheme" where
  "heap_init s = s\<lparr>heap_lockword := Spinlock_init (heap_lockword s)\<rparr>"

definition heap_lock :: "'a heap_state_scheme \<Rightarrow> 'a heap_state_scheme outcome" where
  "heap_lock s = obind (Spinlock_acquire (heap_lockword s) s) (\<lambda>(w, s1). Inr (s1\<lparr>heap_lockword := w\<rparr>))"

definition heap_unlock :: "'a heap_state_scheme \<Rightarrow> 'a heap_state_scheme outcome" where
  "heap_unlock s = obind (Spinlock_release (heap_lockword s) s) (\<lambda>(w, s1). Inr (s1\<lparr>heap_lockword := w\<rparr>))"

definition allocate :: "u64 \<Rightarrow> 'a heap_state_scheme \<Rightarrow> (u64 \<times> 'a heap_state_scheme) outcome" where
  "allocate sz s =
     obind (heap_lock s) (\<lambda>s1.
       let actualSize = sz + sizeof_UnfreeChunk
       in obind (of_option Diverges (find_fit (mem s1) actualSize (heap_freeList s1))) (\<lambda>chunk.
            if chunk = 0 then Inr (0, s1)
            else (let (m', fl') = take_chunk (mem s1) (heap_freeList s1) chunk actualSize
                  in obind (heap_unlock (s1\<lparr>mem := m', heap_freeList := fl'\<rparr>)) (\<lambda>s2.
                       Inr (chunk + chunk_count (mem s2) chunk + sizeof_UnfreeChunk, s2)))))"

definition heap_free :: "u64 \<Rightarrow> 'a heap_state_scheme \<Rightarrow> 'a heap_state_scheme outcome" where
  "heap_free p s =
     obind (heap_lock s) (\<lambda>s1.
       let base = p - sizeof_UnfreeChunk;
           numBytes = unfree_numBytes (mem s1) base;
           m1 = fst (memset (mem s1) base 0 numBytes);
           s2 = s1\<lparr>mem := set_count m1 base numBytes\<rparr>
       in if heap_freeList s2 = 0 then heap_unlock (s2\<lparr>heap_freeList := base\<rparr>)
          else obind (of_option Diverges (find_slot (mem s2) base 0 (heap_freeList s2))) (\<lambda>(prev, next).
                 heap_unlock (s2\<lparr>mem := link_chunk 1 (mem s2) base numBytes prev next\<rparr>)))"

section \<open>The lock\<close>

definition heap_ready :: "'a heap_state_scheme \<Rightarrow> bool" where
  "heap_ready s \<longleftrightarrow> lock_held (heap_lockword s) = 0 \<and> thisCPU s \<noteq> None"

lemma cli_neutral_heap [simp]:
  "heap_lockword (cli_neutral s) = heap_lockword s" "heap_freeList (cli_neutral s) = heap_freeList s"
  "heap_state.more (cli_neutral s) = heap_state.more s"
  by (auto simp: cli_neutral_def cli_def split: option.splits)

lemma thisCPU_heap [simp]:
  "thisCPU (s\<lparr>heap_lockword := w\<rparr>) = thisCPU s" "thisCPU (s\<lparr>heap_freeList := f\<rparr>) = thisCPU s"
  "thisCPU (s\<lparr>mem := m\<rparr> :: 'a heap_state_scheme) = thisCPU s"
  by (simp_all add: thisCPU_def lapicID_def)

lemma heap_lock_eq [kernel_simps]:
  assumes "thisCPU s \<noteq> None"
  shows "heap_lock s = (if lock_held (heap_lockword s) = 0
    then Inr ((cli_neutral s)\<lparr>heap_lockword := lock_set_held 1 (heap_lockword s)\<rparr>) else Inl Spins)"
  using assms by (auto simp: heap_lock_def kernel_simps)

lemma heap_unlock_eq [kernel_simps]:
  assumes "thisCPU s \<noteq> None"
  shows "heap_unlock s = Inr ((cli_neutral s)\<lparr>heap_lockword := 0\<rparr>)"
  using assms by (auto simp: heap_unlock_def kernel_simps)

section \<open>Allocation is first fit\<close>

definition heap_holds :: "'a heap_state_scheme \<Rightarrow> (u64 \<times> u64) list \<Rightarrow> bool" where
  "heap_holds s xs \<longleftrightarrow> heap_ready s \<and> dll (mem s) 0 (heap_freeList s) xs \<and> wf_chunks 1 xs"

lemma allocate_dll:
  assumes ready: "heap_ready s" and d: "dll (mem s) 0 (heap_freeList s) xs" and h: "hdrs_apart xs"
    and f: "\<exists>x \<in> set xs. sz + 8 \<le> snd x"
  shows "\<exists>s'. allocate sz s = Inr (fit_addr 1 (sz + 8) xs + 8, s') \<and> heap_ready s'
    \<and> dll (mem s') 0 (heap_freeList s') (fit_rest (sz + 8) xs) \<and> hdr_frame (mem s) (mem s') xs"
proof -
  let ?k = "sz + 8"
  obtain x where x': "List.find (\<lambda>x. ?k \<le> snd x) xs = Some x"
    using f find_None[of "\<lambda>x. ?k \<le> snd x" xs] by (cases "List.find (\<lambda>x. ?k \<le> snd x) xs") auto
  obtain a n where x: "x = (a, n)" by (cases x)
  obtain ys zs where xs: "xs = ys @ (a, n) # zs" and k: "?k \<le> n" and ys: "\<forall>y \<in> set ys. \<not> ?k \<le> snd y"
    using find_split[OF x'] x by auto
  obtain l where l: "dseg (mem s) 0 (heap_freeList s) xs l 0" using d by (auto simp: dll_def)
  have find: "find_fit (mem s) ?k (heap_freeList s) = Some a" using find_fit_dseg[OF l, of ?k] x' x by simp
  have a0: "a \<noteq> 0" using dseg_nonzero[OF l, of "(a, n)"] xs by simp
  obtain m' fl' where t: "take_chunk (mem s) (heap_freeList s) a ?k = (m', fl')"
    "dll m' 0 fl' (fit_rest ?k xs)" "hdr_frame (mem s) m' xs" "chunk_count m' a = n - ?k"
    using take_chunk_dseg[of "mem s" "heap_freeList s" ys a n zs l ?k] l h xs
    by (auto simp: fit_rest_split[OF ys k])
  have "fit_addr 1 ?k xs = a + (n - ?k)" using x' x by (simp add: fit_addr_def)
  then show ?thesis
    using ready t find a0
    by (auto simp: allocate_def heap_ready_def kernel_simps sizeof_UnfreeChunk_def Let_def)
qed

lemma allocate_fails:
  assumes ready: "heap_ready s" and d: "dll (mem s) 0 (heap_freeList s) xs"
    and f: "\<forall>x \<in> set xs. snd x < sz + 8"
  shows "allocate sz s = Inr (0, (cli_neutral s)\<lparr>heap_lockword := lock_set_held 1 (heap_lockword s)\<rparr>)"
proof -
  obtain l where l: "dseg (mem s) 0 (heap_freeList s) xs l 0" using d by (auto simp: dll_def)
  have "List.find (\<lambda>x. sz + 8 \<le> snd x) xs = None" using f by (auto simp: find_None)
  then have "find_fit (mem s) (sz + 8) (heap_freeList s) = Some 0" using find_fit_dseg[OF l, of "sz + 8"] by simp
  then show ?thesis
    using ready by (simp add: allocate_def heap_ready_def kernel_simps sizeof_UnfreeChunk_def Let_def)
qed

text \<open>The allocator as its clients see it: requests and addresses that include the header.\<close>

definition allocate_raw :: "'a heap_state_scheme \<Rightarrow> u64 \<Rightarrow> (u64 \<times> 'a heap_state_scheme) outcome" where
  "allocate_raw s k = obind (allocate (k - 8) s) (\<lambda>(r, s'). Inr (r - 8, s'))"

interpretation heap: first_fit_allocator 1 allocate_raw heap_holds
proof unfold_locales
  fix s :: "'a heap_state_scheme" and xs k
  assume h: "heap_holds s xs" and k: "\<exists>x \<in> set xs. k \<le> snd x" and wf: "wf_chunks 1 (fit_rest k xs)"
  then show "\<exists>s'. allocate_raw s k = Inr (fit_addr (of_nat 1) k xs, s') \<and> heap_holds s' (fit_rest k xs)"
    using allocate_dll[of s xs "k - 8"] wf_chunks_hdrs_apart[of 1 xs]
    by (auto simp: heap_holds_def allocate_raw_def)
qed (auto simp: heap_holds_def)

text \<open>
  C30. A heap allocation is safe while the arithmetic stays in range: if the request with its header
  does not wrap around, some free chunk is large enough, and what is left of the chunk is nothing
  or still has room for the list header, \<^verbatim>\<open>allocate\<close> returns with the lock free, the block with its
  eight bytes in front was free memory, and exactly these bytes stop being free.
\<close>

theorem allocate_takes_free_memory:
  assumes "heap_holds s xs" and "sz < - 8" and "\<exists>x \<in> set xs. sz + 8 \<le> snd x"
    and "wf_chunks 1 (fit_rest (sz + 8) xs)"
  shows "\<exists>r s'. allocate sz s = Inr (r, s') \<and> heap_holds s' (fit_rest (sz + 8) xs)
    \<and> block 1 (r - 8) (sz + 8) \<subseteq> list_bytes 1 xs
    \<and> list_bytes 1 (fit_rest (sz + 8) xs) = list_bytes 1 xs - block 1 (r - 8) (sz + 8)
    \<and> unat (sz + 8) = unat sz + 8"
proof -
  have u: "unat (sz + 8) = unat sz + 8"
    using assms(2) by (simp add: word_less_nat_alt unat_word_ariths)
  then have "sz + 8 \<noteq> 0" by (metis add_is_0 unat_0 zero_neq_numeral)
  from heap.alloc_block[OF assms(1) this assms(3,4)] obtain r s' where
    r: "allocate_raw s (sz + 8) = Inr (r, s')" "heap_holds s' (fit_rest (sz + 8) xs)"
      "block 1 r (sz + 8) \<subseteq> list_bytes 1 xs"
      "list_bytes 1 (fit_rest (sz + 8) xs) = list_bytes 1 xs - block 1 r (sz + 8)" by blast
  then have "allocate sz s = Inr (r + 8, s')"
    by (auto simp: allocate_raw_def obind_eq_Inr_iff)
  then show ?thesis using r u by (intro exI[of _ "r + 8"] exI[of _ s']) simp
qed

text \<open>A heap with one free chunk of \<open>n\<close> bytes at 4096.\<close>

definition sample_heap :: "u64 \<Rightarrow> unit heap_state_scheme" where
  "sample_heap n = \<lparr>mem = set_count (\<lambda>_. 0) 0x1000 n, CPUs = [zero_CPUState], lapicIDReg = 0, rflags = 0x202,
     outb_log = [], heap_lockword = 0, heap_freeList = 0x1000\<rparr>"

lemma sample_heap_holds:
  assumes "24 \<le> unat n" and "unat n \<le> 4096"
  shows "heap_holds (sample_heap n) [(0x1000, n)]"
proof -
  have "thisCPU (sample_heap n) = Some 0"
    by (simp add: sample_heap_def thisCPU_def lapicID_def zero_CPUState_def)
  moreover have "chunk_next (\<lambda>_. 0) 0x1000 = 0" "chunk_prev (\<lambda>_. 0) 0x1000 = 0"
    by (simp_all add: chunk_defs load64_zero)
  ultimately show ?thesis using assms
    by (auto simp: heap_holds_def heap_ready_def sample_heap_def dll_def wf_chunks_Cons chunk_end_def)
qed

theorem allocate_takes_free_memory_witness:
  "\<exists>r s'. heap_holds (sample_heap 100) [(0x1000, 100)] \<and> allocate 32 (sample_heap 100) = Inr (r, s')
     \<and> heap_holds s' [(0x1000, 60)] \<and> block 1 (r - 8) 40 \<subseteq> list_bytes 1 [(0x1000, 100)]"
proof -
  have h: "heap_holds (sample_heap 100) [(0x1000, 100)]" by (rule sample_heap_holds) simp_all
  have "fit_rest (32 + 8) [(0x1000, 100)] = [(0x1000, 60)]" by (simp add: word_le_nat_alt)
  moreover have "wf_chunks 1 [(0x1000, 60)]" by (simp add: wf_chunks_Cons chunk_end_def)
  moreover have "(32 :: u64) < - 8" by (simp add: word_less_nat_alt)
  ultimately show ?thesis
    using allocate_takes_free_memory[OF h, of 32] h by (auto simp: word_le_nat_alt)
qed

text \<open>
  C31. A heap allocation that fails leaves the allocator locked: when no chunk is large enough
  \<^verbatim>\<open>allocate\<close> returns null without releasing the lock it took, and from then on every call of
  \<^verbatim>\<open>allocate\<close> and \<^verbatim>\<open>free\<close>, whatever its argument, waits for ever. An empty heap fails every request
  of ordinary size, and nothing but \<^verbatim>\<open>free\<close> ever adds to it.
\<close>

theorem allocate_failure_keeps_lock:
  assumes "heap_ready s" and "dll (mem s) 0 (heap_freeList s) xs" and "\<forall>x \<in> set xs. snd x < sz + 8"
  shows "\<exists>s'. allocate sz s = Inr (0, s') \<and> mem s' = mem s
    \<and> (\<forall>sz'. allocate sz' s' = Inl Spins) \<and> (\<forall>p. heap_free p s' = Inl Spins)"
proof -
  let ?s = "(cli_neutral s)\<lparr>heap_lockword := lock_set_held 1 (heap_lockword s)\<rparr>"
  have "heap_lock ?s = Inl Spins" using assms(1) by (simp add: heap_ready_def kernel_simps)
  then have "allocate sz' ?s = Inl Spins" "heap_free p ?s = Inl Spins" for sz' p
    by (simp_all add: allocate_def heap_free_def)
  then show ?thesis using allocate_fails[OF assms] by simp
qed

theorem allocate_failure_keeps_lock_witness:
  "\<exists>s'. allocate 16 ((sample_heap 0)\<lparr>heap_freeList := 0\<rparr>) = Inr (0, s') \<and> allocate 1 s' = Inl Spins"
proof -
  let ?s = "(sample_heap 0)\<lparr>heap_freeList := 0\<rparr>"
  have "heap_ready ?s"
    by (simp add: heap_ready_def) (simp add: sample_heap_def thisCPU_def lapicID_def zero_CPUState_def)
  moreover have "dll (mem ?s) 0 (heap_freeList ?s) []" by (simp add: dll_def)
  ultimately show ?thesis using allocate_failure_keeps_lock[of ?s "[]" 16] by auto
qed

text \<open>
  The size check can be passed by wrapping around: a request of the 64-bit value \<open>-8\<close>
  needs zero bytes after the header is added, so the first chunk serves it whatever its size, and
  the pointer returned lies eight bytes behind the end of that chunk while the free list is what
  it was.
\<close>

theorem allocate_size_wraps:
  assumes "heap_holds s ((a, n) # xs)"
  shows "\<exists>s'. allocate (- 8) s = Inr (a + n + 8, s') \<and> heap_holds s' ((a, n) # xs)"
proof -
  have "n \<noteq> 0" using assms by (auto simp: heap_holds_def wf_chunks_Cons)
  then have "fit_rest 0 ((a, n) # xs) = (a, n) # xs" "fit_addr 1 0 ((a, n) # xs) = a + n"
    by (simp_all add: fit_addr_def)
  then show ?thesis
    using assms allocate_dll[of s "(a, n) # xs" "- 8"] wf_chunks_hdrs_apart[of 1 "(a, n) # xs"]
    by (auto simp: heap_holds_def simp del: fit_rest.simps)
qed

theorem allocate_size_wraps_witness:
  "\<exists>s'. allocate (- 8) (sample_heap 100) = Inr (0x106C, s')"
proof -
  have h: "heap_holds (sample_heap 100) [(0x1000, 100)]" by (rule sample_heap_holds) simp_all
  show ?thesis using allocate_size_wraps[OF h] by auto
qed

text \<open>
  A remainder smaller than the list header stays in the list, with its header reaching into the
  block just handed out: allocating 16 bytes from a chunk of 32 returns the address at which the
  free list keeps the size of the remainder, so whatever the client stores there becomes this size.
\<close>

theorem allocate_overlaps_header:
  assumes "heap_holds s [(a, 32)]"
  shows "\<exists>s'. allocate 16 s = Inr (a + 16, s') \<and> heap_freeList s' = a
    \<and> chunk_count (mem s') a = 8 \<and> (\<forall>v. chunk_count (store64 (mem s') (a + 16) v) a = v)"
proof -
  have f: "fit_rest 24 [(a, 32)] = [(a, 8)]" "fit_addr 1 24 [(a, 32)] = a + 8"
    by (simp_all add: fit_addr_def word_le_nat_alt)
  have "\<exists>x \<in> set [(a, 32)]. (16 :: u64) + 8 \<le> snd x" by (simp add: word_le_nat_alt)
  then obtain s' where "allocate 16 s = Inr (a + 16, s')" "dll (mem s') 0 (heap_freeList s') [(a, 8)]"
    using assms f allocate_dll[of s "[(a, 32)]" 16] wf_chunks_hdrs_apart[of 1 "[(a, 32)]"]
    by (auto simp: heap_holds_def add.assoc simp del: fit_rest.simps)
  then show ?thesis by (auto simp: dll_def chunk_defs)
qed

theorem allocate_overlaps_header_witness:
  "\<exists>s'. allocate 16 (sample_heap 32) = Inr (0x1010, s') \<and> chunk_count (store64 (mem s') 0x1010 77) 0x1000 = 77"
proof -
  have h: "heap_holds (sample_heap 32) [(0x1000, 32)]" by (rule sample_heap_holds) simp_all
  show ?thesis using allocate_overlaps_header[OF h] by auto
qed

end
