(* ===== verification/Printf_Output.thy ===== *)
theory Printf_Output
  imports Cpu_State
begin

text \<open>
  The output side of \<^verbatim>\<open>src/Kernel/printf.c\<close>: the output functions, the small string helpers,
  \<^verbatim>\<open>_out_rev\<close> and the integer conversion \<^verbatim>\<open>_ntoa_long\<close>. A leading underscore of a C name is
  dropped. An output function takes the character, the buffer pointer, the index and the maximal
  length as in C, and transforms the state that it writes to. The lemmas show that every routine
  only feeds a list of characters to its output function, and what that list is: the padded
  numeral, from which the number can be read back.
\<close>

section \<open>Flags\<close>

definition FLAGS_ZEROPAD :: u32 where "FLAGS_ZEROPAD = push_bit 0 1"
definition FLAGS_LEFT :: u32 where "FLAGS_LEFT = push_bit 1 1"
definition FLAGS_PLUS :: u32 where "FLAGS_PLUS = push_bit 2 1"
definition FLAGS_SPACE :: u32 where "FLAGS_SPACE = push_bit 3 1"
definition FLAGS_HASH :: u32 where "FLAGS_HASH = push_bit 4 1"
definition FLAGS_UPPERCASE :: u32 where "FLAGS_UPPERCASE = push_bit 5 1"
definition FLAGS_CHAR :: u32 where "FLAGS_CHAR = push_bit 6 1"
definition FLAGS_SHORT :: u32 where "FLAGS_SHORT = push_bit 7 1"
definition FLAGS_LONG :: u32 where "FLAGS_LONG = push_bit 8 1"
definition FLAGS_LONG_LONG :: u32 where "FLAGS_LONG_LONG = push_bit 9 1"
definition FLAGS_PRECISION :: u32 where "FLAGS_PRECISION = push_bit 10 1"
definition FLAGS_ADAPT_EXP :: u32 where "FLAGS_ADAPT_EXP = push_bit 11 1"

lemmas FLAGS_defs = FLAGS_ZEROPAD_def FLAGS_LEFT_def FLAGS_PLUS_def FLAGS_SPACE_def FLAGS_HASH_def
  FLAGS_UPPERCASE_def FLAGS_CHAR_def FLAGS_SHORT_def FLAGS_LONG_def FLAGS_LONG_LONG_def
  FLAGS_PRECISION_def FLAGS_ADAPT_EXP_def

text \<open>The test \<^verbatim>\<open>flags & FLAGS_X\<close>.\<close>

definition has :: "u32 \<Rightarrow> u32 \<Rightarrow> bool" where
  "has flags f \<longleftrightarrow> flags AND f \<noteq> 0"

section \<open>Output functions\<close>

type_synonym 's out_fct_type = "char \<Rightarrow> u64 \<Rightarrow> u64 \<Rightarrow> u64 \<Rightarrow> 's \<Rightarrow> 's"

definition out_buffer :: "memory out_fct_type" where
  "out_buffer character buffer idx maxlen m =
     (if idx < maxlen then m(buffer + idx := of_char character) else m)"

definition out_null :: "'s out_fct_type" where
  "out_null character buffer idx maxlen s = s"

definition putchar :: "char \<Rightarrow> 'a machine_scheme \<Rightarrow> 'a machine_scheme" where
  "putchar character s =
     (let s1 = (if character = CHR 0x0A then outb 0x3F8 0x0D s else s)
      in outb 0x3F8 (of_char character) s1)"

definition out_char :: "'a machine_scheme out_fct_type" where
  "out_char character buffer idx maxlen s =
     (if character \<noteq> CHR 0x00 then putchar character s else s)"

text \<open>\<^verbatim>\<open>_out_fct\<close> with the function of the \<^verbatim>\<open>out_fct_wrap_type\<close> that \<^verbatim>\<open>buffer\<close> points at.\<close>

definition out_fct :: "(char \<Rightarrow> 's \<Rightarrow> 's) \<Rightarrow> 's out_fct_type" where
  "out_fct fct character buffer idx maxlen s =
     (if character \<noteq> CHR 0x00 then fct character s else s)"

section \<open>Strings and digits\<close>

text \<open>
  A string is the list of characters from the pointer on; its end stands for the terminating zero.
\<close>

definition deref :: "string \<Rightarrow> char" where
  "deref p = (case p of [] \<Rightarrow> CHR 0x00 | c # _ \<Rightarrow> c)"

fun strnlen_s :: "string \<Rightarrow> nat \<Rightarrow> nat" where
  "strnlen_s str maxsize =
     (if deref str \<noteq> CHR 0x00 \<and> maxsize \<noteq> 0 then Suc (strnlen_s (tl str) (maxsize - 1)) else 0)"

declare strnlen_s.simps [simp del]

definition is_digit :: "char \<Rightarrow> bool" where
  "is_digit ch \<longleftrightarrow> (of_char ch :: nat) \<ge> of_char (CHR ''0'') \<and> (of_char ch :: nat) \<le> of_char (CHR ''9'')"

text \<open>\<^verbatim>\<open>_atoi\<close> returns the number and where it left \<^verbatim>\<open>*str\<close>.\<close>

fun atoi_loop :: "u32 \<Rightarrow> string \<Rightarrow> u32 \<times> string" where
  "atoi_loop i [] = (i, [])"
| "atoi_loop i (c # cs) =
     (if is_digit c then atoi_loop (i * 10 + (of_char c - of_char (CHR ''0''))) cs else (i, c # cs))"

definition atoi :: "string \<Rightarrow> u32 \<times> string" where
  "atoi str = atoi_loop 0 str"

section \<open>Padding and reversal\<close>

text \<open>One call \<^verbatim>\<open>out(c, buffer, idx++, maxlen)\<close>.\<close>

definition put :: "'s out_fct_type \<Rightarrow> u64 \<Rightarrow> u64 \<Rightarrow> char \<Rightarrow> u64 \<times> 's \<Rightarrow> u64 \<times> 's" where
  "put out buffer maxlen c r = (fst r + 1, out c buffer (fst r) maxlen (snd r))"

text \<open>The loops \<^verbatim>\<open>for (i = len; i < width; i++) out(' ', ...)\<close> and \<^verbatim>\<open>while (l++ < width) out(' ', ...)\<close>.\<close>

function pad_loop :: "'s out_fct_type \<Rightarrow> u64 \<Rightarrow> u64 \<Rightarrow> nat \<Rightarrow> nat \<Rightarrow> u64 \<times> 's \<Rightarrow> u64 \<times> 's" where
  "pad_loop out buffer maxlen i width r =
     (if i < width then pad_loop out buffer maxlen (i + 1) width (put out buffer maxlen (CHR '' '') r)
      else r)"
  by auto
termination by (relation "measure (\<lambda>(_, _, _, i, w, _). w - i)") auto

text \<open>The loop \<^verbatim>\<open>while (idx - start_idx < width) out(' ', ...)\<close>.\<close>

lemma idx_loop_decreases:
  assumes "idx - start < (w :: u64)"
  shows "unat w - unat (idx + 1 - start) < unat w - unat (idx - start)"
proof -
  have "unat (idx - start) < unat w" using assms by (simp add: word_less_nat_alt)
  moreover from this have "unat (idx - start) + 1 < 2 ^ 64" using unat_lt64'[of w] by simp
  then have "unat (idx - start + 1) = unat (idx - start) + 1" by (simp add: unat_word_ariths)
  then have "unat (idx + 1 - start) = unat (idx - start) + 1" by (simp add: algebra_simps)
  ultimately show ?thesis by simp
qed

function left_loop :: "'s out_fct_type \<Rightarrow> u64 \<Rightarrow> u64 \<Rightarrow> u64 \<Rightarrow> u32 \<Rightarrow> u64 \<times> 's \<Rightarrow> u64 \<times> 's" where
  "left_loop out buffer maxlen start_idx width r =
     (if fst r - start_idx < ucast width
      then left_loop out buffer maxlen start_idx width (put out buffer maxlen (CHR '' '') r)
      else r)"
  by auto
termination
  by (relation "measure (\<lambda>(_, _, _, start, w, r). unat (ucast w :: u64) - unat (fst r - start))")
    (auto simp: put_def idx_loop_decreases simp del: unat_ucast_32_64)

declare pad_loop.simps [simp del] left_loop.simps [simp del]

text \<open>The loop \<^verbatim>\<open>while (len) out(buf[--len], ...)\<close> on the first \<^verbatim>\<open>len\<close> characters of \<^verbatim>\<open>buf\<close>.\<close>

fun rev_loop :: "'s out_fct_type \<Rightarrow> u64 \<Rightarrow> u64 \<Rightarrow> string \<Rightarrow> nat \<Rightarrow> u64 \<times> 's \<Rightarrow> u64 \<times> 's" where
  "rev_loop out buffer maxlen buf 0 r = r"
| "rev_loop out buffer maxlen buf (Suc len) r =
     rev_loop out buffer maxlen buf len (put out buffer maxlen (buf ! len) r)"

definition out_rev ::
  "'s out_fct_type \<Rightarrow> u64 \<Rightarrow> u64 \<Rightarrow> u64 \<Rightarrow> string \<Rightarrow> nat \<Rightarrow> u32 \<Rightarrow> u32 \<Rightarrow> 's \<Rightarrow> u64 \<times> 's" where
  "out_rev out buffer idx maxlen buf len width flags s =
     (let start_idx = idx;
          r1 = (if \<not> has flags FLAGS_LEFT \<and> \<not> has flags FLAGS_ZEROPAD
                then pad_loop out buffer maxlen len (unat width) (idx, s) else (idx, s));
          r2 = rev_loop out buffer maxlen buf len r1
      in if has flags FLAGS_LEFT then left_loop out buffer maxlen start_idx width r2 else r2)"

section \<open>Integers\<close>

definition PRINTF_NTOA_BUFFER_SIZE :: nat where "PRINTF_NTOA_BUFFER_SIZE = 32"

text \<open>
  The local array \<^verbatim>\<open>buf\<close> with its fill level \<^verbatim>\<open>len\<close> is the list of the \<^verbatim>\<open>len\<close> characters stored so
  far: \<^verbatim>\<open>buf[len++] = c\<close> appends, \<^verbatim>\<open>len--\<close> drops the last. \<open>zero_loop buf n\<close> is the loop
  \<^verbatim>\<open>while ((len < n) && (len < PRINTF_NTOA_BUFFER_SIZE)) buf[len++] = '0'\<close>.
\<close>

function zero_loop :: "string \<Rightarrow> nat \<Rightarrow> string" where
  "zero_loop buf n =
     (if length buf < n \<and> length buf < PRINTF_NTOA_BUFFER_SIZE
      then zero_loop (buf @ [CHR ''0'']) n else buf)"
  by auto
termination by (relation "measure (\<lambda>(buf, n). n - length buf)") auto

declare zero_loop.simps [simp del]

definition ntoa_pad :: "string \<Rightarrow> bool \<Rightarrow> u32 \<Rightarrow> u32 \<Rightarrow> u32 \<Rightarrow> string \<times> u32" where
  "ntoa_pad buf negative prec width flags =
     (if \<not> has flags FLAGS_LEFT then
        let width' = (if width \<noteq> 0 \<and> has flags FLAGS_ZEROPAD
                        \<and> (negative \<or> has flags (FLAGS_PLUS OR FLAGS_SPACE)) then width - 1 else width);
            buf1 = zero_loop buf (unat prec);
            buf2 = (if has flags FLAGS_ZEROPAD then zero_loop buf1 (unat width') else buf1)
        in (buf2, width')
      else (buf, width))"

text \<open>\<^verbatim>\<open>if (len < PRINTF_NTOA_BUFFER_SIZE) buf[len++] = c\<close>\<close>

definition push_guarded :: "string \<Rightarrow> char \<Rightarrow> string" where
  "push_guarded buf c = (if length buf < PRINTF_NTOA_BUFFER_SIZE then buf @ [c] else buf)"

definition ntoa_hash :: "string \<Rightarrow> u32 \<Rightarrow> u32 \<Rightarrow> u32 \<Rightarrow> u32 \<Rightarrow> string" where
  "ntoa_hash buf base prec width flags =
     (if has flags FLAGS_HASH then
        let buf1 = (if \<not> has flags FLAGS_PRECISION \<and> length buf \<noteq> 0
                        \<and> (length buf = unat prec \<or> length buf = unat width)
                    then let b = butlast buf in if length b \<noteq> 0 \<and> base = 16 then butlast b else b
                    else buf);
            buf2 = (if base = 16 \<and> \<not> has flags FLAGS_UPPERCASE \<and> length buf1 < PRINTF_NTOA_BUFFER_SIZE
                    then buf1 @ ''x''
                    else if base = 16 \<and> has flags FLAGS_UPPERCASE \<and> length buf1 < PRINTF_NTOA_BUFFER_SIZE
                    then buf1 @ ''X''
                    else if base = 2 \<and> length buf1 < PRINTF_NTOA_BUFFER_SIZE
                    then buf1 @ ''b''
                    else buf1)
        in push_guarded buf2 (CHR ''0'')
      else buf)"

definition ntoa_sign :: "string \<Rightarrow> bool \<Rightarrow> u32 \<Rightarrow> string" where
  "ntoa_sign buf negative flags =
     (if length buf < PRINTF_NTOA_BUFFER_SIZE then
        if negative then buf @ ''-''
        else if has flags FLAGS_PLUS then buf @ ''+''
        else if has flags FLAGS_SPACE then buf @ '' ''
        else buf
      else buf)"

definition ntoa_format ::
  "'s out_fct_type \<Rightarrow> u64 \<Rightarrow> u64 \<Rightarrow> u64 \<Rightarrow> string \<Rightarrow> bool \<Rightarrow> u32 \<Rightarrow> u32 \<Rightarrow> u32 \<Rightarrow> u32 \<Rightarrow> 's \<Rightarrow> u64 \<times> 's" where
  "ntoa_format out buffer idx maxlen buf negative base prec width flags s =
     (let (buf1, width1) = ntoa_pad buf negative prec width flags;
          buf2 = ntoa_hash buf1 base prec width1 flags;
          buf3 = ntoa_sign buf2 negative flags
      in out_rev out buffer idx maxlen buf3 (length buf3) width1 flags s)"

definition digit_char :: "u32 \<Rightarrow> u8 \<Rightarrow> char" where
  "digit_char flags digit =
     (if sint digit < 10 then char_of (unat (of_char (CHR ''0'') + digit))
      else char_of (unat ((if has flags FLAGS_UPPERCASE then of_char (CHR ''A'') else of_char (CHR ''a'')) + digit - 10)))"

text \<open>The \<^verbatim>\<open>do ... while (value && (len < PRINTF_NTOA_BUFFER_SIZE))\<close> of \<^verbatim>\<open>_ntoa_long\<close>.\<close>

function digit_loop :: "u64 \<Rightarrow> u64 \<Rightarrow> u32 \<Rightarrow> string \<Rightarrow> string" where
  "digit_loop value base flags buf =
     (let buf' = buf @ [digit_char flags (ucast (value mod base))]; value' = value div base
      in if value' \<noteq> 0 \<and> length buf' < PRINTF_NTOA_BUFFER_SIZE then digit_loop value' base flags buf'
         else buf')"
  by auto
termination by (relation "measure (\<lambda>(_, _, _, buf). PRINTF_NTOA_BUFFER_SIZE - length buf)") auto

declare digit_loop.simps [simp del]

definition ntoa_long ::
  "'s out_fct_type \<Rightarrow> u64 \<Rightarrow> u64 \<Rightarrow> u64 \<Rightarrow> u64 \<Rightarrow> bool \<Rightarrow> u64 \<Rightarrow> u32 \<Rightarrow> u32 \<Rightarrow> u32 \<Rightarrow> 's \<Rightarrow> u64 \<times> 's" where
  "ntoa_long out buffer idx maxlen value negative base prec width flags s =
     (let flags1 = (if value = 0 then flags AND NOT FLAGS_HASH else flags);
          buf = (if \<not> has flags1 FLAGS_PRECISION \<or> value \<noteq> 0 then digit_loop value base flags1 [] else [])
      in ntoa_format out buffer idx maxlen buf negative (ucast base) prec width flags1 s)"

text \<open>\<^verbatim>\<open>long long\<close> is as wide as \<^verbatim>\<open>long\<close>, and the two functions have the same body.\<close>

definition ntoa_long_long ::
  "'s out_fct_type \<Rightarrow> u64 \<Rightarrow> u64 \<Rightarrow> u64 \<Rightarrow> u64 \<Rightarrow> bool \<Rightarrow> u64 \<Rightarrow> u32 \<Rightarrow> u32 \<Rightarrow> u32 \<Rightarrow> 's \<Rightarrow> u64 \<times> 's" where
  "ntoa_long_long out buffer idx maxlen value negative base prec width flags s =
     (let flags1 = (if value = 0 then flags AND NOT FLAGS_HASH else flags);
          buf = (if \<not> has flags1 FLAGS_PRECISION \<or> value \<noteq> 0 then digit_loop value base flags1 [] else [])
      in ntoa_format out buffer idx maxlen buf negative (ucast base) prec width flags1 s)"

section \<open>Every routine feeds characters\<close>

text \<open>
  \<open>emits out buffer maxlen cs\<close> calls the output function once per character of \<open>cs\<close>, with
  consecutive indices. The routines above are such runs, for lists that do not depend on the
  output function.
\<close>

definition emits :: "'s out_fct_type \<Rightarrow> u64 \<Rightarrow> u64 \<Rightarrow> string \<Rightarrow> u64 \<times> 's \<Rightarrow> u64 \<times> 's" where
  "emits out buffer maxlen cs r = fold (put out buffer maxlen) cs r"

lemma emits_simps [simp]:
  "emits out buffer maxlen [] r = r"
  "emits out buffer maxlen (c # cs) r = emits out buffer maxlen cs (put out buffer maxlen c r)"
  "emits out buffer maxlen (cs @ ds) r = emits out buffer maxlen ds (emits out buffer maxlen cs r)"
  by (simp_all add: emits_def)

lemma fst_put [simp]: "fst (put out buffer maxlen c r) = fst r + 1"
  by (simp add: put_def)

lemma fst_emits [simp]: "fst (emits out buffer maxlen cs r) = fst r + of_nat (length cs)"
  by (induction cs arbitrary: r) (simp_all add: algebra_simps)

lemma pad_loop_emits:
  "pad_loop out buffer maxlen i width r = emits out buffer maxlen (replicate (width - i) (CHR '' '')) r"
proof (induction "width - i" arbitrary: i r)
  case 0
  then show ?case by (subst pad_loop.simps) simp
next
  case (Suc n)
  then have "width - i = Suc (width - (i + 1))" and "n = width - (i + 1)" and "i < width" by simp_all
  then show ?case using Suc.hyps by (subst pad_loop.simps) simp
qed

lemma left_loop_emits:
  "left_loop out buffer maxlen start width r
   = emits out buffer maxlen (replicate (unat width - unat (fst r - start)) (CHR '' '')) r"
proof (induction "unat width - unat (fst r - start)" arbitrary: r)
  case 0
  then show ?case by (subst left_loop.simps) (simp add: word_less_nat_alt)
next
  case (Suc n)
  let ?r = "put out buffer maxlen (CHR '' '') r"
  have lt: "fst r - start < ucast width" using Suc.hyps(2) by (simp add: word_less_nat_alt)
  have "unat (fst r - start) + 1 < 2 ^ 64"
    using Suc.hyps(2) unsigned_less[of width, where ?'a = nat] by simp
  then have "unat (fst r - start + 1) = unat (fst r - start) + 1" by (simp add: unat_word_ariths)
  moreover have "fst ?r - start = fst r - start + 1" by simp
  ultimately have step: "unat (fst ?r - start) = unat (fst r - start) + 1" by metis
  then have "left_loop out buffer maxlen start width ?r
      = emits out buffer maxlen (replicate (unat width - unat (fst ?r - start)) (CHR '' '')) ?r"
    using Suc.hyps by (intro Suc.hyps(1)) simp
  moreover have "unat width - unat (fst r - start) = Suc (unat width - unat (fst ?r - start))"
    using Suc.hyps(2) step by simp
  ultimately show ?case using lt by (subst left_loop.simps) simp
qed

lemma rev_loop_emits:
  "len \<le> length buf \<Longrightarrow>
   rev_loop out buffer maxlen buf len r = emits out buffer maxlen (rev (take len buf)) r"
  by (induction len arbitrary: r) (simp_all add: take_Suc_conv_app_nth)

text \<open>The characters of \<^verbatim>\<open>_out_rev\<close>.\<close>

definition rev_chars :: "string \<Rightarrow> u32 \<Rightarrow> u32 \<Rightarrow> string" where
  "rev_chars buf width flags =
     (let pad = replicate (unat width - length buf) (CHR '' '')
      in (if \<not> has flags FLAGS_LEFT \<and> \<not> has flags FLAGS_ZEROPAD then pad else [])
         @ rev buf @ (if has flags FLAGS_LEFT then pad else []))"

lemma out_rev_emits:
  assumes "length buf < 2 ^ 64"
  shows "out_rev out buffer idx maxlen buf (length buf) width flags s
    = emits out buffer maxlen (rev_chars buf width flags) (idx, s)"
  using assms
  by (simp add: out_rev_def rev_chars_def Let_def pad_loop_emits left_loop_emits rev_loop_emits
      unat_of_nat64)

lemma length_rev_chars:
  "length (rev_chars buf width flags) =
    (if has flags FLAGS_ZEROPAD \<and> \<not> has flags FLAGS_LEFT then length buf else max (length buf) (unat width))"
  by (auto simp: rev_chars_def Let_def)

section \<open>The conversion buffer\<close>

lemma length_zero_loop:
  "length (zero_loop buf n) = max (length buf) (min n PRINTF_NTOA_BUFFER_SIZE)"
  by (induction buf n rule: zero_loop.induct) (subst zero_loop.simps, auto)

lemma zero_loop_eq:
  "zero_loop buf n = buf @ replicate (min n PRINTF_NTOA_BUFFER_SIZE - length buf) (CHR ''0'')"
proof (induction buf n rule: zero_loop.induct)
  case (1 buf n)
  show ?case
  proof (cases "length buf < n \<and> length buf < PRINTF_NTOA_BUFFER_SIZE")
    case True
    then have "min n PRINTF_NTOA_BUFFER_SIZE - length buf
        = Suc (min n PRINTF_NTOA_BUFFER_SIZE - length (buf @ [CHR ''0'']))" by auto
    then show ?thesis using True 1 by (subst zero_loop.simps) simp
  next
    case False
    then show ?thesis by (subst zero_loop.simps) auto
  qed
qed

text \<open>Numerals, least significant digit first, with at most \<open>k\<close> digits, and their values.\<close>

fun numeral_le :: "nat \<Rightarrow> nat \<Rightarrow> nat \<Rightarrow> nat list" where
  "numeral_le b 0 v = []"
| "numeral_le b (Suc k) v = v mod b # (if v div b = 0 then [] else numeral_le b k (v div b))"

fun numeral_val :: "nat \<Rightarrow> nat list \<Rightarrow> nat" where
  "numeral_val b [] = 0"
| "numeral_val b (d # ds) = d + b * numeral_val b ds"

lemma numeral_val_le: "numeral_val b (numeral_le b k v) = v mod b ^ k"
proof (induction k arbitrary: v)
  case (Suc k)
  have "v mod b ^ Suc k = v mod b + b * (v div b mod b ^ k)"
    by (simp add: mod_mult2_eq algebra_simps)
  moreover have "v div b = 0 \<Longrightarrow> v mod b = v" by (metis mod_div_mult_eq mult_0 add.right_neutral)
  ultimately show ?case using Suc.IH[of "v div b"] by auto
qed simp

lemma numeral_le_digit: "0 < b \<Longrightarrow> d \<in> set (numeral_le b k v) \<Longrightarrow> d < b"
  by (induction k arbitrary: v) (auto split: if_splits)

lemma length_numeral_le: "length (numeral_le b k v) \<le> k"
  by (induction k arbitrary: v) auto

lemma numeral_le_nonempty: "0 < k \<Longrightarrow> numeral_le b k v \<noteq> []"
  by (cases k) auto

text \<open>No leading zero, unless the number is zero or has been cut.\<close>

lemma numeral_le_last: "v < b ^ k \<Longrightarrow> 0 < v \<Longrightarrow> last (numeral_le b k v) \<noteq> 0"
proof (induction k arbitrary: v)
  case (Suc k)
  show ?case
  proof (cases "v div b = 0")
    case True
    then have "v mod b = v" by (metis mod_div_mult_eq mult_0 add.right_neutral)
    then show ?thesis using True Suc.prems by simp
  next
    case False
    have "v < b * b ^ k" using Suc.prems by simp
    then have *: "v div b < b ^ k" by (simp add: less_mult_imp_div_less mult.commute)
    then have "k \<noteq> 0" using False by (intro notI) simp
    then obtain j where "k = Suc j" by (cases k) auto
    then have "numeral_le b k (v div b) \<noteq> []" by simp
    then show ?thesis using False Suc.IH[OF *] by simp
  qed
qed simp

lemma digit_loop_eq:
  assumes "length buf < PRINTF_NTOA_BUFFER_SIZE"
  shows "digit_loop v base flags buf =
    buf @ map (\<lambda>d. digit_char flags (of_nat d))
            (numeral_le (unat base) (PRINTF_NTOA_BUFFER_SIZE - length buf) (unat v))"
  using assms
proof (induction "PRINTF_NTOA_BUFFER_SIZE - length buf" arbitrary: buf v)
  case (Suc k)
  let ?c = "digit_char flags (of_nat (unat v mod unat base))"
  have m: "ucast (v mod base) = (of_nat (unat v mod unat base) :: u8)"
    by (simp flip: unat_mod_distrib)
  have z: "v div base = 0 \<longleftrightarrow> unat v div unat base = 0"
    by (metis unat_div_distrib unat_eq_0)
  have k: "PRINTF_NTOA_BUFFER_SIZE - length buf = Suc (PRINTF_NTOA_BUFFER_SIZE - length (buf @ [?c]))"
    using Suc.hyps(2) by simp
  show ?case
  proof (cases "unat v div unat base \<noteq> 0 \<and> length (buf @ [?c]) < PRINTF_NTOA_BUFFER_SIZE")
    case True
    then have "digit_loop (v div base) base flags (buf @ [?c]) = (buf @ [?c])
      @ map (\<lambda>d. digit_char flags (of_nat d))
          (numeral_le (unat base) (PRINTF_NTOA_BUFFER_SIZE - length (buf @ [?c])) (unat (v div base)))"
      using Suc.hyps by (intro Suc.hyps(1)) simp_all
    then show ?thesis using True
      by (subst digit_loop.simps, subst k) (simp add: m z unat_div_distrib)
  next
    case False
    then have "numeral_le (unat base) (PRINTF_NTOA_BUFFER_SIZE - length (buf @ [?c])) (unat v div unat base) = []
        \<or> unat v div unat base = 0"
      by auto
    then show ?thesis using False
      by (subst digit_loop.simps, subst k) (auto simp: m z)
  qed
qed simp

section \<open>What the integer conversion prints\<close>

definition ntoa_digits :: "u64 \<Rightarrow> u64 \<Rightarrow> u32 \<Rightarrow> string" where
  "ntoa_digits v base flags =
     (if \<not> has flags FLAGS_PRECISION \<or> v \<noteq> 0
      then map (\<lambda>d. digit_char flags (of_nat d)) (numeral_le (unat base) 32 (unat v)) else [])"

definition ntoa_chars :: "u64 \<Rightarrow> bool \<Rightarrow> u64 \<Rightarrow> u32 \<Rightarrow> u32 \<Rightarrow> u32 \<Rightarrow> string" where
  "ntoa_chars v negative base prec width flags =
     (let flags1 = (if v = 0 then flags AND NOT FLAGS_HASH else flags);
          (buf1, width1) = ntoa_pad (ntoa_digits v base flags1) negative prec width flags1;
          buf2 = ntoa_hash buf1 (ucast base) prec width1 flags1
      in rev_chars (ntoa_sign buf2 negative flags1) width1 flags1)"

lemma length_ntoa_stages:
  assumes "length buf \<le> 32"
  shows "length (fst (ntoa_pad buf negative prec width flags)) \<le> 32"
    and "length (ntoa_hash buf base prec width flags) \<le> 32"
    and "length (ntoa_sign buf negative flags) \<le> 32"
  using assms
  by (auto simp: ntoa_pad_def ntoa_hash_def ntoa_sign_def push_guarded_def Let_def length_zero_loop
      PRINTF_NTOA_BUFFER_SIZE_def)

lemma length_ntoa_digits: "length (ntoa_digits v base flags) \<le> 32"
  by (simp add: ntoa_digits_def length_numeral_le)

lemma ntoa_format_emits:
  assumes "length buf \<le> 32"
  shows "ntoa_format out buffer idx maxlen buf negative base prec width flags s
    = emits out buffer maxlen
        (let (buf1, width1) = ntoa_pad buf negative prec width flags
         in rev_chars (ntoa_sign (ntoa_hash buf1 base prec width1 flags) negative flags) width1 flags) (idx, s)"
proof -
  obtain buf1 width1 where p: "ntoa_pad buf negative prec width flags = (buf1, width1)" by force
  then have "length (ntoa_sign (ntoa_hash buf1 base prec width1 flags) negative flags) \<le> 32"
    using length_ntoa_stages(1)[OF assms, of negative prec width flags] by (intro length_ntoa_stages) simp
  then show ?thesis using p by (simp add: ntoa_format_def out_rev_emits Let_def)
qed

lemma ntoa_long_emits:
  "ntoa_long out buffer idx maxlen v negative base prec width flags s
     = emits out buffer maxlen (ntoa_chars v negative base prec width flags) (idx, s)"
  "ntoa_long_long out buffer idx maxlen v negative base prec width flags s
     = emits out buffer maxlen (ntoa_chars v negative base prec width flags) (idx, s)"
proof -
  let ?f = "if v = 0 then flags AND NOT FLAGS_HASH else flags"
  have "(if \<not> has ?f FLAGS_PRECISION \<or> v \<noteq> 0 then digit_loop v base ?f [] else []) = ntoa_digits v base ?f"
    by (simp add: ntoa_digits_def digit_loop_eq PRINTF_NTOA_BUFFER_SIZE_def)
  then show "ntoa_long out buffer idx maxlen v negative base prec width flags s
      = emits out buffer maxlen (ntoa_chars v negative base prec width flags) (idx, s)"
    "ntoa_long_long out buffer idx maxlen v negative base prec width flags s
      = emits out buffer maxlen (ntoa_chars v negative base prec width flags) (idx, s)"
    unfolding ntoa_long_def ntoa_long_long_def ntoa_chars_def
    by (simp_all only: Let_def ntoa_format_emits[OF length_ntoa_digits])
qed

definition char_digit :: "char \<Rightarrow> nat" where
  "char_digit c = (let n = of_char c in if n < 58 then n - 48 else if n < 97 then n - 55 else n - 87)"

lemma char_digit_digit_char: "d < 16 \<Longrightarrow> char_digit (digit_char flags (of_nat d)) = d"
proof -
  assume "d < 16"
  then have "d \<in> {0, 1, 2, 3, 4, 5, 6, 7, 8, 9, 10, 11, 12, 13, 14, 15}" by (simp, presburger)
  then show ?thesis by (elim insertE) (simp_all add: char_digit_def digit_char_def)
qed

definition sign_chars :: "bool \<Rightarrow> u32 \<Rightarrow> string" where
  "sign_chars negative flags =
     (if negative then ''-'' else if has flags FLAGS_PLUS then ''+''
      else if has flags FLAGS_SPACE then '' '' else [])"

text \<open>A number of at most 31 digits with its sign in a field: the padding goes to the left, behind the
  sign as zeros, or to the right.\<close>

definition number_field :: "string \<Rightarrow> string \<Rightarrow> nat \<Rightarrow> u32 \<Rightarrow> string" where
  "number_field sign digits width flags =
     (let n = width - (length sign + length digits)
      in if has flags FLAGS_LEFT then sign @ digits @ replicate n (CHR '' '')
         else if has flags FLAGS_ZEROPAD then sign @ replicate n (CHR ''0'') @ digits
         else replicate n (CHR '' '') @ sign @ digits)"

lemma length_number_field:
  "length (number_field sign digits width flags) = max width (length sign + length digits)"
  by (auto simp: number_field_def Let_def)

lemma has_PLUS_SPACE: "has flags (FLAGS_PLUS OR FLAGS_SPACE) \<longleftrightarrow> has flags FLAGS_PLUS \<or> has flags FLAGS_SPACE"
  by (auto simp: has_def bit.conj_disj_distrib or_eq_0_iff)

lemma length_sign_chars: "length (sign_chars negative flags) \<le> 1"
  by (simp add: sign_chars_def)

lemma ntoa_sign_chars:
  "length buf + length (sign_chars negative flags) \<le> 32 \<Longrightarrow>
   ntoa_sign buf negative flags = buf @ rev (sign_chars negative flags)"
  by (auto simp: ntoa_sign_def sign_chars_def PRINTF_NTOA_BUFFER_SIZE_def split: if_splits)

lemma ntoa_pad_plain:
  assumes "unat width \<le> 32" and "length buf \<le> 31"
  shows "fst (ntoa_pad buf negative 0 width flags) = (if has flags FLAGS_LEFT \<or> \<not> has flags FLAGS_ZEROPAD then buf
      else buf @ replicate (unat width - (length (sign_chars negative flags) + length buf)) (CHR ''0''))"
    and "has flags FLAGS_LEFT \<or> \<not> has flags FLAGS_ZEROPAD \<Longrightarrow> snd (ntoa_pad buf negative 0 width flags) = width"
proof -
  have "width \<noteq> 0 \<Longrightarrow> unat (width - 1) = unat width - 1" by (metis unat_minus_one)
  moreover have "length (sign_chars negative flags)
      = (if negative \<or> has flags FLAGS_PLUS \<or> has flags FLAGS_SPACE then 1 else 0)"
    by (simp add: sign_chars_def)
  ultimately show "fst (ntoa_pad buf negative 0 width flags) = (if has flags FLAGS_LEFT \<or> \<not> has flags FLAGS_ZEROPAD then buf
      else buf @ replicate (unat width - (length (sign_chars negative flags) + length buf)) (CHR ''0''))"
    using assms
    by (auto simp: ntoa_pad_def Let_def zero_loop_eq has_PLUS_SPACE PRINTF_NTOA_BUFFER_SIZE_def min_def)
qed (auto simp: ntoa_pad_def Let_def)

lemma length_numeral_le_less: "v < b ^ Suc k \<Longrightarrow> length (numeral_le b (Suc (Suc k)) v) \<le> Suc k"
proof (induction k arbitrary: v)
  case (Suc k)
  have "v div b < b ^ Suc k" using Suc.prems by (simp add: less_mult_imp_div_less mult.commute)
  then show ?case using Suc.IH[of "v div b"] by simp
qed simp

lemma numeral_field_plain:
  assumes flags: "\<not> has flags FLAGS_HASH" "\<not> has flags FLAGS_PRECISION" and width: "unat width \<le> 32"
    and len: "length (ntoa_digits v base flags) \<le> 31"
  shows "ntoa_chars v negative base 0 width flags
    = number_field (sign_chars negative flags) (rev (ntoa_digits v base flags)) (unat width) flags"
proof -
  let ?ds = "ntoa_digits v base flags" and ?sg = "sign_chars negative flags"
  have f: "(if v = 0 then flags AND NOT FLAGS_HASH else flags) = flags"
    using flags(1) by (auto simp: has_def bit_eq_iff bit_simps)
  obtain b1 w1 where p: "ntoa_pad ?ds negative 0 width flags = (b1, w1)" by force
  note pad = ntoa_pad_plain[OF width len, where negative = negative and flags = flags, unfolded p fst_conv snd_conv]
  have "length b1 + length ?sg \<le> 32" using pad(1) len width length_sign_chars[of negative flags] by auto
  then have "ntoa_sign b1 negative flags = b1 @ rev ?sg" by (rule ntoa_sign_chars)
  then have "ntoa_chars v negative base 0 width flags = rev_chars (b1 @ rev ?sg) w1 flags"
    using flags(1) by (simp add: ntoa_chars_def f p ntoa_hash_def Let_def)
  then show ?thesis using pad
    by (auto simp: rev_chars_def number_field_def Let_def add.commute)
qed

text \<open>The numeral that the digits of a value spell.\<close>

lemma ntoa_digits_numeral:
  assumes base: "2 \<le> unat base" "unat base \<le> 16" and flags: "\<not> has flags FLAGS_PRECISION"
    and v: "unat v < unat base ^ 31"
  shows "length (ntoa_digits v base flags) \<le> 31"
    and "numeral_val (unat base) (map char_digit (ntoa_digits v base flags)) = unat v"
    and "ntoa_digits v base flags \<noteq> []"
    and "v \<noteq> 0 \<Longrightarrow> char_digit (last (ntoa_digits v base flags)) \<noteq> 0"
proof -
  let ?n = "numeral_le (unat base) 32 (unat v)" and ?ds = "ntoa_digits v base flags"
  have ds: "?ds = map (\<lambda>d. digit_char flags (of_nat d)) ?n" using flags by (simp add: ntoa_digits_def)
  have m: "map char_digit ?ds = ?n"
    using numeral_le_digit[of "unat base" _ 32 "unat v"] base
    by (force simp: ds comp_def intro!: map_idI char_digit_digit_char)
  have v32: "unat v < unat base ^ 32"
    using base by (intro less_le_trans[OF v] power_increasing) auto
  have ne: "?n \<noteq> []" by (rule numeral_le_nonempty) simp
  have last: "char_digit (last ?ds) = last ?n" using m ne by (metis last_map map_is_Nil_conv)
  show "length ?ds \<le> 31" using length_numeral_le_less[of "unat v" "unat base" 30] v ds by simp
  show "numeral_val (unat base) (map char_digit ?ds) = unat v"
    using numeral_val_le[of "unat base" 32 "unat v"] v32 by (simp add: m)
  show "?ds \<noteq> []" using ne ds by simp
  show "char_digit (last ?ds) \<noteq> 0" if "v \<noteq> 0"
    using numeral_le_last[OF v32] that by (simp add: last unat_gt_0)
qed

text \<open>
  \<^verbatim>\<open>_ntoa_long\<close> and \<^verbatim>\<open>_ntoa_long_long\<close> print the number they are given: for a base from 2 to
  16, no precision, no \<^verbatim>\<open>#\<close> flag, a field of at most 32 characters and a value of at most 31
  digits, the characters sent to the output function are the field of the requested width with the
  sign and a numeral without leading zeros, and the numeral reads back as the value.
\<close>

theorem ntoa_long_prints_number:
  assumes base: "2 \<le> unat base" "unat base \<le> 16" and flags: "\<not> has flags FLAGS_HASH" "\<not> has flags FLAGS_PRECISION"
    and width: "unat width \<le> 32" and v: "unat v < unat base ^ 31"
  shows "\<exists>digits.
      ntoa_long out buffer idx maxlen v negative base 0 width flags s
        = emits out buffer maxlen (number_field (sign_chars negative flags) digits (unat width) flags) (idx, s)
    \<and> ntoa_long_long out buffer idx maxlen v negative base 0 width flags s
        = emits out buffer maxlen (number_field (sign_chars negative flags) digits (unat width) flags) (idx, s)
    \<and> numeral_val (unat base) (map char_digit (rev digits)) = unat v
    \<and> digits \<noteq> [] \<and> (v \<noteq> 0 \<longrightarrow> char_digit (hd digits) \<noteq> 0)"
  using ntoa_digits_numeral[OF base flags(2) v]
    numeral_field_plain[OF flags width ntoa_digits_numeral(1)[OF base flags(2) v], of negative]
  by (intro exI[of _ "rev (ntoa_digits v base flags)"]) (auto simp: ntoa_long_emits hd_rev)

theorem ntoa_long_prints_number_witness:
  "\<exists>digits. ntoa_long out_null 1 0 9 255 True 16 0 8 FLAGS_ZEROPAD ()
       = emits out_null 1 9 (number_field ''-'' digits 8 FLAGS_ZEROPAD) (0, ())
     \<and> numeral_val 16 (map char_digit (rev digits)) = 255"
  using ntoa_long_prints_number[of 16 FLAGS_ZEROPAD 8 255 out_null 1 0 9 True "()"]
  by (auto simp: has_def FLAGS_defs sign_chars_def)

text \<open>
  C35. The 32 bytes of the conversion buffer are never overrun: the digits, the padding zeros, the
  base prefix and the sign together stay within it, whatever the value, base, precision and width.
  The price is that digits beyond the 32nd are dropped: what is printed in base 2 is the value
  modulo 2 to the 32.
\<close>

theorem ntoa_buffer_bounds:
  fixes v base :: u64
  shows "length (digit_loop v base flags []) \<le> 32
   \<and> (length buf \<le> 32 \<longrightarrow> length (fst (ntoa_pad buf negative prec width flags)) \<le> 32
        \<and> length (ntoa_hash buf b prec width flags) \<le> 32 \<and> length (ntoa_sign buf negative flags) \<le> 32)
   \<and> numeral_val 2 (map char_digit (digit_loop v 2 flags [])) = unat v mod 2 ^ 32"
proof -
  have "map char_digit (digit_loop v 2 flags []) = numeral_le 2 32 (unat v)"
    using numeral_le_digit[of 2 _ 32 "unat v"]
    by (force simp: digit_loop_eq PRINTF_NTOA_BUFFER_SIZE_def comp_def intro!: map_idI char_digit_digit_char)
  then show ?thesis
    using length_ntoa_stages[of buf]
    by (simp add: digit_loop_eq PRINTF_NTOA_BUFFER_SIZE_def length_numeral_le numeral_val_le)
qed

theorem ntoa_buffer_bounds_witness:
  "length (''7'' :: string) \<le> 32 \<and> length (ntoa_sign ''7'' True 0) \<le> 32
   \<and> length (fst (ntoa_pad ''7'' True 0 90 FLAGS_ZEROPAD)) \<le> 32"
  using ntoa_buffer_bounds[of 7 10 0 "''7''" True 0 90 10]
    ntoa_buffer_bounds[of 7 10 FLAGS_ZEROPAD "''7''" True 0 90 10] by simp

end
