(* ===== verification/Binary64.thy ===== *)
theory Binary64
  imports Complex_Main Kernel_Prelude
begin

text \<open>
  The \<^verbatim>\<open>double\<close> of C as \<^verbatim>\<open>printf.c\<close> uses it: IEEE 754 binary64 with rounding to nearest, ties to
  even. A finite number is its rational value, so the two zeros are one; the code never
  divides by a zero and tests signs with \<^verbatim>\<open><\<close> only, where they agree. The operations round
  the exact result. The bit patterns are the ones that the union \<^verbatim>\<open>conv\<close> of \<^verbatim>\<open>_etoa\<close> reads and
  writes.
\<close>

datatype double = NaN | Infty bool | Fin rat

section \<open>Rounding\<close>

definition pow2 :: "int \<Rightarrow> rat" where
  "pow2 e = (if 0 \<le> e then 2 ^ nat e else 1 / 2 ^ nat (- e))"

function nlog2 :: "int \<Rightarrow> int" where
  "nlog2 n = (if n < 2 then 0 else 1 + nlog2 (n div 2))"
  by auto
termination by (relation "measure nat") auto

declare nlog2.simps [simp del]

text \<open>The exponent \<open>e\<close> with \<open>2\<^sup>e \<le> q < 2\<^sup>e\<^sup>+\<^sup>1\<close> of a positive \<open>q\<close>.\<close>

definition qlog2 :: "rat \<Rightarrow> int" where
  "qlog2 q = (if 1 \<le> q then nlog2 \<lfloor>q\<rfloor> else - 1 - nlog2 (\<lceil>1 / q\<rceil> - 1))"

definition round_even :: "rat \<Rightarrow> int" where
  "round_even q = (let f = \<lfloor>q\<rfloor>; r = q - of_int f
     in if r < 1 / 2 then f else if 1 / 2 < r then f + 1 else if even f then f else f + 1)"

definition rnd :: "rat \<Rightarrow> double" where
  "rnd q = (if q = 0 then Fin 0 else
     let a = \<bar>q\<bar>; u = max (qlog2 a - 52) (- 1074); r = of_int (round_even (a / pow2 u)) * pow2 u
     in if pow2 1024 \<le> r then Infty (q < 0) else Fin (if q < 0 then - r else r))"

section \<open>Operations\<close>

fun dneg :: "double \<Rightarrow> double" where
  "dneg NaN = NaN" | "dneg (Infty n) = Infty (\<not> n)" | "dneg (Fin q) = Fin (- q)"

fun dadd :: "double \<Rightarrow> double \<Rightarrow> double" where
  "dadd (Fin p) (Fin q) = rnd (p + q)"
| "dadd (Infty m) (Infty n) = (if m = n then Infty m else NaN)"
| "dadd (Infty m) (Fin q) = Infty m"
| "dadd (Fin p) (Infty n) = Infty n"
| "dadd NaN y = NaN"
| "dadd x NaN = NaN"

definition dsub :: "double \<Rightarrow> double \<Rightarrow> double" where
  "dsub x y = dadd x (dneg y)"

fun dmul :: "double \<Rightarrow> double \<Rightarrow> double" where
  "dmul (Fin p) (Fin q) = rnd (p * q)"
| "dmul (Infty m) (Infty n) = Infty (m \<noteq> n)"
| "dmul (Infty m) (Fin q) = (if q = 0 then NaN else Infty (m \<noteq> (q < 0)))"
| "dmul (Fin p) (Infty n) = (if p = 0 then NaN else Infty (n \<noteq> (p < 0)))"
| "dmul NaN y = NaN"
| "dmul x NaN = NaN"

fun ddiv :: "double \<Rightarrow> double \<Rightarrow> double" where
  "ddiv (Fin p) (Fin q) = (if q = 0 then (if p = 0 then NaN else Infty (p < 0)) else rnd (p / q))"
| "ddiv (Infty m) (Infty n) = NaN"
| "ddiv (Infty m) (Fin q) = Infty (m \<noteq> (q < 0))"
| "ddiv (Fin p) (Infty n) = Fin 0"
| "ddiv NaN y = NaN"
| "ddiv x NaN = NaN"

text \<open>The comparison \<^verbatim>\<open>x < y\<close>; \<^verbatim>\<open>x >= y\<close> is false on a NaN, too.\<close>

fun dless :: "double \<Rightarrow> double \<Rightarrow> bool" where
  "dless (Fin p) (Fin q) \<longleftrightarrow> p < q"
| "dless (Infty m) (Infty n) \<longleftrightarrow> m \<and> \<not> n"
| "dless (Infty m) (Fin q) \<longleftrightarrow> m"
| "dless (Fin p) (Infty n) \<longleftrightarrow> \<not> n"
| "dless NaN y \<longleftrightarrow> False"
| "dless x NaN \<longleftrightarrow> False"

definition dge :: "double \<Rightarrow> double \<Rightarrow> bool" where
  "dge x y \<longleftrightarrow> x \<noteq> NaN \<and> y \<noteq> NaN \<and> \<not> dless x y"

definition DBL_MAX :: double where
  "DBL_MAX = Fin ((2 ^ 53 - 1) * 2 ^ 971)"

section \<open>Conversions\<close>

definition truncate :: "rat \<Rightarrow> int" where
  "truncate q = (if q < 0 then \<lceil>q\<rceil> else \<lfloor>q\<rfloor>)"

text \<open>
  \<^verbatim>\<open>(int)\<close> and \<^verbatim>\<open>(unsigned long)\<close> of a double. Out of range they are undefined in C; the value is
  the indefinite integer that the conversion instruction of x86-64 gives.
\<close>

fun int_of_double :: "double \<Rightarrow> int" where
  "int_of_double (Fin q) =
     (let t = truncate q in if - (2 ^ 31) \<le> t \<and> t < 2 ^ 31 then t else - (2 ^ 31))"
| "int_of_double x = - (2 ^ 31)"

fun ulong_of_double :: "double \<Rightarrow> u64" where
  "ulong_of_double (Fin q) =
     (let t = truncate q in if 0 \<le> t \<and> t < 2 ^ 64 then of_int t else 2 ^ 63)"
| "ulong_of_double x = 2 ^ 63"

definition double_of_int :: "int \<Rightarrow> double" where
  "double_of_int i = rnd (of_int i)"

definition double_of_ulong :: "u64 \<Rightarrow> double" where
  "double_of_ulong w = rnd (of_nat (unat w))"

fun bits_of_double :: "double \<Rightarrow> u64" where
  "bits_of_double NaN = 0x7FF8000000000000"
| "bits_of_double (Infty n) = (if n then 0xFFF0000000000000 else 0x7FF0000000000000)"
| "bits_of_double (Fin q) = (if q = 0 then 0 else
     let a = \<bar>q\<bar>; e = qlog2 a; s = (if q < 0 then push_bit 63 1 else 0)
     in if e < - 1022 then s OR of_int \<lfloor>a / pow2 (- 1074)\<rfloor>
        else s OR push_bit 52 (of_int (e + 1023)) OR of_int (\<lfloor>a / pow2 (e - 52)\<rfloor> - 2 ^ 52))"

definition double_of_bits :: "u64 \<Rightarrow> double" where
  "double_of_bits w =
     (let n = bit w 63; e = unat (take_bit 11 (drop_bit 52 w)); m = unat (take_bit 52 w);
          a = (if e = 0 then of_nat m * pow2 (- 1074) else of_nat (2 ^ 52 + m) * pow2 (int e - 1075))
      in if e = 2047 then (if m = 0 then Infty n else NaN) else Fin (if n then - a else a))"

section \<open>The binary exponent\<close>

lemma pow2_powi: "pow2 e = 2 powi e"
  by (simp add: pow2_def power_int_def field_simps)

lemma pow2_pos [simp]: "0 < pow2 e"
  by (simp add: pow2_powi)

lemma pow2_add: "pow2 (a + b) = pow2 a * pow2 b"
  by (simp add: pow2_powi power_int_add)

lemma pow2_nat: "pow2 (int n) = 2 ^ n"
  by (simp add: pow2_def)

lemma pow2_minus: "pow2 (- e) = 1 / pow2 e"
  by (simp add: pow2_powi power_int_minus field_simps)

lemma pow2_mono: "a \<le> b \<Longrightarrow> pow2 a \<le> pow2 b"
  by (simp add: pow2_powi power_int_increasing)

lemma nlog2_int:
  "1 \<le> n \<Longrightarrow> 0 \<le> nlog2 n \<and> 2 ^ nat (nlog2 n) \<le> n \<and> n < 2 ^ nat (nlog2 n + 1)"
proof (induction n rule: nlog2.induct)
  case (1 n)
  show ?case
  proof (cases "n < 2")
    case True
    then show ?thesis using 1(2) by (simp add: nlog2.simps[of n])
  next
    case False
    let ?k = "nlog2 (n div 2)"
    have IH: "0 \<le> ?k" "2 ^ nat ?k \<le> n div 2" "n div 2 < 2 ^ nat (?k + 1)"
      using 1(1) False by auto
    moreover have "nlog2 n = ?k + 1" using False by (simp add: nlog2.simps[of n])
    moreover have "nat (?k + 1) = Suc (nat ?k)" "nat (?k + 1 + 1) = Suc (Suc (nat ?k))"
      using IH(1) by simp_all
    moreover have "2 * (n div 2) \<le> n" "n < 2 * (n div 2) + 2" by auto
    ultimately show ?thesis by simp
  qed
qed

lemma nlog2_bounds:
  assumes "1 \<le> n"
  shows "0 \<le> nlog2 n" "pow2 (nlog2 n) \<le> of_int n" "of_int n + 1 \<le> pow2 (nlog2 n + 1)"
proof -
  have p: "pow2 k = of_int (2 ^ nat k)" if "0 \<le> k" for k using that by (simp add: pow2_def)
  note b = nlog2_int[OF assms]
  show "0 \<le> nlog2 n" using b by simp
  show "pow2 (nlog2 n) \<le> of_int n" using b by (simp only: p of_int_le_iff)
  have "n + 1 \<le> 2 ^ nat (nlog2 n + 1)" "0 \<le> nlog2 n + 1" using b by simp_all
  then have "of_int (n + 1) \<le> pow2 (nlog2 n + 1)" by (simp only: p of_int_le_iff)
  then show "of_int n + 1 \<le> pow2 (nlog2 n + 1)" by simp
qed

lemma qlog2_bounds:
  assumes "0 < q"
  shows "pow2 (qlog2 q) \<le> q" and "q < pow2 (qlog2 q + 1)"
proof -
  have "pow2 (qlog2 q) \<le> q \<and> q < pow2 (qlog2 q + 1)"
  proof (cases "1 \<le> q")
    case True
    then have n: "1 \<le> \<lfloor>q\<rfloor>" by simp
    have "of_int \<lfloor>q\<rfloor> \<le> q" "q < of_int \<lfloor>q\<rfloor> + 1" by linarith+
    then have "pow2 (nlog2 \<lfloor>q\<rfloor>) \<le> q \<and> q < pow2 (nlog2 \<lfloor>q\<rfloor> + 1)"
      using nlog2_bounds(2,3)[OF n] by linarith
    then show ?thesis using True by (simp add: qlog2_def)
  next
    case False
    let ?c = "\<lceil>1 / q\<rceil>"
    have c: "1 \<le> ?c - 1" using assms False by (simp add: less_ceiling_iff)
    have k: "qlog2 q = - (nlog2 (?c - 1) + 1)" "qlog2 q + 1 = - nlog2 (?c - 1)"
      using False by (simp_all add: qlog2_def)
    have "of_int (?c - 1) < 1 / q" "1 / q \<le> of_int (?c - 1) + 1" by linarith+
    then have "pow2 (nlog2 (?c - 1)) < 1 / q" "1 / q \<le> pow2 (nlog2 (?c - 1) + 1)"
      using nlog2_bounds(2,3)[OF c] by linarith+
    then show ?thesis using assms unfolding k(2) unfolding k(1) pow2_minus
      by (simp add: field_simps)
  qed
  then show "pow2 (qlog2 q) \<le> q" and "q < pow2 (qlog2 q + 1)" by simp_all
qed

lemma qlog2_eqI:
  assumes "pow2 e \<le> q" and "q < pow2 (e + 1)"
  shows "qlog2 q = e"
proof -
  have q: "0 < q" using assms(1) pow2_pos[of e] by linarith
  have "a < b + 1" if "pow2 a \<le> q" "q < pow2 (b + 1)" for a b
    using that pow2_mono[of "b + 1" a] by linarith
  from this[OF assms(1) qlog2_bounds(2)[OF q]] this[OF qlog2_bounds(1)[OF q] assms(2)]
  show ?thesis by simp
qed

text \<open>Rounding of a normal positive number, from its exponent and its rounded significand.\<close>

lemma round_even_le: "q \<le> of_int n \<Longrightarrow> round_even q \<le> n"
proof -
  assume "q \<le> of_int n"
  then have "\<lfloor>q\<rfloor> \<le> n" by linarith
  moreover have "\<lfloor>q\<rfloor> = n \<Longrightarrow> q = of_int n" using \<open>q \<le> of_int n\<close> by linarith
  ultimately show ?thesis by (cases "\<lfloor>q\<rfloor> = n") (auto simp: round_even_def Let_def)
qed

lemma rnd_eqI:
  assumes "pow2 e \<le> q" and "q < pow2 (e + 1)" and "- 1022 \<le> e" and "e < 1023"
    and "round_even (q / pow2 (e - 52)) = m"
  shows "rnd q = Fin (of_int m * pow2 (e - 52))"
proof -
  have q: "0 < q" using assms(1) pow2_pos[of e] by linarith
  have "pow2 (e + 1) = 2 ^ 53 * pow2 (e - 52)"
    using pow2_add[of 53 "e - 52"] pow2_nat[of 53] by (simp add: add.commute)
  then have "q / pow2 (e - 52) \<le> of_int (2 ^ 53)" using assms(2) by (simp add: divide_le_eq)
  then have "m \<le> 2 ^ 53" using assms(5) round_even_le by blast
  then have "of_int m * pow2 (e - 52) \<le> of_int (2 ^ 53) * pow2 (e - 52)"
    using less_imp_le[OF pow2_pos[of "e - 52"]] by (intro mult_right_mono) (simp_all only: of_int_le_iff)
  also have "\<dots> = pow2 (e + 1)" using \<open>pow2 (e + 1) = 2 ^ 53 * pow2 (e - 52)\<close> by simp
  also have "\<dots> \<le> pow2 1023" using assms(4) by (intro pow2_mono) simp
  also have "\<dots> < pow2 1024" using pow2_add[of 1 1023] pow2_pos[of 1023] by (simp add: pow2_def[of 1])
  finally have "of_int m * pow2 (e - 52) < pow2 1024" .
  moreover have "max (e - 52) (- 1074) = e - 52" using assms(3) by simp
  ultimately show ?thesis
    using q assms(5) qlog2_eqI[OF assms(1,2)] by (simp add: rnd_def Let_def)
qed

end
