(* ===== verification/Printf_Float.thy ===== *)
theory Printf_Float
  imports Printf_Output Binary64
begin

text \<open>
  The floating point conversions \<^verbatim>\<open>_ftoa\<close> and \<^verbatim>\<open>_etoa\<close> of \<^verbatim>\<open>src/Kernel/printf.c\<close>. The two call each
  other, so they carry a bound on the depth of the calls; a read outside of the table of powers of
  ten is an error. The lemmas show that both only feed characters to their output function, that
  the 32 bytes of the conversion buffer suffice, and where the code goes wrong: a precision above
  41 reads past the table, and a tie that rounds up to the next power of ten fills the buffer.
\<close>

section \<open>Pieces of the fixed notation\<close>

definition PRINTF_FTOA_BUFFER_SIZE :: nat where "PRINTF_FTOA_BUFFER_SIZE = 32"
definition PRINTF_DEFAULT_FLOAT_PRECISION :: u32 where "PRINTF_DEFAULT_FLOAT_PRECISION = 6"
definition PRINTF_MAX_FLOAT :: double where "PRINTF_MAX_FLOAT = Fin (10 ^ 9)"

text \<open>The table of ten powers; there is nothing to read behind it.\<close>

definition pow10 :: "u32 \<Rightarrow> double outcome" where
  "pow10 i = (if unat i < 10 then Inr (Fin (10 ^ unat i)) else Inl OutOfBounds)"

text \<open>\<^verbatim>\<open>while ((len < PRINTF_FTOA_BUFFER_SIZE) && (prec > 9U)) { buf[len++] = '0'; prec--; }\<close>\<close>

function prec_loop :: "string \<Rightarrow> u32 \<Rightarrow> string \<times> u32" where
  "prec_loop buf prec =
     (if length buf < PRINTF_FTOA_BUFFER_SIZE \<and> 9 < prec
      then prec_loop (buf @ [CHR ''0'']) (prec - 1) else (buf, prec))"
  by auto
termination by (relation "measure (\<lambda>(buf, _). PRINTF_FTOA_BUFFER_SIZE - length buf)") auto

text \<open>The rounding of the fraction: the whole part and the fraction as integers.\<close>

definition ftoa_round :: "double \<Rightarrow> u32 \<Rightarrow> (int \<times> u64) outcome" where
  "ftoa_round val prec =
     (let whole = int_of_double val
      in obind (pow10 prec) (\<lambda>pow.
        let tmp = dmul (dsub val (double_of_int whole)) pow;
            fr = ulong_of_double tmp;
            diff = dsub tmp (double_of_ulong fr)
        in if dless (Fin (1 / 2)) diff then
             (let fr1 = fr + 1
              in if dge (double_of_ulong fr1) pow then Inr (whole + 1, 0) else Inr (whole, fr1))
           else if dless diff (Fin (1 / 2)) then Inr (whole, fr)
           else if fr = 0 \<or> fr AND 1 \<noteq> 0 then Inr (whole, fr + 1)
           else Inr (whole, fr)))"

text \<open>The loop over the digits of the fraction, with the unsigned \<^verbatim>\<open>count\<close>.\<close>

function frac_loop :: "u64 \<Rightarrow> u32 \<Rightarrow> string \<Rightarrow> string \<times> u32" where
  "frac_loop fr count buf =
     (if length buf < PRINTF_FTOA_BUFFER_SIZE then
        let count' = count - 1; buf' = buf @ [char_of (48 + unat (fr mod 10))]; fr' = fr div 10
        in if fr' = 0 then (buf', count') else frac_loop fr' count' buf'
      else (buf, count))"
  by auto
termination by (relation "measure (\<lambda>(_, _, buf). PRINTF_FTOA_BUFFER_SIZE - length buf)") auto

text \<open>\<^verbatim>\<open>while ((len < PRINTF_FTOA_BUFFER_SIZE) && (count-- > 0U)) buf[len++] = '0'\<close>\<close>

function count_loop :: "u32 \<Rightarrow> string \<Rightarrow> string" where
  "count_loop count buf =
     (if length buf < PRINTF_FTOA_BUFFER_SIZE \<and> 0 < count
      then count_loop (count - 1) (buf @ [CHR ''0'']) else buf)"
  by auto
termination by (relation "measure (\<lambda>(_, buf). PRINTF_FTOA_BUFFER_SIZE - length buf)") auto

text \<open>The loop over the digits of the whole part, a nonnegative \<^verbatim>\<open>int\<close>.\<close>

function whole_loop :: "int \<Rightarrow> string \<Rightarrow> string" where
  "whole_loop whole buf =
     (if length buf < PRINTF_FTOA_BUFFER_SIZE then
        let buf' = buf @ [char_of (nat (48 + whole mod 10))]; whole' = whole div 10
        in if whole' = 0 then buf' else whole_loop whole' buf'
      else buf)"
  by auto
termination by (relation "measure (\<lambda>(_, buf). PRINTF_FTOA_BUFFER_SIZE - length buf)") auto

declare prec_loop.simps [simp del] frac_loop.simps [simp del] count_loop.simps [simp del]
  whole_loop.simps [simp del]

definition ftoa_digits :: "double \<Rightarrow> int \<Rightarrow> u64 \<Rightarrow> u32 \<Rightarrow> string \<Rightarrow> string" where
  "ftoa_digits val whole fr prec buf =
     (if prec = 0 then
        let diff = dsub val (double_of_int whole);
            whole' = (if (\<not> dless diff (Fin (1 / 2)) \<or> dless (Fin (1 / 2)) diff) \<and> odd whole
                      then whole + 1 else whole)
        in whole_loop whole' buf
      else
        let (buf1, count) = frac_loop fr prec buf;
            buf2 = count_loop count buf1;
            buf3 = (if length buf2 < PRINTF_FTOA_BUFFER_SIZE then buf2 @ ''.'' else buf2)
        in whole_loop whole buf3)"

definition ftoa_pad :: "string \<Rightarrow> bool \<Rightarrow> u32 \<Rightarrow> u32 \<Rightarrow> string \<times> u32" where
  "ftoa_pad buf negative width flags =
     (if \<not> has flags FLAGS_LEFT \<and> has flags FLAGS_ZEROPAD then
        let width' = (if width \<noteq> 0 \<and> (negative \<or> has flags (FLAGS_PLUS OR FLAGS_SPACE))
                      then width - 1 else width)
        in (zero_loop buf (unat width'), width')
      else (buf, width))"

text \<open>What \<^verbatim>\<open>_ftoa\<close> does with an ordinary value, from the test for negative on.\<close>

definition ftoa_fixed ::
  "'s out_fct_type \<Rightarrow> u64 \<Rightarrow> u64 \<Rightarrow> u64 \<Rightarrow> double \<Rightarrow> u32 \<Rightarrow> u32 \<Rightarrow> u32 \<Rightarrow> 's \<Rightarrow> (u64 \<times> 's) outcome" where
  "ftoa_fixed out buffer idx maxlen val prec width flags s =
     (let negative = dless val (Fin 0);
          val1 = (if negative then dsub (Fin 0) val else val);
          prec1 = (if \<not> has flags FLAGS_PRECISION then PRINTF_DEFAULT_FLOAT_PRECISION else prec);
          (buf0, prec2) = prec_loop [] prec1
      in obind (ftoa_round val1 prec2) (\<lambda>(whole, fr).
        let buf1 = ftoa_digits val1 whole fr prec2 buf0;
            (buf2, width1) = ftoa_pad buf1 negative width flags;
            buf3 = ntoa_sign buf2 negative flags
        in Inr (out_rev out buffer idx maxlen buf3 (length buf3) width1 flags s)))"

section \<open>The exponent\<close>

text \<open>
  The decimal exponent of a positive finite value and an approximation of the power of ten that
  belongs to it: the computation on the union \<^verbatim>\<open>conv\<close>.
\<close>

definition etoa_scale :: "double \<Rightarrow> int \<times> double" where
  "etoa_scale val =
     (let U = bits_of_double val;
          exp2 = int (unat (drop_bit 52 U AND 0x7FF)) - 1023;
          F1 = double_of_bits ((U AND (push_bit 52 1 - 1)) OR push_bit 52 1023);
          expval = int_of_double
            (dadd (dadd (rnd 0.1760912590558) (dmul (double_of_int exp2) (rnd 0.301029995663981)))
                  (dmul (dsub F1 (Fin 1.5)) (rnd 0.289529654602168)));
          exp2' = int_of_double (dadd (dmul (double_of_int expval) (rnd 3.321928094887362)) (Fin 0.5));
          z = dsub (dmul (double_of_int expval) (rnd 2.302585092994046))
                   (dmul (double_of_int exp2') (rnd 0.6931471805599453));
          z2 = dmul z z;
          F2 = double_of_bits (push_bit 52 (of_int (exp2' + 1023)));
          F3 = dmul F2 (dadd (Fin 1) (ddiv (dmul (Fin 2) z)
                 (dadd (dsub (Fin 2) z)
                   (ddiv z2 (dadd (Fin 6) (ddiv z2 (dadd (Fin 10) (ddiv z2 (Fin 14)))))))))
      in if dless val F3 then (expval - 1, ddiv F3 (Fin 10)) else (expval, F3))"

text \<open>How \<^verbatim>\<open>%g\<close> and \<^verbatim>\<open>%e\<close> change precision, minimal width, exponent and flags.\<close>

definition etoa_adapt :: "double \<Rightarrow> int \<Rightarrow> u32 \<Rightarrow> u32 \<Rightarrow> u32 \<times> u32 \<times> int \<times> u32" where
  "etoa_adapt val expval prec flags =
     (let minwidth = (if expval < 100 \<and> - 100 < expval then 4 else 5)
      in if has flags FLAGS_ADAPT_EXP then
           if dge val (rnd (1 / 10 ^ 4)) \<and> dless val (Fin (10 ^ 6)) then
             let prec' = (if expval < sint prec then prec - of_int expval - 1 else 0)
             in (prec', 0, 0, flags OR FLAGS_PRECISION)
           else (if 0 < prec \<and> has flags FLAGS_PRECISION then prec - 1 else prec, minwidth, expval, flags)
         else (prec, minwidth, expval, flags))"

definition etoa_fwidth :: "u32 \<Rightarrow> u32 \<Rightarrow> u32 \<Rightarrow> u32" where
  "etoa_fwidth width minwidth flags =
     (let fwidth = (if minwidth < width then width - minwidth else 0)
      in if has flags FLAGS_LEFT \<and> minwidth \<noteq> 0 then 0 else fwidth)"

definition is_special :: "double \<Rightarrow> bool" where
  "is_special val \<longleftrightarrow> val = NaN \<or> dless DBL_MAX val \<or> dless val (dneg DBL_MAX)"

text \<open>All that \<^verbatim>\<open>_etoa\<close> computes before it prints: the scaled value with its precision, width and
  flags, and the minimal width and the value of the exponent.\<close>

definition etoa_plan ::
  "double \<Rightarrow> u32 \<Rightarrow> u32 \<Rightarrow> u32 \<Rightarrow> double \<times> u32 \<times> u32 \<times> u32 \<times> int \<times> u32" where
  "etoa_plan val prec width flags =
     (let negative = dless val (Fin 0);
          val1 = (if negative then dneg val else val);
          prec1 = (if \<not> has flags FLAGS_PRECISION then PRINTF_DEFAULT_FLOAT_PRECISION else prec);
          (expval0, F) = etoa_scale val1;
          (prec2, minwidth, expval, flags1) = etoa_adapt val1 expval0 prec1 flags;
          fwidth = etoa_fwidth width minwidth flags1;
          val2 = (if expval \<noteq> 0 then ddiv val1 F else val1)
      in (if negative then dneg val2 else val2, prec2, fwidth, minwidth, expval, flags1))"

text \<open>The output of the exponent part.\<close>

definition etoa_exponent ::
  "'s out_fct_type \<Rightarrow> u64 \<Rightarrow> u64 \<Rightarrow> u64 \<Rightarrow> u32 \<Rightarrow> u32 \<Rightarrow> int \<Rightarrow> u32 \<Rightarrow> u64 \<times> 's \<Rightarrow> u64 \<times> 's" where
  "etoa_exponent out buffer maxlen start_idx width minwidth expval flags r =
     (if minwidth \<noteq> 0 then
        let r1 = put out buffer maxlen (if has flags FLAGS_UPPERCASE then CHR ''E'' else CHR ''e'') r;
            r2 = ntoa_long out buffer (fst r1) maxlen (of_int \<bar>expval\<bar>) (expval < 0) 10 0
                   (minwidth - 1) (FLAGS_ZEROPAD OR FLAGS_PLUS) (snd r1)
        in if has flags FLAGS_LEFT then left_loop out buffer maxlen start_idx width r2 else r2
      else r)"

section \<open>The two conversions\<close>

fun ftoa and etoa ::
  "nat \<Rightarrow> 's out_fct_type \<Rightarrow> u64 \<Rightarrow> u64 \<Rightarrow> u64 \<Rightarrow> double \<Rightarrow> u32 \<Rightarrow> u32 \<Rightarrow> u32 \<Rightarrow> 's \<Rightarrow> (u64 \<times> 's) outcome" where
  "ftoa 0 out buffer idx maxlen val prec width flags s = Inl Diverges"
| "ftoa (Suc n) out buffer idx maxlen val prec width flags s =
     (if val = NaN then Inr (out_rev out buffer idx maxlen ''nan'' 3 width flags s)
      else if dless val (dneg DBL_MAX) then Inr (out_rev out buffer idx maxlen ''fni-'' 4 width flags s)
      else if dless DBL_MAX val then
        (if has flags FLAGS_PLUS then Inr (out_rev out buffer idx maxlen ''fni+'' 4 width flags s)
         else Inr (out_rev out buffer idx maxlen ''fni'' 3 width flags s))
      else if dless PRINTF_MAX_FLOAT val \<or> dless val (dneg PRINTF_MAX_FLOAT) then
        etoa n out buffer idx maxlen val prec width flags s
      else ftoa_fixed out buffer idx maxlen val prec width flags s)"
| "etoa 0 out buffer idx maxlen val prec width flags s = Inl Diverges"
| "etoa (Suc n) out buffer idx maxlen val prec width flags s =
     (if is_special val then ftoa n out buffer idx maxlen val prec width flags s
      else
        let (val', prec', fwidth, minwidth, expval, flags1) = etoa_plan val prec width flags
        in obind (ftoa n out buffer idx maxlen val' prec' fwidth (flags1 AND NOT FLAGS_ADAPT_EXP) s)
             (\<lambda>r. Inr (etoa_exponent out buffer maxlen idx width minwidth expval flags1 r)))"

section \<open>The conversion buffer\<close>

lemma length_prec_loop: "length buf \<le> 32 \<Longrightarrow> length (fst (prec_loop buf prec)) \<le> 32"
  by (induction buf prec rule: prec_loop.induct)
    (subst prec_loop.simps, simp add: PRINTF_FTOA_BUFFER_SIZE_def)

lemma length_frac_loop: "length buf \<le> 32 \<Longrightarrow> length (fst (frac_loop fr count buf)) \<le> 32"
  by (induction fr count buf rule: frac_loop.induct)
    (subst frac_loop.simps, simp add: PRINTF_FTOA_BUFFER_SIZE_def Let_def)

lemma length_count_loop: "length buf \<le> 32 \<Longrightarrow> length (count_loop count buf) \<le> 32"
  by (induction count buf rule: count_loop.induct)
    (subst count_loop.simps, simp add: PRINTF_FTOA_BUFFER_SIZE_def)

lemma length_whole_loop: "length buf \<le> 32 \<Longrightarrow> length (whole_loop whole buf) \<le> 32"
  by (induction whole buf rule: whole_loop.induct)
    (subst whole_loop.simps, simp add: PRINTF_FTOA_BUFFER_SIZE_def Let_def)

lemma length_ftoa_digits: "length buf \<le> 32 \<Longrightarrow> length (ftoa_digits val whole fr prec buf) \<le> 32"
  using length_frac_loop[of buf fr prec] length_count_loop[of "fst (frac_loop fr prec buf)" "snd (frac_loop fr prec buf)"]
  by (auto simp: ftoa_digits_def Let_def PRINTF_FTOA_BUFFER_SIZE_def split_beta intro!: length_whole_loop)

lemma length_ftoa_pad: "length buf \<le> 32 \<Longrightarrow> length (fst (ftoa_pad buf negative width flags)) \<le> 32"
  by (auto simp: ftoa_pad_def Let_def length_zero_loop PRINTF_NTOA_BUFFER_SIZE_def)

section \<open>What is fed to the output function\<close>

definition ftoa_fixed_chars :: "double \<Rightarrow> u32 \<Rightarrow> u32 \<Rightarrow> u32 \<Rightarrow> string outcome" where
  "ftoa_fixed_chars val prec width flags =
     (let negative = dless val (Fin 0);
          val1 = (if negative then dsub (Fin 0) val else val);
          prec1 = (if \<not> has flags FLAGS_PRECISION then PRINTF_DEFAULT_FLOAT_PRECISION else prec);
          (buf0, prec2) = prec_loop [] prec1
      in obind (ftoa_round val1 prec2) (\<lambda>(whole, fr).
        let (buf2, width1) = ftoa_pad (ftoa_digits val1 whole fr prec2 buf0) negative width flags
        in Inr (rev_chars (ntoa_sign buf2 negative flags) width1 flags)))"

lemma ftoa_fixed_buffer:
  assumes "prec_loop [] prec = (buf0, prec2)"
    and "ftoa_pad (ftoa_digits val whole fr prec2 buf0) negative width flags = (buf2, width1)"
  shows "length (ntoa_sign buf2 negative flags) \<le> 32"
proof -
  have "length buf0 \<le> 32" using length_prec_loop[of "[]" prec] assms(1) by simp
  then have "length (ftoa_digits val whole fr prec2 buf0) \<le> 32" by (rule length_ftoa_digits)
  then have "length buf2 \<le> 32" using length_ftoa_pad assms(2) by (metis fst_conv)
  then show ?thesis by (rule length_ntoa_stages)
qed

lemma ftoa_fixed_emits:
  "ftoa_fixed out buffer idx maxlen val prec width flags s
   = obind (ftoa_fixed_chars val prec width flags) (\<lambda>cs. Inr (emits out buffer maxlen cs (idx, s)))"
proof -
  let ?p = "if \<not> has flags FLAGS_PRECISION then PRINTF_DEFAULT_FLOAT_PRECISION else prec"
  let ?neg = "dless val (Fin 0)"
  let ?v = "if ?neg then dsub (Fin 0) val else val"
  obtain buf0 prec2 where p: "prec_loop [] ?p = (buf0, prec2)" by force
  have "out_rev out buffer idx maxlen (ntoa_sign b ?neg flags) (length (ntoa_sign b ?neg flags)) w flags s
      = emits out buffer maxlen (rev_chars (ntoa_sign b ?neg flags) w flags) (idx, s)"
    if "ftoa_pad (ftoa_digits ?v whole fr prec2 buf0) ?neg width flags = (b, w)" for whole fr b w
    using ftoa_fixed_buffer[OF p that] by (intro out_rev_emits) simp
  then show ?thesis
    by (cases "ftoa_round ?v prec2")
      (auto simp: ftoa_fixed_def ftoa_fixed_chars_def p Let_def split_beta)
qed

definition exponent_chars :: "string \<Rightarrow> u32 \<Rightarrow> u32 \<Rightarrow> int \<Rightarrow> u32 \<Rightarrow> string" where
  "exponent_chars cs width minwidth expval flags =
     (if minwidth \<noteq> 0 then
        let ds = cs @ (if has flags FLAGS_UPPERCASE then ''E'' else ''e'')
                   @ ntoa_chars (of_int \<bar>expval\<bar>) (expval < 0) 10 0 (minwidth - 1) (FLAGS_ZEROPAD OR FLAGS_PLUS)
        in if has flags FLAGS_LEFT then ds @ replicate (unat width - length ds) (CHR '' '') else ds
      else cs)"

fun ftoa_chars and etoa_chars :: "nat \<Rightarrow> double \<Rightarrow> u32 \<Rightarrow> u32 \<Rightarrow> u32 \<Rightarrow> string outcome" where
  "ftoa_chars 0 val prec width flags = Inl Diverges"
| "ftoa_chars (Suc n) val prec width flags =
     (if val = NaN then Inr (rev_chars ''nan'' width flags)
      else if dless val (dneg DBL_MAX) then Inr (rev_chars ''fni-'' width flags)
      else if dless DBL_MAX val then
        Inr (rev_chars (if has flags FLAGS_PLUS then ''fni+'' else ''fni'') width flags)
      else if dless PRINTF_MAX_FLOAT val \<or> dless val (dneg PRINTF_MAX_FLOAT) then
        etoa_chars n val prec width flags
      else ftoa_fixed_chars val prec width flags)"
| "etoa_chars 0 val prec width flags = Inl Diverges"
| "etoa_chars (Suc n) val prec width flags =
     (if is_special val then ftoa_chars n val prec width flags
      else
        let (val', prec', fwidth, minwidth, expval, flags1) = etoa_plan val prec width flags
        in obind (ftoa_chars n val' prec' fwidth (flags1 AND NOT FLAGS_ADAPT_EXP))
             (\<lambda>cs. Inr (exponent_chars cs width minwidth expval flags1)))"

lemma length_rev_chars_le: "length buf \<le> 32 \<Longrightarrow> length (rev_chars buf width flags) \<le> 2 ^ 32"
  using unsigned_less[of width, where ?'a = nat] by (simp add: length_rev_chars)

lemma length_ntoa_chars_le: "length (ntoa_chars v negative base prec width flags) \<le> 2 ^ 32"
proof -
  let ?f = "if v = 0 then flags AND NOT FLAGS_HASH else flags"
  obtain b w where p: "ntoa_pad (ntoa_digits v base ?f) negative prec width ?f = (b, w)" by force
  then have "length b \<le> 32"
    using length_ntoa_stages(1)[OF length_ntoa_digits[of v base ?f], of negative prec width ?f] by simp
  then have "length (ntoa_sign (ntoa_hash b (ucast base) prec w ?f) negative ?f) \<le> 32"
    by (intro length_ntoa_stages)
  from length_rev_chars_le[OF this, of w ?f] show ?thesis
    using p by (simp add: ntoa_chars_def Let_def split del: if_split)
qed

lemma length_ftoa_fixed_chars:
  assumes "ftoa_fixed_chars val prec width flags = Inr cs"
  shows "length cs \<le> 2 ^ 32"
proof -
  let ?p = "if \<not> has flags FLAGS_PRECISION then PRINTF_DEFAULT_FLOAT_PRECISION else prec"
  let ?neg = "dless val (Fin 0)"
  obtain buf0 prec2 where p: "prec_loop [] ?p = (buf0, prec2)" by force
  then show ?thesis
    using assms length_rev_chars_le[OF ftoa_fixed_buffer[OF p prod.collapse[symmetric]]]
    by (auto simp: ftoa_fixed_chars_def Let_def obind_eq_Inr_iff split_beta)
qed

lemma length_exponent_chars:
  "length (exponent_chars cs width minwidth expval flags) \<le> length cs + 2 ^ 33"
proof -
  let ?nt = "ntoa_chars (of_int \<bar>expval\<bar>) (expval < 0) 10 0 (minwidth - 1) (FLAGS_ZEROPAD OR FLAGS_PLUS)"
  have "length ?nt \<le> 2 ^ 32" by (rule length_ntoa_chars_le)
  moreover have "unat width < 2 ^ 32" using unsigned_less[of width, where ?'a = nat] by simp
  ultimately show ?thesis by (auto simp: exponent_chars_def Let_def)
qed

lemma length_float_chars:
  "(\<forall>val prec width flags cs. ftoa_chars n val prec width flags = Inr cs \<longrightarrow> length cs \<le> n * 2 ^ 33)
   \<and> (\<forall>val prec width flags cs. etoa_chars n val prec width flags = Inr cs \<longrightarrow> length cs \<le> n * 2 ^ 33)"
proof (induction n)
  case (Suc n)
  have rev: "length (rev_chars buf width flags) \<le> Suc n * 2 ^ 33" if "length buf \<le> 32" for buf width flags
    using length_rev_chars_le[OF that, of width flags] by simp
  have "length cs \<le> Suc n * 2 ^ 33" if "ftoa_chars (Suc n) val prec width flags = Inr cs"
    for val prec width flags cs
    using that Suc rev[of "''nan''" width flags] rev[of "''fni-''" width flags]
      rev[of "if has flags FLAGS_PLUS then ''fni+'' else ''fni''" width flags]
      length_ftoa_fixed_chars[of val prec width flags cs]
    by (fastforce split: if_splits)
  moreover have "length cs \<le> Suc n * 2 ^ 33" if "etoa_chars (Suc n) val prec width flags = Inr cs"
    for val prec width flags cs
    using that Suc
    by (fastforce simp: obind_eq_Inr_iff split: if_splits prod.splits
        intro: order_trans[OF length_exponent_chars])
  ultimately show ?case by blast
qed simp

lemma etoa_exponent_emits:
  assumes "length cs + 2 ^ 33 < 2 ^ 64"
  shows "etoa_exponent out buffer maxlen idx width minwidth expval flags (emits out buffer maxlen cs (idx, s))
    = emits out buffer maxlen (exponent_chars cs width minwidth expval flags) (idx, s)"
proof -
  let ?nt = "ntoa_chars (of_int \<bar>expval\<bar>) (expval < 0) 10 0 (minwidth - 1) (FLAGS_ZEROPAD OR FLAGS_PLUS)"
  let ?e = "if has flags FLAGS_UPPERCASE then CHR ''E'' else CHR ''e''"
  let ?r = "put out buffer maxlen ?e (emits out buffer maxlen cs (idx, s))"
  have "length (cs @ [?e] @ ?nt) < 2 ^ 64"
    using length_ntoa_chars_le[of "of_int \<bar>expval\<bar>" "expval < 0" 10 0 "minwidth - 1" "FLAGS_ZEROPAD OR FLAGS_PLUS"]
      assms by simp
  then have u: "unat (of_nat (length (cs @ [?e] @ ?nt)) :: u64) = length (cs @ [?e] @ ?nt)"
    by (rule unat_of_nat64)
  have n: "ntoa_long out buffer (fst ?r) maxlen (of_int \<bar>expval\<bar>) (expval < 0) 10 0 (minwidth - 1)
      (FLAGS_ZEROPAD OR FLAGS_PLUS) (snd ?r) = emits out buffer maxlen (cs @ [?e] @ ?nt) (idx, s)"
    by (simp add: ntoa_long_emits del: fst_put split del: if_split)
  show ?thesis
    unfolding etoa_exponent_def exponent_chars_def Let_def n left_loop_emits
    using u by (auto simp: add.commute)
qed

lemma float_emits:
  assumes "n * 2 ^ 33 < 2 ^ 64"
  shows "(\<forall>val prec width flags. ftoa n out buffer idx maxlen val prec width flags s
      = obind (ftoa_chars n val prec width flags) (\<lambda>cs. Inr (emits out buffer maxlen cs (idx, s))))
    \<and> (\<forall>val prec width flags. etoa n out buffer idx maxlen val prec width flags s
      = obind (etoa_chars n val prec width flags) (\<lambda>cs. Inr (emits out buffer maxlen cs (idx, s))))"
  using assms
proof (induction n)
  case (Suc n)
  then have IH: "ftoa n out buffer idx maxlen val prec width flags s
      = obind (ftoa_chars n val prec width flags) (\<lambda>cs. Inr (emits out buffer maxlen cs (idx, s)))"
    "etoa n out buffer idx maxlen val prec width flags s
      = obind (etoa_chars n val prec width flags) (\<lambda>cs. Inr (emits out buffer maxlen cs (idx, s)))"
    for val prec width flags by simp_all
  have rev: "out_rev out buffer idx maxlen t k w f s = emits out buffer maxlen (rev_chars t w f) (idx, s)"
    if "k = length t" and "k \<le> 4" for t k w f
    using out_rev_emits[of t out buffer idx maxlen w f s] that by simp
  have "etoa (Suc n) out buffer idx maxlen val prec width flags s
      = obind (etoa_chars (Suc n) val prec width flags) (\<lambda>cs. Inr (emits out buffer maxlen cs (idx, s)))"
    for val prec width flags
  proof -
    obtain v p fw mw x f where plan: "etoa_plan val prec width flags = (v, p, fw, mw, x, f)"
      by (metis prod_cases6)
    have "length cs + 2 ^ 33 < 2 ^ 64" if "ftoa_chars n v p fw (f AND NOT FLAGS_ADAPT_EXP) = Inr cs" for cs
      using length_float_chars[of n] that Suc.prems by fastforce
    then show ?thesis
      by (cases "ftoa_chars n v p fw (f AND NOT FLAGS_ADAPT_EXP)")
        (simp_all add: plan IH etoa_exponent_emits)
  qed
  then show ?case by (auto simp: IH rev ftoa_fixed_emits simp del: etoa.simps etoa_chars.simps)
qed simp

section \<open>When the fixed notation returns\<close>

lemma prec_loop_eq:
  "length buf \<le> 32 \<Longrightarrow> prec_loop buf prec =
     (let k = min (32 - length buf) (unat prec - 9) in (buf @ replicate k (CHR ''0''), prec - of_nat k))"
proof (induction buf prec rule: prec_loop.induct)
  case (1 buf prec)
  show ?case
  proof (cases "length buf < 32 \<and> 9 < prec")
    case True
    then have "9 < unat prec" and "prec \<noteq> 0" by (auto simp: word_less_nat_alt)
    then have p: "unat (prec - 1) = unat prec - 1" "9 < unat prec" by (simp_all add: unat_minus_one)
    let ?k = "min (32 - length (buf @ [CHR ''0''])) (unat (prec - 1) - 9)"
    have k: "min (32 - length buf) (unat prec - 9) = Suc ?k" using True p by auto
    have "prec_loop (buf @ [CHR ''0'']) (prec - 1)
        = ((buf @ [CHR ''0'']) @ replicate ?k (CHR ''0''), prec - 1 - of_nat ?k)"
      using 1 True by (simp add: PRINTF_FTOA_BUFFER_SIZE_def Let_def)
    then show ?thesis using True
      by (subst prec_loop.simps) (simp add: PRINTF_FTOA_BUFFER_SIZE_def Let_def k algebra_simps)
  next
    case False
    then show ?thesis using 1(2)
      by (subst prec_loop.simps) (auto simp: PRINTF_FTOA_BUFFER_SIZE_def Let_def word_less_nat_alt)
  qed
qed

lemma prec_loop_below: "unat (snd (prec_loop [] prec)) < 10 \<longleftrightarrow> unat prec \<le> 41"
proof -
  let ?k = "min 32 (unat prec - 9)"
  have "?k < 2 ^ 32" by simp
  then have "unat (of_nat ?k :: u32) = ?k" by (simp add: unat_of_nat)
  then have "unat (prec - of_nat ?k) = unat prec - ?k" by (simp add: unat_sub_if')
  then show ?thesis by (auto simp: prec_loop_eq Let_def)
qed

lemma ftoa_round_returns: "(\<exists>x. ftoa_round val prec = Inr x) \<longleftrightarrow> unat prec < 10"
  "\<not> unat prec < 10 \<Longrightarrow> ftoa_round val prec = Inl OutOfBounds"
  by (auto simp: ftoa_round_def pow10_def Let_def)

text \<open>
  \<^verbatim>\<open>_ftoa\<close> on a finite value of at most a thousand millions returns, having fed its characters
  out of a buffer that never held more than 32, exactly when the precision is at most 41 (or none is
  given). With a greater one the buffer is full of zeros before the precision is down to nine, and
  the code reads past the end of its table of powers of ten.
\<close>

theorem ftoa_precision:
  assumes "\<bar>q\<bar> \<le> 10 ^ 9"
  shows "(if has flags FLAGS_PRECISION \<and> 41 < unat prec
     then ftoa (Suc n) out buffer idx maxlen (Fin q) prec width flags s = Inl OutOfBounds
     else \<exists>cs. ftoa (Suc n) out buffer idx maxlen (Fin q) prec width flags s
            = Inr (emits out buffer maxlen cs (idx, s)))"
proof -
  let ?p = "if \<not> has flags FLAGS_PRECISION then PRINTF_DEFAULT_FLOAT_PRECISION else prec"
  let ?v = "if q < 0 then dsub (Fin 0) (Fin q) else Fin q"
  have big: "(10 :: rat) ^ 9 \<le> (2 ^ 53 - 1) * 2 ^ 971"
    by (rule order_trans[of _ "(2 ^ 53 - 1) * 1"]) (simp, rule mult_left_mono, simp_all)
  then have ft: "ftoa (Suc n) out buffer idx maxlen (Fin q) prec width flags s
      = ftoa_fixed out buffer idx maxlen (Fin q) prec width flags s"
    using assms unfolding ftoa.simps DBL_MAX_def PRINTF_MAX_FLOAT_def dneg.simps dless.simps
    by (simp add: abs_le_iff del: power_numeral)
  show ?thesis
  proof (cases "unat (snd (prec_loop [] ?p)) < 10")
    case True
    then obtain whole fr where "ftoa_round ?v (snd (prec_loop [] ?p)) = Inr (whole, fr)"
      using ftoa_round_returns(1) by fast
    then have "\<exists>cs. ftoa_fixed_chars (Fin q) prec width flags = Inr cs"
      by (simp add: ftoa_fixed_chars_def Let_def split_beta)
    then show ?thesis
      using True prec_loop_below[of ?p] ft ftoa_fixed_emits[of out buffer idx maxlen "Fin q" prec width flags s]
      by (auto split: if_splits)
  next
    case False
    then have "ftoa_fixed_chars (Fin q) prec width flags = Inl OutOfBounds"
      using ftoa_round_returns(2)[OF False, of ?v] by (simp add: ftoa_fixed_chars_def Let_def split_beta)
    then show ?thesis
      using False prec_loop_below[of ?p] ft ftoa_fixed_emits[of out buffer idx maxlen "Fin q" prec width flags s]
      by (auto simp: PRINTF_DEFAULT_FLOAT_PRECISION_def split: if_splits)
  qed
qed

theorem ftoa_precision_witness:
  "ftoa 1 out_null 1 0 9 (Fin (5 / 2)) 42 0 FLAGS_PRECISION () = Inl OutOfBounds"
  using ftoa_precision[of "5 / 2" FLAGS_PRECISION 42 0 out_null 1 0 9 0 "()"]
  by (simp add: has_def FLAGS_defs)

section \<open>A tie that is not carried\<close>

text \<open>The double next to 0.95.\<close>

definition double_0_95 :: double where
  "double_0_95 = Fin (4278419646001971 / 4503599627370496)"

lemma rnd_0_95:
  "rnd (95 / 100) = double_0_95"
  "rnd (4278419646001971 / 4503599627370496) = double_0_95"
  "rnd (4278419646001971 / 4503599627370496 * 10) = Fin (19 / 2)"
  "rnd (19 / 2 - 9) = Fin (1 / 2)" "rnd 9 = Fin 9"
proof -
  note rnd = round_even_def Let_def floor_eq_iff pow2_def double_0_95_def
  have re: "round_even q = f" if "of_int f - 1 / 2 < q" "q < of_int f + 1 / 2" for q f
  proof (cases "of_int f \<le> q")
    case True
    then have "\<lfloor>q\<rfloor> = f" using that by (simp add: floor_eq_iff)
    then show ?thesis using that by (simp add: round_even_def Let_def)
  next
    case False
    then have "\<lfloor>q\<rfloor> = f - 1" using that by (simp add: floor_eq_iff)
    then show ?thesis using that False by (simp add: round_even_def Let_def)
  qed
  show "rnd (95 / 100) = double_0_95"
    using rnd_eqI[of "- 1" "95 / 100" 8556839292003942] by (simp add: re pow2_def double_0_95_def)
  show "rnd (4278419646001971 / 4503599627370496) = double_0_95"
    using rnd_eqI[of "- 1" "4278419646001971 / 4503599627370496" 8556839292003942]
    by (simp add: re pow2_def double_0_95_def)
  show "rnd (4278419646001971 / 4503599627370496 * 10) = Fin (19 / 2)"
    using rnd_eqI[of 3 "4278419646001971 / 4503599627370496 * 10" 5348024557502464]
    by (simp add: re pow2_def)
  show "rnd (19 / 2 - 9) = Fin (1 / 2)"
    using rnd_eqI[of "- 1" "1 / 2" "2 ^ 52"] by (simp add: re pow2_def)
  show "rnd 9 = Fin 9"
    using rnd_eqI[of 3 9 "9 * 2 ^ 49"] by (simp add: re pow2_def)
qed

lemma count_loop_eq:
  "length buf \<le> 32 \<Longrightarrow> 32 - length buf \<le> unat count \<Longrightarrow>
   count_loop count buf = buf @ replicate (32 - length buf) (CHR ''0'')"
proof (induction "32 - length buf" arbitrary: buf count)
  case 0
  then show ?case by (subst count_loop.simps) (simp add: PRINTF_FTOA_BUFFER_SIZE_def)
next
  case (Suc k)
  then have c: "count \<noteq> 0" by auto
  then have u: "unat (count - 1) = unat count - 1" by (simp add: unat_minus_one)
  have "count_loop (count - 1) (buf @ [CHR ''0''])
      = (buf @ [CHR ''0'']) @ replicate (32 - length (buf @ [CHR ''0''])) (CHR ''0'')"
    using Suc.hyps(2) Suc.prems u by (intro Suc.hyps(1)) auto
  moreover have "32 - length buf = Suc (32 - length (buf @ [CHR ''0'']))" using Suc.hyps(2) by simp
  ultimately show ?case using c Suc.hyps(2)
    by (subst count_loop.simps) (simp add: PRINTF_FTOA_BUFFER_SIZE_def word_neq_0_conv)
qed

lemma ftoa_round_0_95: "ftoa_round double_0_95 1 = Inr (0, 10)"
proof -
  have "int_of_double double_0_95 = 0"
    by (simp add: double_0_95_def truncate_def floor_eq_iff Let_def)
  moreover have "\<lfloor>19 / 2 :: rat\<rfloor> = 9" by (simp add: floor_eq_iff)
  then have "ulong_of_double (Fin (19 / 2)) = 9" by (simp add: truncate_def Let_def)
  moreover have "dsub double_0_95 (double_of_int 0) = double_0_95"
    using rnd_0_95(2) by (simp add: dsub_def double_of_int_def double_0_95_def rnd_def[of 0])
  moreover have "dmul double_0_95 (Fin 10) = Fin (19 / 2)"
    using rnd_0_95(3) by (simp add: double_0_95_def)
  moreover have "dsub (Fin (19 / 2)) (double_of_ulong 9) = Fin (1 / 2)"
    using rnd_0_95(4,5) by (simp add: dsub_def double_of_ulong_def)
  ultimately show ?thesis by (simp add: ftoa_round_def pow10_def Let_def)
qed

text \<open>
  A tie of the rounded fraction is rounded up without the carry that the other branch has:
  for \<^verbatim>\<open>%.1f\<close> of 0.95, whose product with ten is exactly 9.5 in binary64, the fraction becomes 10, a
  digit too long, the unsigned digit counter wraps around, and the rest of the buffer is filled
  with zeros: what is printed is 30 zeros and 10.
\<close>

theorem ftoa_tie_not_carried:
  "ftoa (Suc n) out buffer idx maxlen (rnd (95 / 100)) 1 0 FLAGS_PRECISION s
   = Inr (emits out buffer maxlen (replicate 30 (CHR ''0'') @ ''10'') (idx, s))"
proof -
  have "frac_loop 10 1 [] = (''01'', - 1)"
    by (simp add: frac_loop.simps PRINTF_FTOA_BUFFER_SIZE_def Let_def char_of_def bit_0)
  moreover have "(- 1 :: u32) = 0xFFFFFFFF" by simp
  then have "unat (- 1 :: u32) = 4294967295" by (simp only:) simp
  then have "count_loop (- 1) ''01'' = ''01'' @ replicate 30 (CHR ''0'')"
    using count_loop_eq[of "''01''" "- 1"] by simp
  ultimately have d: "ftoa_digits double_0_95 0 10 1 [] = ''01'' @ replicate 30 (CHR ''0'')"
    by (simp add: ftoa_digits_def Let_def PRINTF_FTOA_BUFFER_SIZE_def whole_loop.simps)
  have f: "has FLAGS_PRECISION FLAGS_PRECISION" "\<not> has FLAGS_PRECISION FLAGS_LEFT"
    "\<not> has FLAGS_PRECISION FLAGS_ZEROPAD"
    by (simp_all add: has_def FLAGS_defs)
  have neg: "\<not> dless double_0_95 (Fin 0)" by (simp add: double_0_95_def)
  have "prec_loop [] 1 = ([], 1)" by (simp add: prec_loop.simps)
  then have "ftoa_fixed_chars double_0_95 1 0 FLAGS_PRECISION = Inr (replicate 30 (CHR ''0'') @ ''10'')"
    using f neg d ftoa_round_0_95
    by (simp add: ftoa_fixed_chars_def ftoa_pad_def ntoa_sign_def rev_chars_def PRINTF_NTOA_BUFFER_SIZE_def)
  moreover have "double_0_95 \<noteq> NaN" "\<not> dless double_0_95 (dneg DBL_MAX)" "\<not> dless DBL_MAX double_0_95"
    "\<not> dless PRINTF_MAX_FLOAT double_0_95" "\<not> dless double_0_95 (dneg PRINTF_MAX_FLOAT)"
    by (simp_all add: double_0_95_def DBL_MAX_def PRINTF_MAX_FLOAT_def)
  ultimately show ?thesis unfolding rnd_0_95(1) by (simp add: ftoa_fixed_emits)
qed

end
