(* ===== verification/Physical_Memory.thy ===== *)
theory Physical_Memory
  imports Allocator_Interface Spin_Lock
begin

text \<open>
  The page allocator of \<^verbatim>\<open>src/Kernel/PhysicalMemoryManagement.cpp\<close>: the anonymous struct
  \<^verbatim>\<open>Memory\<close>, its lock protocol, \<^verbatim>\<open>freePages\<close> and \<^verbatim>\<open>allocatePages\<close> with their wrappers, and the
  address conversions of the header. The lemmas relate the doubly linked list in memory to the
  abstract list of free chunks: allocation is first fit and hands out free memory only, a block
  freed away from its neighbours is added, and the cases in which the code loses or duplicates
  memory are stated as they are.
\<close>

section \<open>State and operations\<close>

text \<open>
  \<^verbatim>\<open>struct { Spinlock lock; bool usingLock; MemoryChunk* freeList; } Memory\<close>: the lock's two bytes are
  at offset 0, \<^verbatim>\<open>usingLock\<close> is the byte at offset 2. The four bytes at offset 0 are one word of the
  model, because the lock's release writes all of them.
\<close>

record pm_state = machine +
  pm_lockword :: lock_word
  pm_freeList :: u64
  HigherHalfDirectMapOffset :: u64

definition PageShift :: nat where "PageShift = 12"
definition PageSize :: u64 where "PageSize = push_bit PageShift 1"

definition usingLock :: "'a pm_state_scheme \<Rightarrow> bool" where
  "usingLock s \<longleftrightarrow> (ucast (drop_bit 16 (pm_lockword s)) :: u8) \<noteq> 0"

definition set_usingLock :: "bool \<Rightarrow> lock_word \<Rightarrow> lock_word" where
  "set_usingLock b w = (w AND 0xFF00FFFF) OR (if b then 0x00010000 else 0)"

definition pm_init :: "'a pm_state_scheme \<Rightarrow> 'a pm_state_scheme" where
  "pm_init s = s\<lparr>pm_lockword := set_usingLock False (Spinlock_init (pm_lockword s)), pm_freeList := 0\<rparr>"

definition thereIsNowMoreThanOneProcessor :: "'a pm_state_scheme \<Rightarrow> 'a pm_state_scheme" where
  "thereIsNowMoreThanOneProcessor s = s\<lparr>pm_lockword := set_usingLock True (pm_lockword s)\<rparr>"

definition pm_lock :: "'a pm_state_scheme \<Rightarrow> 'a pm_state_scheme outcome" where
  "pm_lock s =
     (if usingLock s
      then obind (Spinlock_acquire (pm_lockword s) s) (\<lambda>(w, s1). Inr (s1\<lparr>pm_lockword := w\<rparr>))
      else Inr s)"

definition pm_unlock :: "'a pm_state_scheme \<Rightarrow> 'a pm_state_scheme outcome" where
  "pm_unlock s =
     (if usingLock s
      then obind (Spinlock_release (pm_lockword s) s) (\<lambda>(w, s1). Inr (s1\<lparr>pm_lockword := w\<rparr>))
      else Inr s)"

definition freePages :: "u64 \<Rightarrow> u64 \<Rightarrow> 'a pm_state_scheme \<Rightarrow> 'a pm_state_scheme outcome" where
  "freePages base numPages s =
     obind (pm_lock s) (\<lambda>s1.
       let m1 = fst (memset (mem s1) base 0 (PageSize * numPages));
           s2 = s1\<lparr>mem := set_count m1 base numPages\<rparr>
       in if pm_freeList s2 = 0 then pm_unlock (s2\<lparr>pm_freeList := base\<rparr>)
          else obind (of_option Diverges (find_slot (mem s2) base 0 (pm_freeList s2))) (\<lambda>(prev, next).
                 pm_unlock (s2\<lparr>mem := link_chunk PageSize (mem s2) base numPages prev next\<rparr>)))"

definition freePage :: "u64 \<Rightarrow> 'a pm_state_scheme \<Rightarrow> 'a pm_state_scheme outcome" where
  "freePage v s = freePages v 1 s"

definition freeRange :: "u64 \<Rightarrow> u64 \<Rightarrow> 'a pm_state_scheme \<Rightarrow> 'a pm_state_scheme outcome" where
  "freeRange start stop s = freePages start ((stop - start) div PageSize) s"

definition allocatePages :: "u64 \<Rightarrow> 'a pm_state_scheme \<Rightarrow> (u64 \<times> 'a pm_state_scheme) outcome" where
  "allocatePages numPages s =
     obind (pm_lock s) (\<lambda>s1.
       obind (of_option Diverges (find_fit (mem s1) numPages (pm_freeList s1))) (\<lambda>chunk.
         if chunk = 0 then obind (pm_unlock s1) (\<lambda>s2. Inr (0, s2))
         else (let (m', fl') = take_chunk (mem s1) (pm_freeList s1) chunk numPages
               in obind (pm_unlock (s1\<lparr>mem := m', pm_freeList := fl'\<rparr>)) (\<lambda>s2.
                    Inr (chunk + PageSize * chunk_count (mem s2) chunk, s2)))))"

definition allocatePage :: "'a pm_state_scheme \<Rightarrow> (u64 \<times> 'a pm_state_scheme) outcome" where
  "allocatePage s = allocatePages 1 s"

definition toPhysical :: "'a pm_state_scheme \<Rightarrow> u64 \<Rightarrow> u64" where
  "toPhysical s addr = addr - HigherHalfDirectMapOffset s"

definition toVirtual :: "'a pm_state_scheme \<Rightarrow> u64 \<Rightarrow> u64" where
  "toVirtual s addr = addr + HigherHalfDirectMapOffset s"

section \<open>The lock protocol\<close>

lemma PageSize_val [simp]: "PageSize = 4096"
  by (simp add: PageSize_def PageShift_def)

text \<open>The calls can get past the lock: it is not in use, or it is free on a known processor.\<close>

definition pm_ready :: "'a pm_state_scheme \<Rightarrow> bool" where
  "pm_ready s \<longleftrightarrow> usingLock s \<longrightarrow> lock_held (pm_lockword s) = 0 \<and> thisCPU s \<noteq> None"

text \<open>The parts of the state that the calls leave alone, the lock as long as it is not in use.\<close>

definition pm_same :: "'a pm_state_scheme \<Rightarrow> 'a pm_state_scheme \<Rightarrow> bool" where
  "pm_same s s' \<longleftrightarrow> thisCPU s' = thisCPU s \<and> HigherHalfDirectMapOffset s' = HigherHalfDirectMapOffset s
     \<and> pm_state.more s' = pm_state.more s \<and> outb_log s' = outb_log s \<and> lapicIDReg s' = lapicIDReg s
     \<and> (\<not> usingLock s \<longrightarrow> pm_lockword s' = pm_lockword s)"

lemma cli_neutral_pm [simp]:
  "pm_lockword (cli_neutral s) = pm_lockword s" "pm_freeList (cli_neutral s) = pm_freeList s"
  "HigherHalfDirectMapOffset (cli_neutral s) = HigherHalfDirectMapOffset s"
  "pm_state.more (cli_neutral s) = pm_state.more s"
  by (auto simp: cli_neutral_def cli_def split: option.splits)

lemma thisCPU_pm [simp]:
  "thisCPU (s\<lparr>pm_lockword := w\<rparr>) = thisCPU s" "thisCPU (s\<lparr>pm_freeList := f\<rparr>) = thisCPU s"
  "thisCPU (s\<lparr>mem := m\<rparr>) = thisCPU s"
  by (simp_all add: thisCPU_def lapicID_def)

lemma usingLock_simps [simp]:
  "usingLock (s\<lparr>mem := m\<rparr>) = usingLock s" "usingLock (s\<lparr>pm_freeList := f\<rparr>) = usingLock s"
  "usingLock (s\<lparr>pm_lockword := lock_set_held h (pm_lockword s)\<rparr>) = usingLock s"
  "\<not> usingLock (s\<lparr>pm_lockword := 0\<rparr>)" "usingLock (cli_neutral s) = usingLock s"
  by (simp_all add: usingLock_def)

lemma pm_lock_ready:
  assumes "pm_ready s"
  shows "\<exists>s1. pm_lock s = Inr s1 \<and> mem s1 = mem s \<and> pm_freeList s1 = pm_freeList s
    \<and> usingLock s1 = usingLock s \<and> pm_same s s1"
proof (cases "usingLock s")
  case True
  then obtain i where "thisCPU s = Some i" and "lock_held (pm_lockword s) = 0"
    using assms by (auto simp: pm_ready_def)
  then show ?thesis using True
    by (simp add: pm_lock_def kernel_simps pm_same_def) (simp add: usingLock_def)
qed (simp add: pm_lock_def pm_same_def)

lemma pm_unlock_ready:
  assumes "thisCPU s \<noteq> None \<or> \<not> usingLock s"
  shows "\<exists>s1. pm_unlock s = Inr s1 \<and> mem s1 = mem s \<and> pm_freeList s1 = pm_freeList s
    \<and> \<not> usingLock s1 \<and> pm_same s s1"
  using assms by (cases "usingLock s") (auto simp: pm_unlock_def kernel_simps pm_same_def)

section \<open>Allocation is first fit\<close>

text \<open>\<open>pm_holds s xs\<close>: the calls get past the lock and memory holds the free list \<open>xs\<close>.\<close>

definition pm_holds :: "'a pm_state_scheme \<Rightarrow> (u64 \<times> u64) list \<Rightarrow> bool" where
  "pm_holds s xs \<longleftrightarrow> pm_ready s \<and> dll (mem s) 0 (pm_freeList s) xs \<and> wf_chunks 4096 xs"

lemma wf_fit_rest: "wf_chunks 4096 xs \<Longrightarrow> wf_chunks 4096 (fit_rest k xs)"
proof -
  have mono: "\<forall>y \<in> set xs. b \<le> unat (fst y) \<Longrightarrow> \<forall>y \<in> set (fit_rest k xs). b \<le> unat (fst y)"
    for b k and xs :: "(u64 \<times> u64) list"
    using fit_rest_fst[of k xs] by force
  show "wf_chunks 4096 xs \<Longrightarrow> wf_chunks 4096 (fit_rest k xs)"
  proof (induction xs)
    case (Cons x xs)
    obtain a n where x: "x = (a, n)" by (cases x)
    show ?case
    proof (cases "k \<le> n")
      case True
      then have "unat (n - k) = unat n - unat k" by (simp add: unat_sub)
      moreover have "n \<noteq> k \<Longrightarrow> 0 < unat n - unat k"
        using True by (metis order_le_less word_less_nat_alt zero_less_diff)
      ultimately show ?thesis
        using Cons.prems x True by (auto simp: wf_chunks_Cons chunk_end_def)
    next
      case False
      then show ?thesis using Cons x mono[of xs "chunk_end 4096 x" k] by (auto simp: wf_chunks_Cons)
    qed
  qed simp
qed

lemma allocatePages_dll:
  assumes ready: "pm_ready s" and d: "dll (mem s) 0 (pm_freeList s) xs" and h: "hdrs_apart xs"
  shows "\<exists>s'. allocatePages k s = Inr (fit_addr 4096 k xs, s') \<and> pm_ready s'
    \<and> dll (mem s') 0 (pm_freeList s') (fit_rest k xs)
    \<and> hdr_frame (mem s) (mem s') xs \<and> \<not> usingLock s' \<and> pm_same s s'"
proof -
  obtain s1 where s1: "pm_lock s = Inr s1" "mem s1 = mem s" "pm_freeList s1 = pm_freeList s"
    "usingLock s1 = usingLock s" "pm_same s s1"
    using pm_lock_ready[OF ready] by blast
  have cpu: "thisCPU t \<noteq> None \<or> \<not> usingLock t" if "thisCPU t = thisCPU s" "usingLock t = usingLock s"
    for t using that ready by (auto simp: pm_ready_def)
  obtain l where l: "dseg (mem s) 0 (pm_freeList s) xs l 0" using d by (auto simp: dll_def)
  note find = find_fit_dseg[OF l, of k]
  show ?thesis
  proof (cases "List.find (\<lambda>x. k \<le> snd x) xs")
    case None
    obtain s2 where s2: "pm_unlock s1 = Inr s2" "mem s2 = mem s1" "pm_freeList s2 = pm_freeList s1"
      "\<not> usingLock s2" "pm_same s1 s2"
      using pm_unlock_ready[of s1] cpu[of s1] s1 by (auto simp: pm_same_def)
    have "fit_rest k xs = xs" using None by (simp add: find_None fit_rest_none)
    then show ?thesis
      using None s1 s2 find d
      by (auto simp: allocatePages_def fit_addr_def pm_ready_def pm_same_def)
  next
    case (Some x)
    obtain a n where x: "x = (a, n)" by (cases x)
    obtain ys zs where xs: "xs = ys @ (a, n) # zs" and k: "k \<le> n" and ys: "\<forall>y \<in> set ys. \<not> k \<le> snd y"
      using find_split[OF Some] x by auto
    obtain m' fl' where t: "take_chunk (mem s) (pm_freeList s) a k = (m', fl')"
      "dll m' 0 fl' (fit_rest k xs)" "hdr_frame (mem s) m' xs" "chunk_count m' a = n - k"
      using take_chunk_dseg[of "mem s" "pm_freeList s" ys a n zs l k] l h xs
      by (auto simp: fit_rest_split[OF ys k])
    obtain s2 where s2: "pm_unlock (s1\<lparr>mem := m', pm_freeList := fl'\<rparr>) = Inr s2" "mem s2 = m'"
      "pm_freeList s2 = fl'" "\<not> usingLock s2" "pm_same (s1\<lparr>mem := m', pm_freeList := fl'\<rparr>) s2"
      using pm_unlock_ready[of "s1\<lparr>mem := m', pm_freeList := fl'\<rparr>"] cpu[of s1] s1
      by (auto simp: pm_same_def)
    have "a \<noteq> 0" using l xs by (auto simp: dseg_append)
    then show ?thesis
      using Some x s1 s2 t find
      by (auto simp: allocatePages_def fit_addr_def pm_ready_def pm_same_def)
  qed
qed

lemma allocatePages_holds:
  assumes "pm_holds s xs"
  shows "\<exists>s'. allocatePages k s = Inr (fit_addr 4096 k xs, s') \<and> pm_holds s' (fit_rest k xs)
    \<and> hdr_frame (mem s) (mem s') xs \<and> \<not> usingLock s' \<and> pm_same s s'"
  using assms allocatePages_dll[of s xs k] wf_chunks_hdrs_apart[of 4096 xs] wf_fit_rest[of xs k]
  by (auto simp: pm_holds_def)

interpretation pm: first_fit_allocator 4096 "\<lambda>s k. allocatePages k s" pm_holds
proof unfold_locales
  fix s :: "'a pm_state_scheme" and xs k
  assume "pm_holds s xs"
  then show "\<exists>s'. allocatePages k s = Inr (fit_addr (of_nat 4096) k xs, s') \<and> pm_holds s' (fit_rest k xs)"
    using allocatePages_holds[of s xs k] by auto
qed (auto simp: pm_holds_def)

section \<open>Freeing\<close>

text \<open>
  The state after the first part of \<^verbatim>\<open>freePages\<close>: lock taken, block zeroed, its page count stored.
\<close>

definition pm_prepare :: "u64 \<Rightarrow> u64 \<Rightarrow> memory \<Rightarrow> memory" where
  "pm_prepare base n m = set_count (fst (memset m base 0 (PageSize * n))) base n"

lemma unat_pages:
  assumes "chunk_end 4096 (base, n) \<le> 2 ^ 64" and "base \<noteq> 0"
  shows "unat (4096 * n) = 4096 * unat n"
proof -
  have "0 < unat base" using assms(2) by (simp add: unat_gt_0)
  then show ?thesis using assms(1) by (simp add: unat_word_ariths(2) chunk_end_def)
qed

lemma chunk_end_word:
  "chunk_end 4096 (a, n) < 2 ^ 64 \<Longrightarrow> unat (a + 4096 * n) = chunk_end 4096 (a, n)"
  by (simp add: unat_word_ariths chunk_end_def)

lemma pm_prepare_hdrs:
  assumes wf: "wf_chunks 4096 (ys @ (base, n) # zs)" and b: "base \<noteq> 0"
  shows "x \<in> set ys \<union> set zs \<Longrightarrow> hdr_eq m (pm_prepare base n m) (fst x)"
    and "chunk_count (pm_prepare base n m) base = n"
    and "chunk_next (pm_prepare base n m) base = 0" "chunk_prev (pm_prepare base n m) base = 0"
proof -
  have e: "chunk_end 4096 (base, n) \<le> 2 ^ 64" "24 \<le> 4096 * unat n"
    using wf by (auto simp: wf_chunks_append wf_chunks_Cons)
  note un = unat_pages[OF e(1) b]
  show "hdr_eq m (pm_prepare base n m) (fst x)" if x: "x \<in> set ys \<union> set zs"
  proof -
    have xe: "24 \<le> 4096 * unat (snd x)" "chunk_end 4096 x \<le> 2 ^ 64"
      "chunk_end 4096 x \<le> unat base \<or> chunk_end 4096 (base, n) \<le> unat (fst x)"
      using wf x unfolding wf_chunks_append wf_chunks_Cons by (auto simp: wf_chunks_def)
    then have "apart base (unat (4096 * n)) (fst x) 24"
      using e un by (subst apart_nat) (auto simp: chunk_end_def)
    moreover have "hdr_apart base (fst x)"
      using wf_chunks_hdrs_apart[OF wf] x hdr_apart_sym by auto
    ultimately show ?thesis
      unfolding pm_prepare_def PageSize_val by (meson frame_simps hdr_eq_trans)
  qed
  show "chunk_count (pm_prepare base n m) base = n" by (simp add: pm_prepare_def)
  show "chunk_next (pm_prepare base n m) base = 0" "chunk_prev (pm_prepare base n m) base = 0"
    using memset_hdr_zero[of "4096 * n" m base] e(2) un by (simp_all add: pm_prepare_def)
qed

lemma freePages_unfold:
  assumes "pm_ready s"
  shows "\<exists>s1. mem s1 = mem s \<and> pm_freeList s1 = pm_freeList s \<and> pm_same s s1
    \<and> (thisCPU s1 \<noteq> None \<or> \<not> usingLock s1)
    \<and> freePages base n s =
      (let m2 = pm_prepare base n (mem s)
       in if pm_freeList s = 0 then pm_unlock (s1\<lparr>mem := m2, pm_freeList := base\<rparr>)
          else obind (of_option Diverges (find_slot m2 base 0 (pm_freeList s))) (\<lambda>(prev, next).
                 pm_unlock (s1\<lparr>mem := link_chunk PageSize m2 base n prev next\<rparr>)))"
proof -
  obtain s1 where s1: "pm_lock s = Inr s1" "mem s1 = mem s" "pm_freeList s1 = pm_freeList s"
    "usingLock s1 = usingLock s" "pm_same s s1"
    using pm_lock_ready[OF assms] by blast
  then have "thisCPU s1 \<noteq> None \<or> \<not> usingLock s1" using assms by (auto simp: pm_ready_def pm_same_def)
  then show ?thesis using s1
    by (intro exI[of _ s1]) (simp add: freePages_def pm_prepare_def Let_def)
qed

lemma freePages_inserts_lemma:
  assumes hold: "pm_holds s (ys @ zs)" and wf: "wf_chunks 4096 (ys @ (base, n) # zs)" and b: "base \<noteq> 0"
    and ys: "ys = [] \<longleftrightarrow> ys @ zs = []"
    and gap_prev: "ys \<noteq> [] \<Longrightarrow> chunk_end 4096 (last ys) < unat base"
    and gap_next: "zs \<noteq> [] \<Longrightarrow> chunk_end 4096 (base, n) < unat (fst (hd zs))"
  shows "\<exists>s'. freePages base n s = Inr s' \<and> pm_holds s' (ys @ (base, n) # zs) \<and> \<not> usingLock s' \<and> pm_same s s'"
proof -
  have ready: "pm_ready s" and d: "dll (mem s) 0 (pm_freeList s) (ys @ zs)"
    using hold by (auto simp: pm_holds_def)
  obtain l where l: "dseg (mem s) 0 (pm_freeList s) (ys @ zs) l 0" using d by (auto simp: dll_def)
  let ?m2 = "pm_prepare base n (mem s)"
  note prep = pm_prepare_hdrs[OF wf b, where m = "mem s"]
  have d2: "dseg ?m2 0 (pm_freeList s) (ys @ zs) l 0"
    using l dseg_cong[of "ys @ zs" "mem s" ?m2] prep(1) by simp
  obtain s1 where s1: "mem s1 = mem s" "pm_freeList s1 = pm_freeList s" "pm_same s s1"
    "thisCPU s1 \<noteq> None \<or> \<not> usingLock s1"
    and eq: "freePages base n s =
      (let m2 = ?m2
       in if pm_freeList s = 0 then pm_unlock (s1\<lparr>mem := m2, pm_freeList := base\<rparr>)
          else obind (of_option Diverges (find_slot m2 base 0 (pm_freeList s))) (\<lambda>(prev, next).
                 pm_unlock (s1\<lparr>mem := link_chunk PageSize m2 base n prev next\<rparr>)))"
    using freePages_unfold[OF ready] by blast
  have fin: "\<exists>s'. pm_unlock t = Inr s' \<and> pm_holds s' (ys @ (base, n) # zs) \<and> \<not> usingLock s' \<and> pm_same s s'"
    if "dll (mem t) 0 (pm_freeList t) (ys @ (base, n) # zs)" "pm_same s t" "thisCPU t \<noteq> None \<or> \<not> usingLock t" for t
    using pm_unlock_ready[OF that(3)] that(1,2) wf by (auto simp: pm_holds_def pm_ready_def pm_same_def usingLock_def)
  show ?thesis
  proof (cases "ys = []")
    case True
    have "zs = []" using ys True by simp
    then have "pm_freeList s = 0" using l True by simp
    then have "freePages base n s = pm_unlock (s1\<lparr>mem := ?m2, pm_freeList := base\<rparr>)"
      using eq by simp
    moreover have "dll ?m2 0 base (ys @ (base, n) # zs)"
      using True \<open>zs = []\<close> b prep(2,3,4) by (simp add: dll_def)
    ultimately show ?thesis
      using fin[of "s1\<lparr>mem := ?m2, pm_freeList := base\<rparr>"] s1(3,4) by (simp add: pm_same_def)
  next
    case False
    let ?next = "if zs = [] then 0 else fst (hd zs)" and ?prev = "fst (last ys)"
    have mem: "last ys \<in> set ys" "zs \<noteq> [] \<Longrightarrow> hd zs \<in> set zs" using False by auto
    have fl: "pm_freeList s \<noteq> 0"
      using dseg_head[OF l] dseg_nonzero[OF l, of "hd (ys @ zs)"] False by (cases ys) auto
    have "find_slot ?m2 base 0 (pm_freeList s) = Some (if ys = [] then 0 else fst (last ys), ?next)"
      by (rule find_slot_dseg[OF d2])
        (use wf gap_next in \<open>auto simp: wf_chunks_append wf_chunks_Cons chunk_end_def word_le_nat_alt word_less_nat_alt\<close>)
    moreover have "dll (link_chunk 4096 ?m2 base n ?prev ?next) 0 (pm_freeList s) (ys @ (base, n) # zs)"
    proof (rule link_chunk_dseg[OF d2 wf_chunks_hdrs_apart[OF wf] False b prep(2) refl])
      show "base + 4096 * n \<noteq> ?next" if "zs \<noteq> []"
        using chunk_end_word[of base n] gap_next[OF that] unat_lt64[of "fst (hd zs)"] that by auto
      show "fst (last ys) + 4096 * snd (last ys) \<noteq> base"
        using chunk_end_word[of "fst (last ys)" "snd (last ys)"] gap_prev[OF False] unat_lt64[of base] by auto
    qed
    moreover from calculation have "freePages base n s
        = pm_unlock (s1\<lparr>mem := link_chunk PageSize ?m2 base n ?prev ?next\<rparr>)"
      using eq False fl by simp
    ultimately show ?thesis
      using fin[of "s1\<lparr>mem := link_chunk PageSize ?m2 base n ?prev ?next\<rparr>"] s1(2,3,4)
      by (simp add: pm_same_def)
  qed
qed

lemma freePages_below_head_lemma:
  assumes hold: "pm_holds s xs" and xs: "xs \<noteq> []" and wf: "wf_chunks 4096 ((base, n) # xs)" and b: "base \<noteq> 0"
  shows "\<exists>s'. freePages base n s = Inr s' \<and> pm_freeList s' = pm_freeList s
    \<and> dll (mem s') base (pm_freeList s') xs"
proof -
  have ready: "pm_ready s" and d: "dll (mem s) 0 (pm_freeList s) xs"
    using hold by (auto simp: pm_holds_def)
  obtain l where l: "dseg (mem s) 0 (pm_freeList s) xs l 0" using d by (auto simp: dll_def)
  let ?m2 = "pm_prepare base n (mem s)"
  have d2: "dseg ?m2 0 (pm_freeList s) xs l 0"
    using l dseg_cong[of xs "mem s" ?m2] pm_prepare_hdrs(1)[of "[]" base n xs] wf b by simp
  have fl: "pm_freeList s \<noteq> 0" "pm_freeList s = fst (hd xs)"
    using dseg_head[OF l] dseg_nonzero[OF l, of "hd xs"] xs by auto
  have "base < fst (hd xs)"
    using wf xs unfolding wf_chunks_Cons chunk_end_def by (cases xs) (auto simp: word_less_nat_alt)
  then have slot: "find_slot ?m2 base 0 (pm_freeList s) = Some (0, pm_freeList s)"
    using find_slot_dseg[of ?m2 0 "pm_freeList s" "[]" xs l base] d2 xs fl by simp
  obtain s1 where s1: "pm_freeList s1 = pm_freeList s" "thisCPU s1 \<noteq> None \<or> \<not> usingLock s1"
    and eq: "freePages base n s = pm_unlock (s1\<lparr>mem := link_chunk PageSize ?m2 base n 0 (pm_freeList s)\<rparr>)"
    using freePages_unfold[OF ready, of base n] fl slot by (auto simp: Let_def)
  have "dseg (link_chunk 4096 ?m2 base n 0 (pm_freeList s)) base (pm_freeList s) xs l 0"
    using link_chunk_below_head[OF d2 wf_chunks_hdrs_apart[OF wf] xs] .
  then show ?thesis
    unfolding eq using pm_unlock_ready[of "s1\<lparr>mem := link_chunk PageSize ?m2 base n 0 (pm_freeList s)\<rparr>"] s1
    by (auto simp: dll_def)
qed

lemma freePages_after_single:
  assumes hold: "pm_holds s [(a, n)]" and wf: "wf_chunks 4096 [(a, n), (a + 4096 * n, k)]" and b: "a + 4096 * n \<noteq> 0"
  shows "\<exists>s'. freePages (a + 4096 * n) k s = Inr s' \<and> pm_ready s'
    \<and> dll (mem s') 0 (pm_freeList s') [(a, n + k), (a + 4096 * n, k)]"
proof -
  let ?b = "a + 4096 * n" and ?m2 = "pm_prepare (a + 4096 * n) k (mem s)"
  have ready: "pm_ready s" and d: "dseg (mem s) 0 (pm_freeList s) [(a, n)] a 0"
    using hold by (auto simp: pm_holds_def dll_def)
  note prep = pm_prepare_hdrs[of "[(a, n)]" ?b k "[]", OF _ b, where m = "mem s"]
  have d2: "dseg ?m2 0 (pm_freeList s) ([(a, n)] @ []) a 0"
    using d prep(1)[of "(a, n)"] wf by (simp add: hdr_eq_def)
  have ab: "hdr_apart a ?b" "hdr_apart ?b a"
    using wf_chunks_hdrs_apart[OF wf] hdr_apart_sym by auto
  have "a \<le> ?b" using wf by (auto simp: wf_chunks_Cons chunk_end_def word_le_nat_alt)
  then have slot: "find_slot ?m2 ?b 0 (pm_freeList s) = Some (a, 0)"
    using find_slot_dseg[OF d2, of ?b] by simp
  have fl: "pm_freeList s = a" "a \<noteq> 0" using d by auto
  obtain s1 where s1: "pm_freeList s1 = a" "thisCPU s1 \<noteq> None \<or> \<not> usingLock s1"
    and eq: "freePages ?b k s = pm_unlock (s1\<lparr>mem := link_chunk PageSize ?m2 ?b k a 0\<rparr>)"
    using freePages_unfold[OF ready, of ?b k] fl slot by (auto simp: Let_def)
  have "dseg (link_chunk 4096 ?m2 ?b k a 0) 0 a [(a, n + k), (?b, k)] ?b 0"
    using d2 prep(2) wf fl b ab by (simp add: link_chunk_def Let_def frame_simps)
  then show ?thesis
    unfolding eq using pm_unlock_ready[of "s1\<lparr>mem := link_chunk PageSize ?m2 ?b k a 0\<rparr>"] s1
    by (auto simp: dll_def pm_ready_def)
qed

section \<open>Properties\<close>

text \<open>A state with two free chunks, built by the code from the empty allocator.\<close>

definition pm_boot_state :: "pm_state" where
  "pm_boot_state = \<lparr>mem = \<lambda>_. 0, CPUs = [], lapicIDReg = 0, rflags = 2, outb_log = [],
     pm_lockword = 0, pm_freeList = 0, HigherHalfDirectMapOffset = 0\<rparr>"

lemma pm_boot_holds: "pm_holds pm_boot_state []"
  by (simp add: pm_holds_def pm_boot_state_def pm_ready_def usingLock_def dll_def)

lemma pm_sample_single: "\<exists>s. freePages 0x1000 1 pm_boot_state = Inr s \<and> pm_holds s [(0x1000, 1)]"
  using freePages_inserts_lemma[of pm_boot_state "[]" "[]" "0x1000" 1] pm_boot_holds
  by (auto simp: wf_chunks_Cons chunk_end_def)

lemma pm_sample_two: "\<exists>s :: pm_state. pm_holds s [(0x1000, 1), (0x8000, 4)]"
proof -
  obtain s where s: "pm_holds (s :: pm_state) [(0x1000, 1)]" using pm_sample_single by blast
  show ?thesis
    using freePages_inserts_lemma[of s "[(0x1000, 1)]" "[]" "0x8000" 4] s
    by (auto simp: wf_chunks_Cons chunk_end_def)
qed

text \<open>
  C6. Allocation refines first fit: from any state whose memory holds a well-formed free list,
  \<^verbatim>\<open>allocatePages\<close> returns, its result is the end of the first chunk with enough pages (null when
  there is none), and the memory afterwards holds the list with exactly these pages taken off;
  outside of the headers of free chunks no byte changes.
\<close>

theorem allocatePages_refines_first_fit:
  assumes "pm_holds s xs"
  shows "\<exists>s'. allocatePages k s = Inr (fit_addr 4096 k xs, s') \<and> pm_holds s' (fit_rest k xs)
    \<and> hdr_frame (mem s) (mem s') xs"
  using allocatePages_holds[OF assms, of k] by blast

theorem allocatePages_refines_first_fit_witness:
  "\<exists>(s :: pm_state) s'. pm_holds s [(0x1000, 1), (0x8000, 4)] \<and> allocatePages 3 s = Inr (0x9000, s')
     \<and> pm_holds s' [(0x1000, 1), (0x8000, 1)]"
proof -
  obtain s where s: "pm_holds (s :: pm_state) [(0x1000, 1), (0x8000, 4)]" using pm_sample_two by blast
  have "fit_addr 4096 3 [(0x1000, 1), (0x8000, 4)] = 0x9000"
    "fit_rest 3 [(0x1000, 1), (0x8000, 4)] = [(0x1000, 1), (0x8000, 1)]"
    by (simp_all add: fit_addr_def word_le_nat_alt)
  then show ?thesis using allocatePages_refines_first_fit[OF s, of 3] s by auto
qed

text \<open>
  An allocation is safe: for a positive request, either no chunk is large enough, the result is
  null and the free memory stays what it was, or every byte of the block returned was free and
  exactly these bytes stop being free.
\<close>

theorem allocatePages_takes_free_memory:
  assumes "pm_holds s xs" and "k \<noteq> 0"
  shows "\<exists>r s' xs'. allocatePages k s = Inr (r, s') \<and> pm_holds s' xs'
    \<and> (r = 0 \<and> (\<forall>x \<in> set xs. snd x < k) \<and> xs' = xs
       \<or> r \<noteq> 0 \<and> block 4096 r k \<subseteq> list_bytes 4096 xs
         \<and> list_bytes 4096 xs' = list_bytes 4096 xs - block 4096 r k)"
proof (cases "\<exists>x \<in> set xs. k \<le> snd x")
  case False
  then have "List.find (\<lambda>x. k \<le> snd x) xs = None" by (simp add: find_None)
  then show ?thesis
    using allocatePages_holds[OF assms(1), of k] False fit_rest_none[of xs k]
    by (auto simp: fit_addr_def not_le)
next
  case True
  have wf: "wf_chunks 4096 xs" using assms(1) by (simp add: pm_holds_def)
  obtain r s' where r: "allocatePages k s = Inr (r, s')" "pm_holds s' (fit_rest k xs)"
    "block 4096 r k \<subseteq> list_bytes 4096 xs"
    "list_bytes 4096 (fit_rest k xs) = list_bytes 4096 xs - block 4096 r k"
    using pm.alloc_block[OF assms True wf_fit_rest[OF wf]] by auto
  have "0 \<notin> list_bytes 4096 xs"
    using assms(1) dseg_nonzero[of "mem s" 0 "pm_freeList s" xs _ 0]
    by (fastforce simp: pm_holds_def dll_def list_bytes_def chunk_bytes_def unat_eq_0)
  moreover have "unat r \<in> block 4096 r k" using assms(2) by (simp add: block_def unat_gt_0)
  ultimately have "r \<noteq> 0" using r(3) by auto
  then show ?thesis using r by blast
qed

theorem allocatePages_takes_free_memory_witness:
  "\<exists>(s :: pm_state) r s' xs'. pm_holds s [(0x1000, 1), (0x8000, 4)] \<and> allocatePages 2 s = Inr (r, s')
     \<and> r \<noteq> 0 \<and> block 4096 r 2 \<subseteq> list_bytes 4096 [(0x1000, 1), (0x8000, 4)] \<and> pm_holds s' xs'"
proof -
  obtain s where s: "pm_holds (s :: pm_state) [(0x1000, 1), (0x8000, 4)]" using pm_sample_two by blast
  show ?thesis using allocatePages_takes_free_memory[OF s, of 2] s by (force simp: word_less_nat_alt)
qed

text \<open>
  C24. Any run of allocations that the free list can serve returns one block per request, all of
  them free at the start and no two of them overlapping.
\<close>

theorem allocatePages_run_disjoint:
  assumes "pm_holds s xs" and "feasible 4096 ks xs"
  shows "\<exists>rs s'. alloc_all (\<lambda>s k. allocatePages k s) s ks = Inr (rs, s') \<and> length rs = length ks
    \<and> (\<forall>i < length ks. block 4096 (rs ! i) (ks ! i) \<subseteq> list_bytes 4096 xs)
    \<and> (\<forall>i < length ks. \<forall>j < i. block 4096 (rs ! i) (ks ! i) \<inter> block 4096 (rs ! j) (ks ! j) = {})"
  using pm.alloc_all_disjoint[OF assms] .

theorem allocatePages_run_disjoint_witness:
  "\<exists>(s :: pm_state) rs s'. pm_holds s [(0x1000, 1), (0x8000, 4)]
     \<and> alloc_all (\<lambda>s k. allocatePages k s) s [2, 1, 2] = Inr (rs, s') \<and> length rs = 3
     \<and> block 4096 (rs ! 2) 2 \<inter> block 4096 (rs ! 0) 2 = {}"
proof -
  obtain s where s: "pm_holds (s :: pm_state) [(0x1000, 1), (0x8000, 4)]" using pm_sample_two by blast
  have f: "feasible 4096 [2, 1, 2] [(0x1000, 1), (0x8000, 4)]"
    by (simp add: wf_chunks_Cons chunk_end_def word_le_nat_alt)
  obtain rs s' where "alloc_all (\<lambda>s k. allocatePages k s) s [2, 1, 2] = Inr (rs, s')" "length rs = 3"
    "\<forall>i < 3. \<forall>j < i. block 4096 (rs ! i) ([2, 1, 2] ! i) \<inter> block 4096 (rs ! j) ([2, 1, 2] ! j) = {}"
    using allocatePages_run_disjoint[OF s f] by auto
  moreover from this(3)[rule_format, of 2 0] have "block 4096 (rs ! 2) 2 \<inter> block 4096 (rs ! 0) 2 = {}"
    by simp
  ultimately show ?thesis using s by blast
qed

text \<open>
  C25. Freeing a block of pages into a gap: above the first free chunk (or into an empty list), not
  adjacent to either neighbour and not overlapping any chunk, \<^verbatim>\<open>freePages\<close> returns and the memory
  holds the list with the block in its place, so its pages are free and nothing else changes.
\<close>

theorem freePages_inserts:
  assumes "pm_holds s (ys @ zs)" and "wf_chunks 4096 (ys @ (base, n) # zs)" and "base \<noteq> 0"
    and "ys = [] \<longleftrightarrow> ys @ zs = []"
    and "ys \<noteq> [] \<Longrightarrow> chunk_end 4096 (last ys) < unat base"
    and "zs \<noteq> [] \<Longrightarrow> chunk_end 4096 (base, n) < unat (fst (hd zs))"
  shows "\<exists>s'. freePages base n s = Inr s' \<and> pm_holds s' (ys @ (base, n) # zs)
    \<and> list_bytes 4096 (ys @ (base, n) # zs) = list_bytes 4096 (ys @ zs) \<union> block 4096 base n"
  using freePages_inserts_lemma[OF assms] by (auto simp: block_def chunk_bytes_def chunk_end_def)

theorem freePages_inserts_witness:
  "\<exists>(s :: pm_state) s'. pm_holds s [(0x1000, 1), (0x8000, 4)] \<and> freePages 0x4000 2 s = Inr s'
     \<and> pm_holds s' [(0x1000, 1), (0x4000, 2), (0x8000, 4)]"
proof -
  obtain s where s: "pm_holds (s :: pm_state) [(0x1000, 1), (0x8000, 4)]" using pm_sample_two by blast
  then show ?thesis
    using freePages_inserts[of s "[(0x1000, 1)]" "[(0x8000, 4)]" "0x4000" 2]
    by (auto simp: wf_chunks_Cons chunk_end_def)
qed

text \<open>
  C26. Freeing below the first free chunk loses the block: \<^verbatim>\<open>freePages\<close> never makes the block the new
  head of the list, so the list that allocations search is the one from before and none of the
  freed pages is in it.
\<close>

theorem freePages_below_head_loses_block:
  assumes "pm_holds s xs" and "xs \<noteq> []" and "wf_chunks 4096 ((base, n) # xs)" and "base \<noteq> 0"
  shows "\<exists>s'. freePages base n s = Inr s' \<and> pm_freeList s' = pm_freeList s
    \<and> dll (mem s') base (pm_freeList s') xs
    \<and> (\<forall>k. find_fit (mem s') k (pm_freeList s') = find_fit (mem s) k (pm_freeList s))
    \<and> list_bytes 4096 xs \<inter> block 4096 base n = {}"
proof -
  obtain s' where s': "freePages base n s = Inr s'" "pm_freeList s' = pm_freeList s"
    "dll (mem s') base (pm_freeList s') xs"
    using freePages_below_head_lemma[OF assms] by blast
  obtain l l' where l: "dseg (mem s') base (pm_freeList s') xs l 0" "dseg (mem s) 0 (pm_freeList s) xs l' 0"
    using s'(3) assms(1) by (auto simp: dll_def pm_holds_def)
  have "\<forall>k. find_fit (mem s') k (pm_freeList s') = find_fit (mem s) k (pm_freeList s)"
    using find_fit_dseg[OF l(1)] find_fit_dseg[OF l(2)] by simp
  moreover have "list_bytes 4096 xs \<inter> block 4096 base n = {}"
    using wf_chunks_disjoint[of 4096 "[(base, n)]" xs] assms(3)
    by (auto simp: block_def chunk_bytes_def chunk_end_def)
  ultimately show ?thesis using s' by blast
qed

theorem freePages_below_head_loses_block_witness:
  "\<exists>(s :: pm_state) s'. pm_holds s [(0x8000, 4)] \<and> freePages 0x1000 2 s = Inr s'
     \<and> find_fit (mem s') 1 (pm_freeList s') = find_fit (mem s) 1 (pm_freeList s)"
proof -
  obtain s where s: "pm_holds (s :: pm_state) [(0x8000, 4)]"
    using freePages_inserts_lemma[of pm_boot_state "[]" "[]" "0x8000" 4] pm_boot_holds
    by (auto simp: wf_chunks_Cons chunk_end_def)
  then show ?thesis
    using freePages_below_head_loses_block[of s "[(0x8000, 4)]" "0x1000" 2]
    by (auto simp: wf_chunks_Cons chunk_end_def)
qed

text \<open>
  C27. Freeing the page right behind a free page puts it into the list twice: merged into its
  predecessor and still linked as a chunk of its own. The three allocations that follow hand out
  the freed page, its predecessor, and the freed page again.
\<close>

theorem freePage_adjacent_double_allocation:
  assumes "pm_holds s [(a, 1)]" and "wf_chunks 4096 [(a, 1), (a + 4096, 1)]"
  shows "\<exists>s1 s2 s3 s4. freePage (a + 4096) s = Inr s1 \<and> allocatePage s1 = Inr (a + 4096, s2)
    \<and> allocatePage s2 = Inr (a, s3) \<and> allocatePage s3 = Inr (a + 4096, s4)"
proof -
  let ?b = "a + 4096"
  have "?b \<noteq> 0" using assms(2) by (auto simp: wf_chunks_Cons chunk_end_def)
  then obtain s1 where s1: "freePage ?b s = Inr s1" "pm_ready s1" "dll (mem s1) 0 (pm_freeList s1) [(a, 2), (?b, 1)]"
    using freePages_after_single[of s a 1 1] assms by (auto simp: freePage_def)
  have h: "hdrs_apart [(a, x), (?b, y)]" "hdrs_apart [(?b, y)]" for x y
    using wf_chunks_hdrs_apart[OF assms(2)] by auto
  have le: "(1 :: u64) \<le> 2" by (simp add: word_le_nat_alt)
  obtain s2 where s2: "allocatePage s1 = Inr (?b, s2)" "pm_ready s2" "dll (mem s2) 0 (pm_freeList s2) [(a, 1), (?b, 1)]"
    using allocatePages_dll[OF s1(2,3) h(1), of 1] le by (auto simp: allocatePage_def fit_addr_def)
  obtain s3 where s3: "allocatePage s2 = Inr (a, s3)" "pm_ready s3" "dll (mem s3) 0 (pm_freeList s3) [(?b, 1)]"
    using allocatePages_dll[OF s2(2,3) h(1), of 1] by (auto simp: allocatePage_def fit_addr_def)
  obtain s4 where "allocatePage s3 = Inr (?b, s4)"
    using allocatePages_dll[OF s3(2,3) h(2), of 1] by (auto simp: allocatePage_def fit_addr_def)
  then show ?thesis using s1(1) s2(1) s3(1) by blast
qed

theorem freePage_adjacent_double_allocation_witness:
  "\<exists>s0 s1 s2 s3 s4. freePage 0x1000 pm_boot_state = Inr s0 \<and> freePage 0x2000 s0 = Inr s1
     \<and> allocatePage s1 = Inr (0x2000, s2) \<and> allocatePage s2 = Inr (0x1000, s3)
     \<and> allocatePage s3 = Inr (0x2000, s4)"
proof -
  obtain s where s: "freePages 0x1000 1 pm_boot_state = Inr s" "pm_holds s [(0x1000, 1)]"
    using pm_sample_single by blast
  then show ?thesis
    using freePage_adjacent_double_allocation[OF s(2)]
    by (auto simp: freePage_def wf_chunks_Cons chunk_end_def)
qed

lemma pm_unlock_not_using: "pm_unlock s = Inr s' \<Longrightarrow> \<not> usingLock s'"
  by (auto simp: pm_unlock_def Spinlock_release_def obind_eq_Inr_iff movl_zero_def split: if_splits)

text \<open>
  C28. \<^verbatim>\<open>thereIsNowMoreThanOneProcessor\<close> turns locking on, and the first allocator call that takes
  the lock turns it off again: the four-byte store of the lock's release also clears
  \<^verbatim>\<open>usingLock\<close>. After any \<^verbatim>\<open>allocatePages\<close> or \<^verbatim>\<open>freePages\<close> that returned, the lock is not in use.
\<close>

theorem page_lock_switched_off:
  "usingLock (thereIsNowMoreThanOneProcessor s)
   \<and> (allocatePages k s = Inr (r, s') \<longrightarrow> \<not> usingLock s')
   \<and> (freePages base n s = Inr s'' \<longrightarrow> \<not> usingLock s'')"
proof (intro conjI impI)
  have "bit (ucast (drop_bit 16 (set_usingLock True (pm_lockword s))) :: u8) 0"
    by (simp add: set_usingLock_def bit_simps)
  then show "usingLock (thereIsNowMoreThanOneProcessor s)"
    by (auto simp: usingLock_def thereIsNowMoreThanOneProcessor_def)
next
  assume "allocatePages k s = Inr (r, s')"
  then show "\<not> usingLock s'"
    by (auto simp: allocatePages_def obind_eq_Inr_iff split: if_splits prod.splits
        dest: pm_unlock_not_using)
next
  assume "freePages base n s = Inr s''"
  then show "\<not> usingLock s''"
    by (auto simp: freePages_def obind_eq_Inr_iff Let_def split: if_splits prod.splits
        dest: pm_unlock_not_using)
qed

theorem page_lock_switched_off_witness:
  "\<exists>s'. allocatePages 1 (thereIsNowMoreThanOneProcessor
       (pm_boot_state\<lparr>CPUs := [zero_CPUState]\<rparr>)) = Inr (0, s') \<and> \<not> usingLock s'"
proof -
  let ?s = "thereIsNowMoreThanOneProcessor (pm_boot_state\<lparr>CPUs := [zero_CPUState]\<rparr>)"
  have "pm_holds ?s []"
    by (simp add: pm_holds_def dll_def pm_ready_def thereIsNowMoreThanOneProcessor_def
        pm_boot_state_def set_usingLock_def lock_held_def thisCPU_def lapicID_def zero_CPUState_def)
  then obtain s' where "allocatePages 1 ?s = Inr (0, s')"
    using allocatePages_holds[of ?s "[]" 1] by (auto simp: fit_addr_def)
  then show ?thesis using page_lock_switched_off[of ?s 1 0 s'] by blast
qed

end
