(* ===== verification/Printf.thy ===== *)
theory Printf
  imports Printf_Float Physical_Memory
begin

text \<open>
  The format interpreter \<^verbatim>\<open>_vsnprintf\<close> of \<^verbatim>\<open>src/Kernel/printf.c\<close>, the functions of \<^verbatim>\<open>printf.h\<close>
  on top of it and the log lock of \<^verbatim>\<open>PrintfImplementation.cpp\<close>. The variable arguments are a list
  of tagged values; fetching one of another type than the one passed, which C leaves undefined, is
  an error, and so is running past the end of the format. The lemmas show that the
  interpreter feeds one list of characters to whatever output function it has, what
  \<^verbatim>\<open>snprintf_\<close> leaves in memory, and what the common conversions print.
\<close>

section \<open>Arguments\<close>

text \<open>\<^verbatim>\<open>long\<close>, \<^verbatim>\<open>long long\<close> and the unsigned variants share the 64-bit slot.\<close>

datatype printf_arg = ArgInt u32 | ArgLong u64 | ArgDouble double | ArgStr string | ArgPtr u64

fun va_int :: "printf_arg list \<Rightarrow> (u32 \<times> printf_arg list) outcome" where
  "va_int (ArgInt v # va) = Inr (v, va)" | "va_int va = Inl BadArgument"

fun va_long :: "printf_arg list \<Rightarrow> (u64 \<times> printf_arg list) outcome" where
  "va_long (ArgLong v # va) = Inr (v, va)" | "va_long va = Inl BadArgument"

fun va_double :: "printf_arg list \<Rightarrow> (double \<times> printf_arg list) outcome" where
  "va_double (ArgDouble v # va) = Inr (v, va)" | "va_double va = Inl BadArgument"

fun va_str :: "printf_arg list \<Rightarrow> (string \<times> printf_arg list) outcome" where
  "va_str (ArgStr p # va) = Inr (p, va)" | "va_str va = Inl BadArgument"

fun va_ptr :: "printf_arg list \<Rightarrow> (u64 \<times> printf_arg list) outcome" where
  "va_ptr (ArgPtr p # va) = Inr (p, va)" | "va_ptr va = Inl BadArgument"

section \<open>Parsing a directive\<close>

fun parse_flags :: "u32 \<Rightarrow> string \<Rightarrow> u32 \<times> string" where
  "parse_flags flags [] = (flags, [])"
| "parse_flags flags (c # cs) =
     (if c = CHR ''0'' then parse_flags (flags OR FLAGS_ZEROPAD) cs
      else if c = CHR ''-'' then parse_flags (flags OR FLAGS_LEFT) cs
      else if c = CHR ''+'' then parse_flags (flags OR FLAGS_PLUS) cs
      else if c = CHR '' '' then parse_flags (flags OR FLAGS_SPACE) cs
      else if c = CHR ''#'' then parse_flags (flags OR FLAGS_HASH) cs
      else (flags, c # cs))"

definition parse_width ::
  "u32 \<Rightarrow> string \<Rightarrow> printf_arg list \<Rightarrow> (u32 \<times> u32 \<times> string \<times> printf_arg list) outcome" where
  "parse_width flags fmt va =
     (if is_digit (deref fmt) then let (width, fmt') = atoi fmt in Inr (flags, width, fmt', va)
      else if deref fmt = CHR ''*'' then
        obind (va_int va) (\<lambda>(w, va').
          if sint w < 0 then Inr (flags OR FLAGS_LEFT, - w, tl fmt, va')
          else Inr (flags, w, tl fmt, va'))
      else Inr (flags, 0, fmt, va))"

definition parse_precision ::
  "u32 \<Rightarrow> string \<Rightarrow> printf_arg list \<Rightarrow> (u32 \<times> u32 \<times> string \<times> printf_arg list) outcome" where
  "parse_precision flags fmt va =
     (if deref fmt = CHR ''.'' then
        let flags' = flags OR FLAGS_PRECISION; fmt1 = tl fmt
        in if is_digit (deref fmt1) then
             let (precision, fmt') = atoi fmt1 in Inr (flags', precision, fmt', va)
           else if deref fmt1 = CHR ''*'' then
             obind (va_int va) (\<lambda>(prec, va').
               Inr (flags', if 0 < sint prec then prec else 0, tl fmt1, va'))
           else Inr (flags', 0, fmt1, va)
      else Inr (flags, 0, fmt, va))"

text \<open>On x86-64 \<^verbatim>\<open>ptrdiff_t\<close>, \<^verbatim>\<open>intmax_t\<close> and \<^verbatim>\<open>size_t\<close> are as large as \<^verbatim>\<open>long\<close>.\<close>

definition parse_length :: "u32 \<Rightarrow> string \<Rightarrow> u32 \<times> string" where
  "parse_length flags fmt =
     (if deref fmt = CHR ''l'' then
        let flags1 = flags OR FLAGS_LONG; fmt1 = tl fmt
        in if deref fmt1 = CHR ''l'' then (flags1 OR FLAGS_LONG_LONG, tl fmt1) else (flags1, fmt1)
      else if deref fmt = CHR ''h'' then
        let flags1 = flags OR FLAGS_SHORT; fmt1 = tl fmt
        in if deref fmt1 = CHR ''h'' then (flags1 OR FLAGS_CHAR, tl fmt1) else (flags1, fmt1)
      else if deref fmt = CHR ''t'' \<or> deref fmt = CHR ''j'' \<or> deref fmt = CHR ''z''
        then (flags OR FLAGS_LONG, tl fmt)
      else (flags, fmt))"

record directive =
  d_flags :: u32
  d_width :: u32
  d_precision :: u32
  d_format :: string
  d_va :: "printf_arg list"

text \<open>Everything between the percent sign and the conversion character.\<close>

definition parse_directive :: "string \<Rightarrow> printf_arg list \<Rightarrow> directive outcome" where
  "parse_directive fmt va =
     (let (flags, fmt1) = parse_flags 0 fmt
      in obind (parse_width flags fmt1 va) (\<lambda>(flags1, width, fmt2, va1).
           obind (parse_precision flags1 fmt2 va1) (\<lambda>(flags2, precision, fmt3, va2).
             let (flags3, fmt4) = parse_length flags2 fmt3
             in Inr \<lparr>d_flags = flags3, d_width = width, d_precision = precision, d_format = fmt4, d_va = va2\<rparr>)))"

section \<open>Conversions\<close>

definition int_base :: "char \<Rightarrow> u64" where
  "int_base c = (if c = CHR ''x'' \<or> c = CHR ''X'' then 16 else if c = CHR ''o'' then 8
                 else if c = CHR ''b'' then 2 else 10)"

definition int_flags :: "char \<Rightarrow> u32 \<Rightarrow> u32" where
  "int_flags c flags =
     (let f1 = (if int_base c = 10 then flags AND NOT FLAGS_HASH else flags);
          f2 = (if c = CHR ''X'' then f1 OR FLAGS_UPPERCASE else f1);
          f3 = (if c \<noteq> CHR ''i'' \<and> c \<noteq> CHR ''d'' then f2 AND NOT (FLAGS_PLUS OR FLAGS_SPACE) else f2)
      in if has f3 FLAGS_PRECISION then f3 AND NOT FLAGS_ZEROPAD else f3)"

text \<open>
  The magnitude and the sign of the integer argument. \<^verbatim>\<open>0 - value\<close> wraps around for the most
  negative value, as the compiled code does.
\<close>

definition int_argument ::
  "char \<Rightarrow> u32 \<Rightarrow> printf_arg list \<Rightarrow> (u64 \<times> bool \<times> printf_arg list) outcome" where
  "int_argument c flags va =
     (if c = CHR ''i'' \<or> c = CHR ''d'' then
        if has flags FLAGS_LONG_LONG \<or> has flags FLAGS_LONG then
          obind (va_long va) (\<lambda>(v, va'). Inr (if 0 < sint v then v else 0 - v, sint v < 0, va'))
        else
          obind (va_int va) (\<lambda>(a, va').
            let v = (if has flags FLAGS_CHAR then scast (ucast a :: u8)
                     else if has flags FLAGS_SHORT then scast (ucast a :: u16) else a)
            in Inr (ucast (if 0 < sint v then v else 0 - v), sint v < 0, va'))
      else
        if has flags FLAGS_LONG_LONG \<or> has flags FLAGS_LONG then
          obind (va_long va) (\<lambda>(v, va'). Inr (v, False, va'))
        else
          obind (va_int va) (\<lambda>(a, va').
            let v = (if has flags FLAGS_CHAR then ucast (ucast a :: u8)
                     else if has flags FLAGS_SHORT then ucast (ucast a :: u16) else a :: u32)
            in Inr (ucast v, False, va')))"

text \<open>The loop \<^verbatim>\<open>while ((*p != 0) && (!(flags & FLAGS_PRECISION) || precision--)) out(*(p++), ...)\<close>.\<close>

fun str_loop :: "'s out_fct_type \<Rightarrow> u64 \<Rightarrow> u64 \<Rightarrow> bool \<Rightarrow> string \<Rightarrow> nat \<Rightarrow> u64 \<times> 's \<Rightarrow> u64 \<times> 's" where
  "str_loop out buffer maxlen limited [] precision r = r"
| "str_loop out buffer maxlen limited (c # p) precision r =
     (if c \<noteq> CHR 0x00 \<and> (\<not> limited \<or> precision \<noteq> 0)
      then str_loop out buffer maxlen limited p (precision - 1) (put out buffer maxlen c r) else r)"

definition str_length :: "string \<Rightarrow> u32 \<Rightarrow> u32 \<Rightarrow> nat" where
  "str_length p flags precision =
     (let l = unat (of_nat (strnlen_s p (if precision \<noteq> 0 then unat precision else 2 ^ 64 - 1)) :: u32)
      in if has flags FLAGS_PRECISION then (if l < unat precision then l else unat precision) else l)"

definition float_fuel :: nat where "float_fuel = 4"

definition is_int_conv :: "char \<Rightarrow> bool" where
  "is_int_conv c \<longleftrightarrow> c \<in> {CHR ''d'', CHR ''i'', CHR ''u'', CHR ''x'', CHR ''X'', CHR ''o'', CHR ''b''}"

text \<open>
  The switch over the conversion character. The result is the rest of the format behind the
  conversion, the rest of the arguments, and the index with the output state. In the default case
  of an unfinished directive the code prints the terminator and steps over it.
\<close>

definition convert ::
  "'s out_fct_type \<Rightarrow> u64 \<Rightarrow> u64 \<Rightarrow> directive \<Rightarrow> u64 \<times> 's \<Rightarrow> (string \<times> printf_arg list \<times> u64 \<times> 's) outcome" where
  "convert out buffer maxlen d r =
     (let c = deref (d_format d); rest = tl (d_format d); width = d_width d; precision = d_precision d
      in if is_int_conv c then
           let flags = int_flags c (d_flags d)
           in obind (int_argument c flags (d_va d)) (\<lambda>(v, negative, va).
                Inr (rest, va,
                  if has flags FLAGS_LONG_LONG
                  then ntoa_long_long out buffer (fst r) maxlen v negative (int_base c) precision width flags (snd r)
                  else ntoa_long out buffer (fst r) maxlen v negative (int_base c) precision width flags (snd r)))
         else if c = CHR ''f'' \<or> c = CHR ''F'' then
           let flags = (if c = CHR ''F'' then d_flags d OR FLAGS_UPPERCASE else d_flags d)
           in obind (va_double (d_va d)) (\<lambda>(v, va).
                obind (ftoa float_fuel out buffer (fst r) maxlen v precision width flags (snd r)) (\<lambda>r'.
                  Inr (rest, va, r')))
         else if c \<in> {CHR ''e'', CHR ''E'', CHR ''g'', CHR ''G''} then
           let f1 = (if c = CHR ''g'' \<or> c = CHR ''G'' then d_flags d OR FLAGS_ADAPT_EXP else d_flags d);
               flags = (if c = CHR ''E'' \<or> c = CHR ''G'' then f1 OR FLAGS_UPPERCASE else f1)
           in obind (va_double (d_va d)) (\<lambda>(v, va).
                obind (etoa float_fuel out buffer (fst r) maxlen v precision width flags (snd r)) (\<lambda>r'.
                  Inr (rest, va, r')))
         else if c = CHR ''c'' then
           obind (va_int (d_va d)) (\<lambda>(v, va).
             let r1 = (if \<not> has (d_flags d) FLAGS_LEFT then pad_loop out buffer maxlen 1 (unat width) r else r);
                 r2 = put out buffer maxlen (char_of (unat (ucast v :: u8))) r1;
                 r3 = (if has (d_flags d) FLAGS_LEFT then pad_loop out buffer maxlen 1 (unat width) r2 else r2)
             in Inr (rest, va, r3))
         else if c = CHR ''s'' then
           obind (va_str (d_va d)) (\<lambda>(p, va).
             let l = str_length p (d_flags d) precision;
                 r1 = (if \<not> has (d_flags d) FLAGS_LEFT then pad_loop out buffer maxlen l (unat width) r else r);
                 r2 = str_loop out buffer maxlen (has (d_flags d) FLAGS_PRECISION) p (unat precision) r1;
                 r3 = (if has (d_flags d) FLAGS_LEFT then pad_loop out buffer maxlen l (unat width) r2 else r2)
             in Inr (rest, va, r3))
         else if c = CHR ''p'' then
           obind (va_ptr (d_va d)) (\<lambda>(v, va).
             Inr (rest, va, ntoa_long_long out buffer (fst r) maxlen v False 16 precision 16
                              (d_flags d OR FLAGS_ZEROPAD OR FLAGS_UPPERCASE) (snd r)))
         else if c = CHR ''%'' then Inr (rest, d_va d, put out buffer maxlen (CHR ''%'') r)
         else if d_format d = [] then Inl OutOfBounds
         else Inr (rest, d_va d, put out buffer maxlen c r))"

section \<open>The interpreter\<close>

lemma length_parse_flags: "parse_flags f fmt = (f', fmt') \<Longrightarrow> length fmt' \<le> length fmt"
  by (induction f fmt rule: parse_flags.induct) (auto split: if_splits)

lemma length_atoi: "length (snd (atoi fmt)) \<le> length fmt"
proof -
  have "length (snd (atoi_loop i fmt)) \<le> length fmt" for i
    by (induction i fmt rule: atoi_loop.induct) auto
  then show ?thesis by (simp add: atoi_def)
qed

lemma length_parse_width: "parse_width f fmt va = Inr (f', w, fmt', va') \<Longrightarrow> length fmt' \<le> length fmt"
  using length_atoi[of fmt]
  by (cases "is_digit (deref fmt)"; cases "deref fmt = CHR ''*''")
    (auto simp: parse_width_def obind_eq_Inr_iff split_beta split: if_splits)

lemma length_parse_precision:
  "parse_precision f fmt va = Inr (f', w, fmt', va') \<Longrightarrow> length fmt' \<le> length fmt"
proof -
  assume p: "parse_precision f fmt va = Inr (f', w, fmt', va')"
  have "length (snd (atoi (tl fmt))) \<le> length fmt" using length_atoi[of "tl fmt"] by simp
  then show ?thesis using p
    by (cases "deref fmt = CHR ''.''"; cases "is_digit (deref (tl fmt))"; cases "deref (tl fmt) = CHR ''*''")
      (auto simp: parse_precision_def obind_eq_Inr_iff split_beta Let_def)
qed

lemma parse_directive_shrinks: "parse_directive fmt va = Inr d \<Longrightarrow> length (d_format d) \<le> length fmt"
proof -
  assume p: "parse_directive fmt va = Inr d"
  obtain f fmt1 where f: "parse_flags 0 fmt = (f, fmt1)" by force
  obtain f1 w fmt2 va1 where w: "parse_width f fmt1 va = Inr (f1, w, fmt2, va1)"
    using p f by (auto simp: parse_directive_def obind_eq_Inr_iff)
  obtain f2 pr fmt3 va2 where pr: "parse_precision f1 fmt2 va1 = Inr (f2, pr, fmt3, va2)"
    using p f w by (auto simp: parse_directive_def obind_eq_Inr_iff)
  have "length fmt1 \<le> length fmt" using f by (rule length_parse_flags)
  moreover have "length fmt2 \<le> length fmt1"
    using w by (rule length_parse_width)
  moreover have "length fmt3 \<le> length fmt2"
    using pr by (rule length_parse_precision)
  moreover have "length (snd (parse_length f2 fmt3)) \<le> length fmt3"
    by (simp add: parse_length_def Let_def)
  moreover have "d_format d = snd (parse_length f2 fmt3)"
    using p f w pr by (auto simp: parse_directive_def split: prod.splits)
  ultimately show ?thesis by simp
qed

lemma convert_shrinks: "convert out buffer maxlen d r = Inr (fmt, va, r') \<Longrightarrow> length fmt \<le> length (d_format d)"
  by (auto simp: convert_def Let_def obind_eq_Inr_iff split: if_splits prod.splits)

lemma obind_cong [fundef_cong]:
  "r = r' \<Longrightarrow> (\<And>x. r' = Inr x \<Longrightarrow> f x = g x) \<Longrightarrow> obind r f = obind r' g"
  by (cases r') auto

function vs_loop ::
  "'s out_fct_type \<Rightarrow> u64 \<Rightarrow> u64 \<Rightarrow> string \<Rightarrow> printf_arg list \<Rightarrow> u64 \<times> 's \<Rightarrow> (u64 \<times> 's) outcome" where
  "vs_loop out buffer maxlen fmt va r =
     (if deref fmt = CHR 0x00 then Inr r
      else if deref fmt \<noteq> CHR ''%'' then
        vs_loop out buffer maxlen (tl fmt) va (put out buffer maxlen (deref fmt) r)
      else obind (parse_directive (tl fmt) va) (\<lambda>d.
             obind (convert out buffer maxlen d r) (\<lambda>(fmt', va', r').
               vs_loop out buffer maxlen fmt' va' r')))"
  by auto
termination
proof (relation "measure (\<lambda>(_, _, _, fmt, _, _). length fmt)", goal_cases)
  case (2 out buffer maxlen fmt va r)
  then show ?case by (cases fmt) (auto simp: deref_def)
next
  case (3 out buffer maxlen fmt va r d x fmt' y va' r')
  have "length fmt' \<le> length (d_format d)" using 3 by (auto dest: convert_shrinks)
  also have "\<dots> \<le> length (tl fmt)" using 3 by (auto dest: parse_directive_shrinks)
  finally have "length fmt' \<le> length (tl fmt)" .
  moreover have "fmt \<noteq> []" using 3 by (auto simp: deref_def)
  ultimately show ?case by (cases fmt) auto
qed simp

declare vs_loop.simps [simp del]

definition vsnprintf_out ::
  "'s out_fct_type \<Rightarrow> u64 \<Rightarrow> u64 \<Rightarrow> string \<Rightarrow> printf_arg list \<Rightarrow> 's \<Rightarrow> (u32 \<times> 's) outcome" where
  "vsnprintf_out out buffer maxlen format va s =
     (let out' = (if buffer = 0 then out_null else out)
      in obind (vs_loop out' buffer maxlen format va (0, s)) (\<lambda>(idx, s1).
           Inr (ucast idx, out' (CHR 0x00) buffer (if idx < maxlen then idx else maxlen - 1) maxlen s1)))"

section \<open>The functions of printf.h\<close>

text \<open>
  \<^verbatim>\<open>printf_\<close>, \<^verbatim>\<open>vprintf_\<close> and \<^verbatim>\<open>logfn\<close> pass the address of a local array as buffer, which is not null and
  which \<^verbatim>\<open>_out_char\<close> does not look at.
\<close>

definition local_buffer :: u64 where "local_buffer = 1"

definition printf :: "string \<Rightarrow> printf_arg list \<Rightarrow> 'a machine_scheme \<Rightarrow> (u32 \<times> 'a machine_scheme) outcome" where
  "printf format va s = vsnprintf_out out_char local_buffer (- 1) format va s"

definition vprintf :: "string \<Rightarrow> printf_arg list \<Rightarrow> 'a machine_scheme \<Rightarrow> (u32 \<times> 'a machine_scheme) outcome" where
  "vprintf format va s = vsnprintf_out out_char local_buffer (- 1) format va s"

definition sprintf :: "u64 \<Rightarrow> string \<Rightarrow> printf_arg list \<Rightarrow> memory \<Rightarrow> (u32 \<times> memory) outcome" where
  "sprintf buffer format va m = vsnprintf_out out_buffer buffer (- 1) format va m"

definition snprintf :: "u64 \<Rightarrow> u64 \<Rightarrow> string \<Rightarrow> printf_arg list \<Rightarrow> memory \<Rightarrow> (u32 \<times> memory) outcome" where
  "snprintf buffer count format va m = vsnprintf_out out_buffer buffer count format va m"

definition vsnprintf :: "u64 \<Rightarrow> u64 \<Rightarrow> string \<Rightarrow> printf_arg list \<Rightarrow> memory \<Rightarrow> (u32 \<times> memory) outcome" where
  "vsnprintf buffer count format va m = vsnprintf_out out_buffer buffer count format va m"

text \<open>\<^verbatim>\<open>fctprintf\<close> passes the address of a local structure that holds the function.\<close>

definition fctprintf :: "(char \<Rightarrow> 's \<Rightarrow> 's) \<Rightarrow> string \<Rightarrow> printf_arg list \<Rightarrow> 's \<Rightarrow> (u32 \<times> 's) outcome" where
  "fctprintf fct format va s = vsnprintf_out (out_fct fct) local_buffer (- 1) format va s"

record log_state = pm_state +
  logLock :: lock_word

definition initLogLock :: "'a log_state_scheme \<Rightarrow> 'a log_state_scheme" where
  "initLogLock s = s\<lparr>logLock := Spinlock_init (logLock s)\<rparr>"

definition lockLog :: "'a log_state_scheme \<Rightarrow> 'a log_state_scheme outcome" where
  "lockLog s = obind (Spinlock_acquire (logLock s) s) (\<lambda>(w, s1). Inr (s1\<lparr>logLock := w\<rparr>))"

definition unlockLog :: "'a log_state_scheme \<Rightarrow> 'a log_state_scheme outcome" where
  "unlockLog s = obind (Spinlock_release (logLock s) s) (\<lambda>(w, s1). Inr (s1\<lparr>logLock := w\<rparr>))"

text \<open>
  The body of \<^verbatim>\<open>logfn\<close>, with the output function that it hands to \<^verbatim>\<open>_vsnprintf\<close> as an argument, so that a property can
  say in which states it is called. \<^verbatim>\<open>logfn\<close> itself hands over \<^verbatim>\<open>_out_char\<close>.
\<close>

definition logfn_via ::
  "'a log_state_scheme out_fct_type \<Rightarrow> string \<Rightarrow> printf_arg list \<Rightarrow> 'a log_state_scheme \<Rightarrow> (u32 \<times> 'a log_state_scheme) outcome" where
  "logfn_via out format va s =
     obind (lockLog s) (\<lambda>s1.
       obind (vsnprintf_out out local_buffer (- 1) format va s1) (\<lambda>(ret, s2).
         obind (unlockLog s2) (\<lambda>s3. Inr (ret, s3))))"

definition logfn :: "string \<Rightarrow> printf_arg list \<Rightarrow> 'a log_state_scheme \<Rightarrow> (u32 \<times> 'a log_state_scheme) outcome" where
  "logfn format va s = logfn_via out_char format va s"

section \<open>The rendered text\<close>

text \<open>The characters of a conversion and of a whole format, without any output function.\<close>

definition pad_around :: "u32 \<Rightarrow> nat \<Rightarrow> nat \<Rightarrow> string \<Rightarrow> string" where
  "pad_around flags l width cs =
     (let pad = replicate (width - l) (CHR '' '') in if has flags FLAGS_LEFT then cs @ pad else pad @ cs)"

definition str_chars :: "bool \<Rightarrow> string \<Rightarrow> nat \<Rightarrow> string" where
  "str_chars limited p n =
     (let cs = takeWhile (\<lambda>c. c \<noteq> CHR 0x00) p in if limited then take n cs else cs)"

definition convert_chars :: "directive \<Rightarrow> (string \<times> printf_arg list \<times> string) outcome" where
  "convert_chars d =
     (let c = deref (d_format d); rest = tl (d_format d); width = d_width d; precision = d_precision d
      in if is_int_conv c then
           let flags = int_flags c (d_flags d)
           in obind (int_argument c flags (d_va d)) (\<lambda>(v, negative, va).
                Inr (rest, va, ntoa_chars v negative (int_base c) precision width flags))
         else if c = CHR ''f'' \<or> c = CHR ''F'' then
           let flags = (if c = CHR ''F'' then d_flags d OR FLAGS_UPPERCASE else d_flags d)
           in obind (va_double (d_va d)) (\<lambda>(v, va).
                obind (ftoa_chars float_fuel v precision width flags) (\<lambda>cs. Inr (rest, va, cs)))
         else if c \<in> {CHR ''e'', CHR ''E'', CHR ''g'', CHR ''G''} then
           let f1 = (if c = CHR ''g'' \<or> c = CHR ''G'' then d_flags d OR FLAGS_ADAPT_EXP else d_flags d);
               flags = (if c = CHR ''E'' \<or> c = CHR ''G'' then f1 OR FLAGS_UPPERCASE else f1)
           in obind (va_double (d_va d)) (\<lambda>(v, va).
                obind (etoa_chars float_fuel v precision width flags) (\<lambda>cs. Inr (rest, va, cs)))
         else if c = CHR ''c'' then
           obind (va_int (d_va d)) (\<lambda>(v, va).
             Inr (rest, va, pad_around (d_flags d) 1 (unat width) [char_of (unat (ucast v :: u8))]))
         else if c = CHR ''s'' then
           obind (va_str (d_va d)) (\<lambda>(p, va).
             Inr (rest, va, pad_around (d_flags d) (str_length p (d_flags d) precision) (unat width)
                              (str_chars (has (d_flags d) FLAGS_PRECISION) p (unat precision))))
         else if c = CHR ''p'' then
           obind (va_ptr (d_va d)) (\<lambda>(v, va).
             Inr (rest, va, ntoa_chars v False 16 precision 16 (d_flags d OR FLAGS_ZEROPAD OR FLAGS_UPPERCASE)))
         else if c = CHR ''%'' then Inr (rest, d_va d, ''%'')
         else if d_format d = [] then Inl OutOfBounds
         else Inr (rest, d_va d, [c]))"

lemma convert_chars_shrinks: "convert_chars d = Inr (fmt, va, cs) \<Longrightarrow> length fmt \<le> length (d_format d)"
  by (auto simp: convert_chars_def Let_def obind_eq_Inr_iff split: if_splits prod.splits)

function render :: "string \<Rightarrow> printf_arg list \<Rightarrow> string outcome" where
  "render fmt va =
     (if deref fmt = CHR 0x00 then Inr []
      else if deref fmt \<noteq> CHR ''%'' then obind (render (tl fmt) va) (\<lambda>cs. Inr (deref fmt # cs))
      else obind (parse_directive (tl fmt) va) (\<lambda>d.
             obind (convert_chars d) (\<lambda>(fmt', va', cs).
               obind (render fmt' va') (\<lambda>ds. Inr (cs @ ds)))))"
  by auto
termination
proof (relation "measure (\<lambda>(fmt, _). length fmt)", goal_cases)
  case (2 fmt va)
  then show ?case by (cases fmt) (auto simp: deref_def)
next
  case (3 fmt va d x fmt' y va' cs)
  have "length fmt' \<le> length (d_format d)" using 3 by (auto dest: convert_chars_shrinks)
  also have "\<dots> \<le> length (tl fmt)" using 3 by (auto dest: parse_directive_shrinks)
  finally have "length fmt' \<le> length (tl fmt)" .
  moreover have "fmt \<noteq> []" using 3 by (auto simp: deref_def)
  ultimately show ?case by (cases fmt) auto
qed simp

declare render.simps [simp del]

lemma str_loop_emits:
  "str_loop out buffer maxlen limited p n r = emits out buffer maxlen (str_chars limited p n) r"
  by (induction p arbitrary: n r) (auto simp: str_chars_def Let_def take_Cons')

lemma float_emits_fuel:
  "ftoa float_fuel out buffer idx maxlen val prec width flags s
     = obind (ftoa_chars float_fuel val prec width flags) (\<lambda>cs. Inr (emits out buffer maxlen cs (idx, s)))"
  "etoa float_fuel out buffer idx maxlen val prec width flags s
     = obind (etoa_chars float_fuel val prec width flags) (\<lambda>cs. Inr (emits out buffer maxlen cs (idx, s)))"
  using float_emits[of float_fuel out buffer idx maxlen s] by (simp_all add: float_fuel_def)

lemma pad_around_emits:
  "(let r1 = (if \<not> has flags FLAGS_LEFT then pad_loop out buffer maxlen l w r else r);
        r2 = emits out buffer maxlen cs r1
    in if has flags FLAGS_LEFT then pad_loop out buffer maxlen l w r2 else r2)
   = emits out buffer maxlen (pad_around flags l w cs) r"
  by (simp add: pad_around_def pad_loop_emits Let_def)

lemma convert_emits:
  "convert out buffer maxlen d r =
     obind (convert_chars d) (\<lambda>(fmt, va, cs). Inr (fmt, va, emits out buffer maxlen cs r))"
proof -
  let ?c = "deref (d_format d)"
  note defs = convert_def convert_chars_def Let_def
  consider (int) "is_int_conv ?c" | (f) "\<not> is_int_conv ?c" "?c = CHR ''f'' \<or> ?c = CHR ''F''"
    | (e) "\<not> is_int_conv ?c" "\<not> (?c = CHR ''f'' \<or> ?c = CHR ''F'')"
          "?c \<in> {CHR ''e'', CHR ''E'', CHR ''g'', CHR ''G''}"
    | (c) "?c = CHR ''c''" | (s) "?c = CHR ''s''"
    | (other) "\<not> is_int_conv ?c" "\<not> (?c = CHR ''f'' \<or> ?c = CHR ''F'')"
          "?c \<notin> {CHR ''e'', CHR ''E'', CHR ''g'', CHR ''G''}" "?c \<noteq> CHR ''c''" "?c \<noteq> CHR ''s''"
    by blast
  then show ?thesis
  proof cases
    case int
    then show ?thesis
      by (cases "int_argument ?c (int_flags ?c (d_flags d)) (d_va d)") (auto simp: defs ntoa_long_emits)
  next
    case f
    then show ?thesis
      by (cases "va_double (d_va d)") (auto simp: defs float_emits_fuel obind_assoc)
  next
    case e
    then show ?thesis
      by (cases "va_double (d_va d)") (simp_all add: defs float_emits_fuel obind_assoc split_beta)
  next
    case c
    then show ?thesis using pad_around_emits[of "d_flags d" out buffer maxlen 1]
      by (cases "va_int (d_va d)") (auto simp: defs is_int_conv_def pad_around_def pad_loop_emits)
  next
    case s
    then show ?thesis
      by (cases "va_str (d_va d)") (auto simp: defs is_int_conv_def pad_around_def pad_loop_emits str_loop_emits)
  next
    case other
    then show ?thesis
      by (cases "va_ptr (d_va d)") (auto simp: defs ntoa_long_emits)
  qed
qed

lemma vs_loop_emits:
  "vs_loop out buffer maxlen fmt va r =
     obind (render fmt va) (\<lambda>cs. Inr (emits out buffer maxlen cs r))"
proof (induction "length fmt" arbitrary: fmt va r rule: less_induct)
  case less
  show ?case
  proof (cases "deref fmt = CHR 0x00")
    case True
    then show ?thesis by (simp add: vs_loop.simps[of _ _ _ fmt] render.simps[of fmt])
  next
    case False
    then have ne: "fmt \<noteq> []" by (auto simp: deref_def)
    show ?thesis
    proof (cases "deref fmt = CHR ''%''")
      case True
      have "vs_loop out buffer maxlen fmt' va' r' = obind (render fmt' va') (\<lambda>cs. Inr (emits out buffer maxlen cs r'))"
        if "parse_directive (tl fmt) va = Inr d" and "convert_chars d = Inr (fmt', va', cs)" for d fmt' va' cs r'
        using parse_directive_shrinks[OF that(1)] convert_chars_shrinks[OF that(2)] ne
        by (intro less) (cases fmt; simp)
      note IH = this
      show ?thesis
      proof (cases "parse_directive (tl fmt) va")
        case (Inr d)
        show ?thesis
        proof (cases "convert_chars d")
          case (Inr x)
          obtain fmt' va' cs where x: "x = (fmt', va', cs)" by (cases x)
          show ?thesis
            using True Inr IH[OF \<open>parse_directive (tl fmt) va = Inr d\<close> Inr[unfolded x], of "emits out buffer maxlen cs r"]
              \<open>parse_directive (tl fmt) va = Inr d\<close>
            by (subst vs_loop.simps, subst render.simps) (simp add: x convert_emits obind_assoc)
        qed (use True Inr in \<open>subst vs_loop.simps, subst render.simps, simp add: convert_emits\<close>)
      qed (use True in \<open>subst vs_loop.simps, subst render.simps, simp\<close>)
    next
      case False
      have "vs_loop out buffer maxlen (tl fmt) va r' = obind (render (tl fmt) va) (\<lambda>cs. Inr (emits out buffer maxlen cs r'))" for r'
        using ne by (intro less) (cases fmt; simp)
      then show ?thesis using False \<open>deref fmt \<noteq> CHR 0x00\<close>
        by (subst vs_loop.simps, subst render.simps) (simp add: obind_assoc)
    qed
  qed
qed

section \<open>Properties of the interpreter\<close>

lemma vsnprintf_out_eq:
  "vsnprintf_out out buffer maxlen format va s =
     obind (render format va) (\<lambda>cs.
       let n = of_nat (length cs) :: u64
       in Inr (ucast n,
            if buffer = 0 then s
            else out (CHR 0x00) buffer (if n < maxlen then n else maxlen - 1) maxlen
                   (snd (emits out buffer maxlen cs (0, s)))))"
proof -
  have null: "emits out_null b ml cs (i, s) = (i + of_nat (length cs), s)" for b ml cs i and s :: 'a
    by (induction cs arbitrary: i) (simp_all add: put_def out_null_def algebra_simps)
  show ?thesis
    by (cases "render format va")
      (simp_all add: vsnprintf_out_def vs_loop_emits null out_null_def split_beta Let_def)
qed

text \<open>
  C33. The interpreter is the same for every output function: with a buffer it feeds exactly the
  rendered text, one call per character with consecutive indices, then the terminator at the end
  or at the last place of the buffer; with a null buffer it outputs nothing. Either way it returns
  the length of the rendered text, and where the rendering fails it fails.
\<close>

theorem vsnprintf_feeds_render:
  "vsnprintf_out out buffer maxlen format va s =
     obind (render format va) (\<lambda>cs.
       let n = of_nat (length cs) :: u64
       in Inr (ucast n,
            if buffer = 0 then s
            else out (CHR 0x00) buffer (if n < maxlen then n else maxlen - 1) maxlen
                   (snd (emits out buffer maxlen cs (0, s)))))"
  by (rule vsnprintf_out_eq)

lemma emits_out_buffer:
  assumes "i + length cs \<le> 2 ^ 64"
  shows "snd (emits out_buffer buffer maxlen cs (of_nat i, m)) x =
    (let j = unat (x - buffer)
     in if i \<le> j \<and> j < i + length cs \<and> j < unat maxlen then of_char (cs ! (j - i)) else m x)"
  using assms
proof (induction cs arbitrary: i m)
  case (Cons c cs)
  let ?m = "out_buffer c buffer (of_nat i) maxlen m"
  have i: "unat (of_nat i :: u64) = i" using Cons.prems by (intro unat_of_nat64) simp
  have "x = buffer + of_nat i \<longleftrightarrow> unat (x - buffer) = i"
    using Cons.prems by (intro offset_eq_iff) simp
  then have "?m x = (if unat (x - buffer) = i \<and> i < unat maxlen then of_char c else m x)"
    using i by (auto simp: out_buffer_def word_less_nat_alt)
  moreover have "snd (emits out_buffer buffer maxlen cs (of_nat (Suc i), ?m)) x =
    (let j = unat (x - buffer)
     in if Suc i \<le> j \<and> j < Suc i + length cs \<and> j < unat maxlen then of_char (cs ! (j - Suc i)) else ?m x)"
    using Cons.prems by (intro Cons.IH) simp
  ultimately show ?case
    by (auto simp: put_def Let_def nth_Cons' algebra_simps Suc_diff_le split: if_splits)
qed (auto simp: Let_def)

lemma snprintf_memory:
  assumes "render format va = Inr cs" and "buffer \<noteq> 0" and "length cs < 2 ^ 64"
  shows "\<exists>m'. snprintf buffer count format va m = Inr (of_nat (length cs), m')
    \<and> (count = 0 \<longrightarrow> m' = m)
    \<and> (count \<noteq> 0 \<longrightarrow> (\<forall>x. m' x =
        (let i = unat (x - buffer); k = min (length cs) (unat count - 1)
         in if i < k then of_char (cs ! i) else if i = k then 0 else m x)))"
proof -
  let ?n = "of_nat (length cs) :: u64"
  let ?m = "snd (emits out_buffer buffer count cs (0, m))"
  have n: "unat ?n = length cs" using assms(3) by (rule unat_of_nat64)
  have m: "?m x = (let j = unat (x - buffer)
      in if j < length cs \<and> j < unat count then of_char (cs ! j) else m x)" for x
    using emits_out_buffer[of 0 cs buffer count m x] assms(3) by (simp add: Let_def)
  have eq: "snprintf buffer count format va m
      = Inr (of_nat (length cs), out_buffer (CHR 0x00) buffer (if ?n < count then ?n else count - 1) count ?m)"
    using assms by (simp add: snprintf_def vsnprintf_out_eq Let_def)
  show ?thesis
  proof (cases "count = 0")
    case True
    then have "?m = m" using m by (simp add: fun_eq_iff)
    then show ?thesis using eq True by (simp add: out_buffer_def)
  next
    case False
    let ?k = "min (length cs) (unat count - 1)"
    let ?i = "if ?n < count then ?n else count - 1"
    have c: "unat (count - 1) = unat count - 1" "0 < unat count"
      using False by (simp_all add: unat_minus_one unat_gt_0)
    then have i: "?i = of_nat ?k" "?k < unat count" "?k < 2 ^ 64"
      using n assms(3) by (auto simp: word_less_nat_alt min_def simp flip: word_unat_eq_iff)
    have "x = buffer + ?i \<longleftrightarrow> unat (x - buffer) = ?k" for x
      unfolding i(1) by (rule offset_eq_iff[OF i(3)])
    moreover have "?i < count" using i by (simp add: word_less_nat_alt unat_of_nat64)
    ultimately show ?thesis using eq False m c
      by (auto simp: out_buffer_def Let_def min_def)
  qed
qed

text \<open>
  C32. \<^verbatim>\<open>snprintf_\<close> never writes outside of the buffer it is given and always terminates it: of the
  rendered text the first \<^verbatim>\<open>count - 1\<close> characters, or all if they are fewer, are in the buffer,
  followed by a zero byte; no other byte of memory changes, none at all for a size of zero. The result is
  the length of the whole text, whether it fitted or not.
\<close>

theorem snprintf_writes:
  assumes "render format va = Inr cs" and "buffer \<noteq> 0" and "length cs < 2 ^ 64"
  shows "\<exists>m'. snprintf buffer count format va m = Inr (of_nat (length cs), m')
    \<and> (count = 0 \<longrightarrow> m' = m)
    \<and> (count \<noteq> 0 \<longrightarrow> (\<forall>x. m' x =
        (let i = unat (x - buffer); k = min (length cs) (unat count - 1)
         in if i < k then of_char (cs ! i) else if i = k then 0 else m x)))"
  by (rule snprintf_memory [OF assms])

lemma render_Nil [simp]: "render [] va = Inr []"
  by (subst render.simps) (simp add: deref_def)

lemma render_Cons_text:
  "c \<noteq> CHR 0x00 \<Longrightarrow> c \<noteq> CHR ''%'' \<Longrightarrow> render (c # fmt) va = obind (render fmt va) (\<lambda>cs. Inr (c # cs))"
  by (subst render.simps) (simp add: deref_def)

lemma render_Cons_directive:
  "render (CHR ''%'' # fmt) va = obind (parse_directive fmt va) (\<lambda>d.
     obind (convert_chars d) (\<lambda>(fmt', va', cs). obind (render fmt' va') (\<lambda>ds. Inr (cs @ ds))))"
  by (subst render.simps) (simp add: deref_def)

theorem snprintf_writes_witness:
  "render ''ab'' [] = Inr ''ab''
   \<and> (\<exists>m'. snprintf 0x1000 2 ''ab'' [] (\<lambda>_. 7) = Inr (2, m') \<and> m' 0x1000 = 97 \<and> m' 0x1001 = 0 \<and> m' 0x1002 = 7)"
proof -
  have r: "render ''ab'' [] = Inr ''ab''" by (simp add: render_Cons_text)
  then show ?thesis
    using snprintf_writes[OF r, of "0x1000" 2 "\<lambda>_. 7"] by (auto simp: Let_def)
qed

text \<open>The characters with special meaning at the start of a directive.\<close>

definition plain_conv :: "char \<Rightarrow> bool" where
  "plain_conv c \<longleftrightarrow> c \<notin> set ''0-+ #*.lhtjz'' \<and> \<not> is_digit c"

lemma parse_plain:
  assumes "plain_conv c"
  shows "parse_directive (c # fmt) va =
    Inr \<lparr>d_flags = 0, d_width = 0, d_precision = 0, d_format = c # fmt, d_va = va\<rparr>"
  using assms
  by (simp add: parse_directive_def parse_width_def parse_precision_def parse_length_def deref_def plain_conv_def)

lemma has_zero [simp]: "\<not> has 0 f"
  by (simp add: has_def)

lemma sint_zero_iff [simp]: "sint v = 0 \<longleftrightarrow> v = 0"
  by (rule signed_eq_0_iff)

lemma unat_abs_int:
  fixes v :: "'a::len word"
  shows "int (unat (if 0 < sint v then v else 0 - v)) = \<bar>sint v\<bar>"
proof -
  have pow: "(2 :: int) ^ (LENGTH('a) - 1) < 2 ^ LENGTH('a)" by simp
  have bounds: "- (2 ^ (LENGTH('a) - 1)) \<le> sint v" "sint v < 2 ^ (LENGTH('a) - 1)"
    using sint_greater_eq[of v] sint_less[of v] by simp_all
  have "(if 0 < sint v then v else 0 - v) = word_of_int \<bar>sint v\<bar>"
    by (auto simp: abs_if)
  then have "uint (if 0 < sint v then v else 0 - v) = \<bar>sint v\<bar> mod 2 ^ LENGTH('a)"
    by (simp only: uint_word_of_int)
  moreover have "\<bar>sint v\<bar> < 2 ^ LENGTH('a)" using bounds pow by linarith
  ultimately show ?thesis by simp
qed

lemma numeral_val_bound: "ds \<noteq> [] \<Longrightarrow> last ds \<noteq> 0 \<Longrightarrow> b ^ (length ds - 1) \<le> numeral_val b ds"
proof (induction ds)
  case (Cons d ds)
  show ?case
  proof (cases "ds = []")
    case False
    then have "b * b ^ (length ds - 1) \<le> d + b * numeral_val b ds" using Cons by (intro trans_le_add2 mult_le_mono2) simp
    moreover have "b * b ^ (length ds - 1) = b ^ length ds" using False by (cases ds) simp_all
    ultimately show ?thesis by simp
  qed (use Cons in simp)
qed simp

text \<open>The text of \<^verbatim>\<open>%d\<close>, with the rest of the format behind it.\<close>

lemma render_decimal:
  "\<exists>digits. (\<forall>fmt va. render (''%d'' @ fmt) (ArgInt v # va) =
      obind (render fmt va) (\<lambda>ds. Inr ((if sint v < 0 then ''-'' else []) @ digits @ ds)))
    \<and> int (numeral_val 10 (map char_digit (rev digits))) = \<bar>sint v\<bar> \<and> set digits \<subseteq> set ''0123456789'' \<and> length digits \<le> 10
    \<and> digits \<noteq> [] \<and> (v \<noteq> 0 \<longrightarrow> char_digit (hd digits) \<noteq> 0)"
proof -
  let ?m = "ucast (if 0 < sint v then v else 0 - v) :: u64"
  have m: "int (unat ?m) = \<bar>sint v\<bar>" unfolding unat_ucast_32_64 by (rule unat_abs_int)
  have lt: "unat ?m < unat (10 :: u64) ^ 31" using unat_lt64'[of ?m] by simp
  have nz: "?m \<noteq> 0" if "v \<noteq> 0"
  proof
    assume "?m = 0"
    then have "int (unat ?m) = 0" by simp
    then show False using m that by simp
  qed
  note digits = ntoa_digits_numeral[OF _ _ has_zero lt]
  have "ntoa_chars ?m (sint v < 0) 10 0 0 0 = (if sint v < 0 then ''-'' else []) @ rev (ntoa_digits ?m 10 0)"
    using numeral_field_plain[of 0 0 ?m 10 "sint v < 0"] digits(1)
    by (simp add: number_field_def sign_chars_def)
  moreover have "parse_directive (CHR ''d'' # fmt) va
      = Inr \<lparr>d_flags = 0, d_width = 0, d_precision = 0, d_format = CHR ''d'' # fmt, d_va = va\<rparr>" for fmt va
    by (rule parse_plain) (simp add: plain_conv_def is_digit_def)
  moreover have "length (ntoa_digits ?m 10 0) \<le> 10"
  proof (cases "v = 0")
    case False
    let ?ds = "map char_digit (ntoa_digits ?m 10 0)"
    have "10 ^ (length ?ds - 1) \<le> numeral_val 10 ?ds"
      by (rule numeral_val_bound) (use digits nz[OF False] in \<open>simp_all add: last_map\<close>)
    also have "numeral_val 10 ?ds = unat ?m" using digits(2) by simp
    also have "\<dots> \<le> 2 ^ 31"
    proof -
      have "\<bar>sint v\<bar> \<le> 2 ^ 31" using sint_greater_eq[of v] sint_less[of v] by simp
      then have "int (unat ?m) \<le> int (2 ^ 31)" unfolding m by simp
      then show ?thesis unfolding of_nat_le_iff .
    qed
    also have "(2 :: nat) ^ 31 < 10 ^ 10" by simp
    finally have "length ?ds - 1 < 10" by (rule power_less_imp_less_exp [rotated]) simp
    then show ?thesis by simp
  qed (simp add: ntoa_digits_def numeral_eq_Suc)
  moreover have "set (rev (ntoa_digits ?m 10 0)) \<subseteq> set ''0123456789''"
  proof -
    have "digit_char 0 (of_nat d) \<in> set ''0123456789''" if "d < 10" for d
    proof -
      have "d \<in> {0, 1, 2, 3, 4, 5, 6, 7, 8, 9}" using that by (simp, presburger)
      then show ?thesis by (elim insertE) (simp_all add: digit_char_def char_of_def bit_0)
    qed
    then have "digit_char 0 (of_nat d) \<in> set ''0123456789''" if "d \<in> set (numeral_le 10 32 (unat ?m))" for d
      using numeral_le_digit[OF _ that] by (metis zero_less_numeral)
    then have "(\<lambda>d. digit_char 0 (of_nat d)) ` set (numeral_le 10 32 (unat ?m)) \<subseteq> set ''0123456789''" by (rule image_subsetI)
    moreover have "unat (10 :: u64) = 10" by simp
    ultimately show ?thesis unfolding ntoa_digits_def by (simp only: has_zero simp_thms if_True set_rev set_map)
  qed
  ultimately show ?thesis
    using digits m nz
    by (intro exI[of _ "rev (ntoa_digits ?m 10 0)"])
      (simp add: render_Cons_directive convert_chars_def deref_def is_int_conv_def int_flags_def
        int_base_def int_argument_def hd_rev)
qed

lemma render_text:
  "set t \<inter> {CHR 0x00, CHR ''%''} = {} \<Longrightarrow>
   render (t @ fmt) va = obind (render fmt va) (\<lambda>ds. Inr (t @ ds))"
  by (induction t) (auto simp: render_Cons_text obind_assoc)

text \<open>
  C34. \<^verbatim>\<open>%d\<close> prints the signed value of its argument for all 32-bit values, the most negative one
  included. Between any two pieces of text, \<^verbatim>\<open>snprintf_\<close> with \<^verbatim>\<open>%d\<close> stores a minus sign for a negative number and at most ten decimal digits
  without leading zeros whose value is the magnitude, terminates the buffer, cuts the text when it does not fit, changes nothing
  else and returns the length of the whole text.
\<close>

theorem printf_decimal:
  assumes "buffer \<noteq> 0" and "count \<noteq> 0" and "set pre \<inter> {CHR 0x00, CHR ''%''} = {}" and "set post \<inter> {CHR 0x00, CHR ''%''} = {}"
    and "length pre + 11 + length post < 2 ^ 64"
  shows "\<exists>digits m'. int (numeral_val 10 (map char_digit (rev digits))) = \<bar>sint v\<bar> \<and> set digits \<subseteq> set ''0123456789''
    \<and> length digits \<le> 10 \<and> digits \<noteq> [] \<and> (v \<noteq> 0 \<longrightarrow> hd digits \<noteq> CHR ''0'')
    \<and> (let text = pre @ (if sint v < 0 then ''-'' else []) @ digits @ post; k = min (length text) (unat count - 1)
       in snprintf buffer count (pre @ ''%d'' @ post) [ArgInt v] m = Inr (of_nat (length text), m')
        \<and> (\<forall>x. m' x = (let i = unat (x - buffer) in if i < k then of_char (text ! i) else if i = k then 0 else m x)))"
proof -
  obtain digits where d: "\<forall>fmt va. render (''%d'' @ fmt) (ArgInt v # va) =
      obind (render fmt va) (\<lambda>ds. Inr ((if sint v < 0 then ''-'' else []) @ digits @ ds))"
    "int (numeral_val 10 (map char_digit (rev digits))) = \<bar>sint v\<bar>" "set digits \<subseteq> set ''0123456789''"
    "length digits \<le> 10" "digits \<noteq> []" "v \<noteq> 0 \<longrightarrow> char_digit (hd digits) \<noteq> 0"
    using render_decimal[of v] by blast
  define cs where "cs = pre @ (if sint v < 0 then ''-'' else []) @ digits @ post"
  have "render post [] = Inr post" using render_text[OF assms(4), of "[]" "[]"] by simp
  then have "render (pre @ ''%d'' @ post) [ArgInt v] = Inr cs"
    using d(1)[rule_format, of post "[]"] render_text[OF assms(3)] by (simp add: cs_def)
  moreover have "length cs < 2 ^ 64" using d(4) assms(5) by (simp add: cs_def)
  ultimately obtain m' where "snprintf buffer count (pre @ ''%d'' @ post) [ArgInt v] m = Inr (of_nat (length cs), m')"
    "\<forall>x. m' x = (let i = unat (x - buffer); k = min (length cs) (unat count - 1)
        in if i < k then of_char (cs ! i) else if i = k then 0 else m x)"
    using snprintf_memory[OF _ assms(1), where count = count and m = m] assms(2) by blast
  moreover have "v \<noteq> 0 \<longrightarrow> hd digits \<noteq> CHR ''0''" using d(6) by (auto simp: char_digit_def)
  ultimately show ?thesis using d(2-5) by (intro exI[of _ digits] exI[of _ m']) (simp add: Let_def flip: cs_def)
qed

theorem printf_decimal_witness:
  "\<exists>digits m'. int (numeral_val 10 (map char_digit (rev digits))) = 2147483648 \<and> hd digits \<noteq> CHR ''0''
     \<and> snprintf 0x1000 64 ''x=%d;'' [ArgInt 0x80000000] (\<lambda>_. 7) = Inr (4 + of_nat (length digits), m')
     \<and> m' 0x1000 = of_char (CHR ''x'') \<and> m' 0x1002 = of_char (CHR ''-'') \<and> m' 0x1040 = 7"
proof -
  obtain digits m' where d: "int (numeral_val 10 (map char_digit (rev digits))) = \<bar>sint (0x80000000 :: u32)\<bar>" "hd digits \<noteq> CHR ''0''"
    "length digits \<le> 10"
    "snprintf 0x1000 64 (''x='' @ ''%d'' @ '';'') [ArgInt 0x80000000] (\<lambda>_. 7) = Inr (of_nat (length (''x='' @ ''-'' @ digits @ '';'')), m')"
    "\<forall>x. m' x = (let i = unat (x - 0x1000); k = min (length (''x='' @ ''-'' @ digits @ '';'')) 63
       in if i < k then of_char ((''x='' @ ''-'' @ digits @ '';'') ! i) else if i = k then 0 else 7)"
    using printf_decimal[of "0x1000" 64 "''x=''" "'';''" "0x80000000" "\<lambda>_. 7"] by (auto simp: Let_def)
  then show ?thesis by (intro exI[of _ digits] exI[of _ m']) (simp add: Let_def min_def)
qed

lemma takeWhile_strnlen: "strnlen_s p n = length (take n (takeWhile (\<lambda>c. c \<noteq> CHR 0x00) p))"
proof (induction p arbitrary: n)
  case Nil
  then show ?case by (subst strnlen_s.simps) (simp add: deref_def)
next
  case (Cons c p)
  then show ?case by (subst strnlen_s.simps) (cases n; simp add: deref_def)
qed

lemma render_string:
  "render (''%s'' @ fmt) (ArgStr p # va) =
     obind (render fmt va) (\<lambda>ds. Inr (takeWhile (\<lambda>c. c \<noteq> CHR 0x00) p @ ds))"
proof -
  have "parse_directive (CHR ''s'' # fmt) (ArgStr p # va)
      = Inr \<lparr>d_flags = 0, d_width = 0, d_precision = 0, d_format = CHR ''s'' # fmt, d_va = ArgStr p # va\<rparr>"
    by (rule parse_plain) (simp add: plain_conv_def is_digit_def)
  then show ?thesis
    by (simp add: render_Cons_directive convert_chars_def deref_def is_int_conv_def pad_around_def str_chars_def)
qed

lemma render_percent: "render (''%%'' @ fmt) va = obind (render fmt va) (\<lambda>ds. Inr (CHR ''%'' # ds))"
proof -
  have "parse_directive (CHR ''%'' # fmt) va
      = Inr \<lparr>d_flags = 0, d_width = 0, d_precision = 0, d_format = CHR ''%'' # fmt, d_va = va\<rparr>"
    by (rule parse_plain) (simp add: plain_conv_def is_digit_def)
  then show ?thesis
    by (simp add: render_Cons_directive convert_chars_def deref_def is_int_conv_def)
qed

text \<open>
  Text is copied: characters other than the percent sign go to the output as they are, \<^verbatim>\<open>%s\<close>
  becomes its string argument up to the terminator,
  and a doubled percent sign one percent sign, each followed by the rendering of the rest.
\<close>

theorem printf_text:
  assumes "set t \<inter> {CHR 0x00, CHR ''%''} = {}"
  shows "render (t @ fmt) va = obind (render fmt va) (\<lambda>ds. Inr (t @ ds))
    \<and> render (''%s'' @ fmt) (ArgStr p # va)
        = obind (render fmt va) (\<lambda>ds. Inr (takeWhile (\<lambda>c. c \<noteq> CHR 0x00) p @ ds))
    \<and> render (''%%'' @ fmt) va = obind (render fmt va) (\<lambda>ds. Inr (CHR ''%'' # ds))"
  by (intro conjI render_text[OF assms] render_string render_percent)

theorem printf_text_witness:
  "render ''ab'' [] = Inr ''ab'' \<and> render ''%s'' [ArgStr ''x''] = Inr ''x'' \<and> render ''%%'' [] = Inr ''%''"
  using printf_text[of "''ab''" "[]" "[]" "''x''"] by simp

lemma trailing_directive:
  assumes "parse_directive fmt va = Inr d" and "d_format d = []" and "set t \<inter> {CHR 0x00, CHR ''%''} = {}"
  shows "render (t @ CHR ''%'' # fmt) va = Inl OutOfBounds"
  using assms by (simp add: render_text render_Cons_directive convert_chars_def deref_def is_int_conv_def)

text \<open>
  A format whose last character is a percent sign makes the interpreter run past the end of the
  string: it takes the terminator for the conversion character, prints it and steps over it. This
  holds behind any text and also with flags, a width and a length between.
\<close>

theorem printf_trailing_percent:
  assumes "set t \<inter> {CHR 0x00, CHR ''%''} = {}"
  shows "vsnprintf_out out buffer maxlen (t @ ''%'') va s = Inl OutOfBounds
    \<and> vsnprintf_out out buffer maxlen (t @ ''%-5l'') va s = Inl OutOfBounds"
proof -
  have "parse_directive [] va = Inr \<lparr>d_flags = 0, d_width = 0, d_precision = 0, d_format = [], d_va = va\<rparr>"
    by (simp add: parse_directive_def parse_width_def parse_precision_def parse_length_def deref_def is_digit_def)
  moreover have "parse_directive ''-5l'' va
      = Inr \<lparr>d_flags = FLAGS_LEFT OR FLAGS_LONG, d_width = 5, d_precision = 0, d_format = [], d_va = va\<rparr>"
    by (simp add: parse_directive_def parse_width_def parse_precision_def parse_length_def deref_def is_digit_def
        atoi_def)
  ultimately show ?thesis
    using trailing_directive[OF _ _ assms] by (simp add: vsnprintf_out_eq)
qed

theorem printf_trailing_percent_witness:
  "vsnprintf_out out_null 1 9 ''ab%'' [] () = Inl OutOfBounds"
  using printf_trailing_percent[of "''ab''" out_null 1 9 "[]" "()"] by simp

section \<open>The serial line and the log lock\<close>

text \<open>What a character becomes on the serial port: nothing for a zero, a carriage return in front of a
  newline.\<close>

definition serial :: "char \<Rightarrow> (u16 \<times> u8) list" where
  "serial c = (if c = CHR 0x00 then [] else if c = CHR 0x0A then [(0x3F8, 0x0D), (0x3F8, 0x0A)]
               else [(0x3F8, of_char c)])"

lemma out_char_serial: "out_char c buffer idx maxlen s = s\<lparr>outb_log := outb_log s @ serial c\<rparr>"
  by (simp add: out_char_def putchar_def serial_def outb_def Let_def)

lemma emits_out_char:
  "snd (emits out_char buffer maxlen cs (i, s)) = s\<lparr>outb_log := outb_log s @ concat (map serial cs)\<rparr>"
  by (induction cs arbitrary: i s) (simp_all add: put_def out_char_serial)

lemma vsnprintf_out_char:
  "vsnprintf_out out_char local_buffer maxlen format va s =
     obind (render format va) (\<lambda>cs. Inr (of_nat (length cs), s\<lparr>outb_log := outb_log s @ concat (map serial cs)\<rparr>))"
proof -
  have "serial (CHR 0x00) = []" by (simp add: serial_def)
  then show ?thesis
    by (cases "render format va")
      (simp_all add: vsnprintf_out_eq Let_def local_buffer_def out_char_serial emits_out_char)
qed

text \<open>Two output functions that agree where the second leads print the same.\<close>

lemma emits_agree:
  assumes "\<And>ch b i n t. P t \<Longrightarrow> out ch b i n t = out' ch b i n t" and "\<And>ch b i n t. P t \<Longrightarrow> P (out' ch b i n t)"
  shows "P (snd r) \<Longrightarrow> emits out buffer maxlen cs r = emits out' buffer maxlen cs r \<and> P (snd (emits out' buffer maxlen cs r))"
  by (induction cs arbitrary: r) (simp_all add: put_def assms)

lemma vsnprintf_out_agree:
  assumes "\<And>ch b i n t. P t \<Longrightarrow> out ch b i n t = out' ch b i n t" and "\<And>ch b i n t. P t \<Longrightarrow> P (out' ch b i n t)" and "P s"
  shows "vsnprintf_out out buffer maxlen format va s = vsnprintf_out out' buffer maxlen format va s"
  using emits_agree[of P out out' "(0, s)", OF assms(1,2)] assms(1,3)
  by (cases "render format va") (simp_all add: vsnprintf_out_eq Let_def)

lemma cli_neutral_log [simp]:
  "logLock (cli_neutral s) = logLock s" "log_state.more (cli_neutral s) = log_state.more s"
  by (auto simp: cli_neutral_def cli_def split: option.splits)

lemma thisCPU_log [simp]:
  "thisCPU (s\<lparr>logLock := w\<rparr>) = thisCPU s" "thisCPU (s\<lparr>outb_log := l\<rparr>) = thisCPU s"
  by (simp_all add: thisCPU_def lapicID_def)

text \<open>
  C36. \<^verbatim>\<open>logfn\<close> writes the rendered text to the serial port, with a carriage return in front of every
  newline and nothing for zero characters, and returns its length. Every character goes out while the log lock is
  held: with any other output function that does the same in the states where the lock is held, whatever it does in the others, the
  outcome is the same. The lock has been given back at the end; when it is held by somebody else \<^verbatim>\<open>logfn\<close> waits and
  writes nothing, and when the format cannot be rendered it does not return.
\<close>

theorem logfn_writes:
  assumes "thisCPU s = Some i"
  shows "(lock_held (logLock s) = 0 \<longrightarrow> render format va = Inr cs \<longrightarrow>
      (\<exists>s'. logfn format va s = Inr (of_nat (length cs), s')
        \<and> outb_log s' = outb_log s @ concat (map serial cs) \<and> lock_held (logLock s') = 0
        \<and> mem s' = mem s))
    \<and> (lock_held (logLock s) \<noteq> 0 \<longrightarrow> logfn format va s = Inl Spins)
    \<and> (lock_held (logLock s) = 0 \<longrightarrow> render format va = Inl e \<longrightarrow> logfn format va s = Inl e)
    \<and> (\<forall>out. (\<forall>ch buffer idx maxlen t. lock_held (logLock t) = 1 \<longrightarrow> out ch buffer idx maxlen t = out_char ch buffer idx maxlen t)
          \<longrightarrow> logfn_via out format va s = logfn format va s)"
proof -
  let ?s1 = "(cli_neutral s)\<lparr>logLock := lock_set_held 1 (logLock s)\<rparr>"
  have lock: "lockLog s = (if lock_held (logLock s) = 0 then Inr ?s1 else Inl Spins)"
    using assms by (simp add: lockLog_def kernel_simps)
  have un: "unlockLog t = Inr ((cli_neutral t)\<lparr>logLock := 0\<rparr>)" if "thisCPU t = Some i" for t :: "'a log_state_scheme"
    using that by (simp add: unlockLog_def kernel_simps)
  have "logfn_via out format va s = logfn format va s"
    if "\<forall>ch buffer idx maxlen t. lock_held (logLock t) = 1 \<longrightarrow> out ch buffer idx maxlen t = out_char ch buffer idx maxlen t" for out
  proof -
    have "vsnprintf_out out local_buffer (- 1) format va ?s1 = vsnprintf_out out_char local_buffer (- 1) format va ?s1"
      by (rule vsnprintf_out_agree [where P = "\<lambda>t. lock_held (logLock t) = 1"]) (use that in \<open>simp_all add: out_char_serial\<close>)
    then show ?thesis by (simp add: logfn_def logfn_via_def lock)
  qed
  then show ?thesis
    using assms by (simp add: logfn_def logfn_via_def lock vsnprintf_out_char un)
qed

theorem logfn_writes_witness:
  "\<exists>s'. logfn ''ok%c'' [ArgInt 10] \<lparr>mem = \<lambda>_. 0, CPUs = [zero_CPUState], lapicIDReg = 0, rflags = 0x202,
       outb_log = [], pm_lockword = 0, pm_freeList = 0,
       HigherHalfDirectMapOffset = 0, logLock = 0\<rparr> = Inr (3, s')
     \<and> outb_log s' = [(0x3F8, 111), (0x3F8, 107), (0x3F8, 13), (0x3F8, 10)]"
proof -
  let ?s = "\<lparr>mem = \<lambda>_. 0, CPUs = [zero_CPUState], lapicIDReg = 0, rflags = 0x202, outb_log = [], pm_lockword = 0, pm_freeList = 0,
       HigherHalfDirectMapOffset = 0, logLock = 0\<rparr>"
  have i: "thisCPU ?s = Some 0" by (simp add: thisCPU_def lapicID_def zero_CPUState_def)
  have "parse_directive ''c'' [ArgInt 10] =
      Inr \<lparr>d_flags = 0, d_width = 0, d_precision = 0, d_format = ''c'', d_va = [ArgInt 10]\<rparr>"
    by (rule parse_plain) (simp add: plain_conv_def is_digit_def)
  then have "render ''ok%c'' [ArgInt 10] = Inr [CHR ''o'', CHR ''k'', CHR 0x0A]"
    by (simp add: render_Cons_text render_Cons_directive convert_chars_def deref_def is_int_conv_def
        pad_around_def char_of_def bit_0)
  then show ?thesis using logfn_writes[OF i, of "''ok%c''" "[ArgInt 10]" "[CHR ''o'', CHR ''k'', CHR 0x0A]"]
    by (auto simp: serial_def)
qed

end
