(* ===== verification/Local_Apic.thy ===== *)
theory Local_Apic
  imports Printf
begin

text \<open>
  Model-specific registers, the base address of the local APIC (\<^verbatim>\<open>src/Kernel/SMP.h\<close>) and its
  programming (\<^verbatim>\<open>LocalAPIC.cpp\<close>, \<^verbatim>\<open>LocalAPIC.h\<close>). The device is hardware: \<open>hw\<close> gives the value of a
  register from the writes that the device has seen, the number of reads so far and the index of the
  register. The lemmas show which part of a base address survives being set, and that the
  initialisation performs its sequence of writes and returns just when the device delivers.
\<close>

section \<open>State\<close>

text \<open>
  \<open>msrs\<close> are the model-specific registers, \<open>lapic\<close> the pointer to the registers of the device,
  \<open>lapic_writes\<close> the addresses and values written there, \<open>lapic_reads\<close> the number of reads.
\<close>

record apic_state = log_state +
  msrs :: "u32 \<Rightarrow> u64"
  lapic :: u64
  lapic_writes :: "(u64 \<times> u32) list"
  lapic_reads :: nat

type_synonym lapic_hw = "(u64 \<times> u32) list \<Rightarrow> nat \<Rightarrow> u32 \<Rightarrow> u32"

section \<open>Base address\<close>

definition cpuGetMSR :: "u32 \<Rightarrow> 'a apic_state_scheme \<Rightarrow> u32 \<times> u32" where
  "cpuGetMSR msr s = (ucast (msrs s msr), ucast (drop_bit 32 (msrs s msr)))"

definition cpuSetMSR :: "u32 \<Rightarrow> u32 \<Rightarrow> u32 \<Rightarrow> 'a apic_state_scheme \<Rightarrow> 'a apic_state_scheme" where
  "cpuSetMSR msr lo hi s = s\<lparr>msrs := (msrs s)(msr := push_bit 32 (ucast hi) OR ucast lo)\<rparr>"

definition defaultAPICBase :: u64 where "defaultAPICBase = 0xFEE00000"

definition setAPICBase :: "u64 \<Rightarrow> 'a apic_state_scheme \<Rightarrow> 'a apic_state_scheme" where
  "setAPICBase physAddr s =
     (let edx = ucast (drop_bit 32 physAddr AND 0x0F);
          eax = ucast ((physAddr AND 0xFFFFF0000) OR 0x800)
      in cpuSetMSR 0x1B eax edx s)"

definition getAPICBase :: "'a apic_state_scheme \<Rightarrow> u64" where
  "getAPICBase s =
     (let (eax, edx) = cpuGetMSR 0x1B s
      in ucast (eax AND 0xFFFFF000) OR push_bit 32 (ucast edx AND 0x0F))"

section \<open>Registers\<close>

datatype LAPICRegisters = ID | Version | TaskPriority | EndOfInterrupt | SpuriousInterruptVector | ErrorStatus
  | LowInterruptCommand | HighInterruptCommand | LVT0Timer | LVTPerfCount | LVT1Interrupt0 | LVT2Interrupt1
  | LVT3Error | TimerInitialCount | TimerCurrentCount | TimerDivideConfiguration

fun reg_index :: "LAPICRegisters \<Rightarrow> u32" where
  "reg_index ID = 0x0020 div 4" | "reg_index Version = 0x0030 div 4" | "reg_index TaskPriority = 0x0080 div 4"
| "reg_index EndOfInterrupt = 0x00B0 div 4" | "reg_index SpuriousInterruptVector = 0x00F0 div 4"
| "reg_index ErrorStatus = 0x0280 div 4" | "reg_index LowInterruptCommand = 0x0300 div 4"
| "reg_index HighInterruptCommand = 0x0310 div 4" | "reg_index LVT0Timer = 0x0320 div 4"
| "reg_index LVTPerfCount = 0x0340 div 4" | "reg_index LVT1Interrupt0 = 0x0350 div 4"
| "reg_index LVT2Interrupt1 = 0x0360 div 4" | "reg_index LVT3Error = 0x0370 div 4"
| "reg_index TimerInitialCount = 0x0380 div 4" | "reg_index TimerCurrentCount = 0x0390 div 4"
| "reg_index TimerDivideConfiguration = 0x03E0 div 4"

definition SVREnable :: u32 where "SVREnable = 0x00000100"
definition TimerDivideBy1 :: u32 where "TimerDivideBy1 = 0x0000000B"
definition TimerPeriodic :: u32 where "TimerPeriodic = 0x00020000"
definition ErrorMasked :: u32 where "ErrorMasked = 0x00010000"

datatype InterruptCommand = Initialize | StartupIPI | DeliveryStatus | Assert | Deassert | LevelTriggered
  | Broadcast | Busy | Fixed

fun command_bits :: "InterruptCommand \<Rightarrow> u32" where
  "command_bits Initialize = 0x00000500" | "command_bits StartupIPI = 0x00000600"
| "command_bits DeliveryStatus = 0x00001000" | "command_bits Assert = 0x00004000"
| "command_bits Deassert = 0x00000000" | "command_bits LevelTriggered = 0x00008000"
| "command_bits Broadcast = 0x00080000" | "command_bits Busy = 0x00001000" | "command_bits Fixed = 0x00000000"

datatype TrapNumbers = Division | Debug | NonMaskable | Breakpoint | Overflow | Bounds | IllegalOpcode
  | DeviceNotAvailable | DoubleFault | CoprocessorReserved | InvalidTaskSwitchSegment | SegmentNotPresent
  | StackException | GeneralProtectionFault | PageFault | Reserved15 | FloatingPointError | AlignmentCheck
  | MachineCheck | SIMDFloatingPointError | Syscall | Catchall
  | IRQ0 | IRQTimer | IRQKeyboard | IRQCOM1 | IRQIDE | IRQError | IRQSpurious

fun trap_number :: "TrapNumbers \<Rightarrow> u32" where
  "trap_number Division = 0" | "trap_number Debug = 1" | "trap_number NonMaskable = 2"
| "trap_number Breakpoint = 3" | "trap_number Overflow = 4" | "trap_number Bounds = 5"
| "trap_number IllegalOpcode = 6" | "trap_number DeviceNotAvailable = 7" | "trap_number DoubleFault = 8"
| "trap_number CoprocessorReserved = 9" | "trap_number InvalidTaskSwitchSegment = 10"
| "trap_number SegmentNotPresent = 11" | "trap_number StackException = 12"
| "trap_number GeneralProtectionFault = 13" | "trap_number PageFault = 14" | "trap_number Reserved15 = 15"
| "trap_number FloatingPointError = 16" | "trap_number AlignmentCheck = 17" | "trap_number MachineCheck = 18"
| "trap_number SIMDFloatingPointError = 19" | "trap_number Syscall = 64" | "trap_number Catchall = 500"
| "trap_number IRQ0 = 32" | "trap_number IRQTimer = 0" | "trap_number IRQKeyboard = 1"
| "trap_number IRQCOM1 = 4" | "trap_number IRQIDE = 14" | "trap_number IRQError = 19"
| "trap_number IRQSpurious = 31"

section \<open>Programming the device\<close>

definition readLAPIC :: "lapic_hw \<Rightarrow> LAPICRegisters \<Rightarrow> 'a apic_state_scheme \<Rightarrow> u32 \<times> 'a apic_state_scheme" where
  "readLAPIC hw reg s = (hw (lapic_writes s) (lapic_reads s) (reg_index reg), s\<lparr>lapic_reads := lapic_reads s + 1\<rparr>)"

definition writeLAPIC :: "lapic_hw \<Rightarrow> LAPICRegisters \<Rightarrow> u32 \<Rightarrow> 'a apic_state_scheme \<Rightarrow> 'a apic_state_scheme" where
  "writeLAPIC hw reg val s =
     snd (readLAPIC hw ID (s\<lparr>lapic_writes := lapic_writes s @ [(lapic s + 4 * ucast (reg_index reg), val)]\<rparr>))"

definition setLAPICAddress :: "'a apic_state_scheme \<Rightarrow> 'a apic_state_scheme" where
  "setLAPICAddress s = s\<lparr>lapic := toVirtual s (getAPICBase s)\<rparr>"

partial_function (option) wait_delivery :: "lapic_hw \<Rightarrow> 'a apic_state_scheme \<Rightarrow> 'a apic_state_scheme option" where
  "wait_delivery hw s =
     (let (v, s1) = readLAPIC hw LowInterruptCommand s
      in if v AND command_bits DeliveryStatus \<noteq> 0 then wait_delivery hw s1 else Some s1)"

definition initLAPIC :: "lapic_hw \<Rightarrow> 'a apic_state_scheme \<Rightarrow> 'a apic_state_scheme outcome" where
  "initLAPIC hw s =
     (let s1 = writeLAPIC hw SpuriousInterruptVector (SVREnable OR (trap_number IRQ0 + trap_number IRQSpurious)) s;
          s2 = writeLAPIC hw TimerDivideConfiguration TimerDivideBy1 s1;
          s3 = writeLAPIC hw LVT0Timer (TimerPeriodic OR (trap_number IRQ0 + trap_number IRQTimer)) s2;
          s4 = writeLAPIC hw TimerInitialCount 10000000 s3;
          s5 = writeLAPIC hw LVT1Interrupt0 ErrorMasked s4;
          s6 = writeLAPIC hw LVT2Interrupt1 ErrorMasked s5;
          (version, s7) = readLAPIC hw Version s6;
          s8 = (if drop_bit 16 version AND 0xFF \<ge> 4 then writeLAPIC hw LVTPerfCount ErrorMasked s7 else s7);
          s9 = writeLAPIC hw LVT3Error (trap_number IRQ0 + trap_number IRQError) s8;
          s10 = writeLAPIC hw ErrorStatus 0 s9;
          s11 = writeLAPIC hw ErrorStatus 0 s10;
          s12 = writeLAPIC hw EndOfInterrupt 0 s11;
          s13 = writeLAPIC hw HighInterruptCommand 0 s12;
          s14 = writeLAPIC hw LowInterruptCommand (command_bits Broadcast OR command_bits Initialize OR command_bits LevelTriggered) s13
      in obind (of_option Diverges (wait_delivery hw s14)) (\<lambda>s15. Inr (writeLAPIC hw TaskPriority 0 s15)))"

definition acknowledgeInterrupt :: "lapic_hw \<Rightarrow> 'a apic_state_scheme \<Rightarrow> 'a apic_state_scheme" where
  "acknowledgeInterrupt hw s = writeLAPIC hw EndOfInterrupt 0 s"

section \<open>Lemmas\<close>

lemma apic_mask_bits:
  "bit (0xFFFFF0000 :: u64) n \<longleftrightarrow> 16 \<le> n \<and> n < 36"
  "bit (0xFFFFF000 :: u32) n \<longleftrightarrow> 12 \<le> n \<and> n < 32"
  "bit (0x800 :: u64) n \<longleftrightarrow> n = 11"
  "bit (0x0F :: u64) n \<longleftrightarrow> n < 4"
proof -
  have c: "(0xFFFFF0000 :: u64) = push_bit 16 (mask 20)" "(0xFFFFF000 :: u32) = push_bit 12 (mask 20)"
    "(0x800 :: u64) = push_bit 11 1" "(0x0F :: u64) = mask 4" by (simp_all add: mask_eq_exp_minus_1)
  show "bit (0xFFFFF0000 :: u64) n \<longleftrightarrow> 16 \<le> n \<and> n < 36" "bit (0xFFFFF000 :: u32) n \<longleftrightarrow> 12 \<le> n \<and> n < 32"
    "bit (0x800 :: u64) n \<longleftrightarrow> n = 11" "bit (0x0F :: u64) n \<longleftrightarrow> n < 4"
    by (simp only: c bit_push_bit_iff bit_mask_iff; auto simp: bit_1_iff)+
qed

lemma cpuGetMSR_set: "cpuGetMSR m (cpuSetMSR m lo hi s) = (lo, hi)"
proof -
  have "\<not> bit lo (32 + n)" for n using bit_imp_le_length[of lo "32 + n"] by auto
  then show ?thesis by (auto simp: cpuGetMSR_def cpuSetMSR_def intro!: bit_word_eqI simp: bit_simps)
qed

lemma getAPICBase_setAPICBase: "getAPICBase (setAPICBase a s) = a AND 0xFFFFF0000"
proof (rule bit_word_eqI)
  fix n assume "n < LENGTH(64)"
  then show "bit (getAPICBase (setAPICBase a s)) n = bit (a AND 0xFFFFF0000) n"
    unfolding getAPICBase_def setAPICBase_def Let_def cpuGetMSR_set prod.case
    by (simp only: bit_or_iff bit_and_iff bit_unsigned_iff bit_push_bit_iff bit_drop_bit_eq comp_def apic_mask_bits) auto
qed

text \<open>
  Setting the base address of the local APIC and reading it back gives bits 16 to 35 of the
  address, for every address: the default address survives, but the mask has a zero too many at the
  low end, so bits 12 to 15 of a page-aligned base are lost, while \<^verbatim>\<open>getAPICBase\<close> would return them.
  The enable bit is always set, and no other register changes.
\<close>

theorem apic_base_roundtrip:
  "getAPICBase (setAPICBase a s) = a AND 0xFFFFF0000
   \<and> getAPICBase (setAPICBase defaultAPICBase s) = defaultAPICBase
   \<and> bit (msrs (setAPICBase a s) 0x1B) 11
   \<and> (msrs (setAPICBase a s))(0x1B := v) = (msrs s)(0x1B := v)"
proof (intro conjI)
  show "bit (msrs (setAPICBase a s) 0x1B) 11"
    by (simp add: setAPICBase_def cpuSetMSR_def bit_simps apic_mask_bits)
qed (simp_all add: getAPICBase_setAPICBase defaultAPICBase_def, simp add: setAPICBase_def cpuSetMSR_def)

text \<open>The writes of the initialisation, as registers and values; \<open>perf\<close> tells whether there is a performance counter entry.\<close>

definition init_sequence :: "bool \<Rightarrow> (LAPICRegisters \<times> u32) list" where
  "init_sequence perf =
     [(SpuriousInterruptVector, 0x13F), (TimerDivideConfiguration, 0x0B), (LVT0Timer, 0x20020),
      (TimerInitialCount, 10000000), (LVT1Interrupt0, 0x10000), (LVT2Interrupt1, 0x10000)]
     @ (if perf then [(LVTPerfCount, 0x10000)] else [])
     @ [(LVT3Error, 51), (ErrorStatus, 0), (ErrorStatus, 0), (EndOfInterrupt, 0),
        (HighInterruptCommand, 0), (LowInterruptCommand, 0x88500)]"

definition at_device :: "u64 \<Rightarrow> LAPICRegisters \<times> u32 \<Rightarrow> u64 \<times> u32" where
  "at_device base w = (base + 4 * ucast (reg_index (fst w)), snd w)"

lemma writeLAPIC_eq:
  "writeLAPIC hw reg val s = s\<lparr>lapic_writes := lapic_writes s @ [at_device (lapic s) (reg, val)], lapic_reads := lapic_reads s + 1\<rparr>"
  by (simp add: writeLAPIC_def readLAPIC_def at_device_def)

lemma wait_delivery_returns:
  assumes "hw (lapic_writes s) (lapic_reads s + n) (reg_index LowInterruptCommand) AND command_bits DeliveryStatus = 0"
  shows "\<exists>k. wait_delivery hw s = Some (s\<lparr>lapic_reads := k\<rparr>)"
  using assms
proof (induction n arbitrary: s)
  case 0
  then show ?case by (subst wait_delivery.simps) (auto simp: readLAPIC_def)
next
  case (Suc n)
  have "\<exists>k. wait_delivery hw (s\<lparr>lapic_reads := lapic_reads s + 1\<rparr>) = Some (s\<lparr>lapic_reads := k\<rparr>)"
    using Suc.IH[of "s\<lparr>lapic_reads := lapic_reads s + 1\<rparr>"] Suc.prems by simp
  then show ?case by (subst wait_delivery.simps) (auto simp: readLAPIC_def)
qed

lemma wait_delivery_never:
  assumes "\<forall>n. hw (lapic_writes s) n (reg_index LowInterruptCommand) AND command_bits DeliveryStatus \<noteq> 0"
  shows "wait_delivery hw s = None"
proof -
  have "\<exists>n. hw (lapic_writes s) n (reg_index LowInterruptCommand) AND command_bits DeliveryStatus = 0"
    if "wait_delivery hw s = Some t" for t
  proof (rule wait_delivery.raw_induct[where P = "\<lambda>hw s t. \<exists>n. hw (lapic_writes s) n (reg_index LowInterruptCommand)
        AND command_bits DeliveryStatus = 0", OF _ that], goal_cases)
    case (1 loop hw s t)
    then show ?case by (auto simp: readLAPIC_def split: if_splits) force
  qed
  then show ?thesis using assms by (cases "wait_delivery hw s") auto
qed

text \<open>Whether the version register announces a performance counter entry, read behind the first six writes.\<close>

definition has_perf :: "lapic_hw \<Rightarrow> 'a apic_state_scheme \<Rightarrow> bool" where
  "has_perf hw s \<longleftrightarrow> 4 \<le> drop_bit 16 (hw (lapic_writes s @ map (at_device (lapic s)) (take 6 (init_sequence False)))
     (lapic_reads s + 6) (reg_index Version)) AND 0xFF"

definition init_log :: "lapic_hw \<Rightarrow> 'a apic_state_scheme \<Rightarrow> (u64 \<times> u32) list" where
  "init_log hw s = lapic_writes s @ map (at_device (lapic s)) (init_sequence (has_perf hw s))"

text \<open>The state after the writes \<open>ws\<close> and \<open>n\<close> reads.\<close>

definition after :: "(LAPICRegisters \<times> u32) list \<Rightarrow> nat \<Rightarrow> 'a apic_state_scheme \<Rightarrow> 'a apic_state_scheme" where
  "after ws n s = s\<lparr>lapic_writes := lapic_writes s @ map (at_device (lapic s)) ws, lapic_reads := lapic_reads s + n\<rparr>"

lemma after_start: "after [] 0 s = s"
  by (simp add: after_def)

lemma write_after: "writeLAPIC hw r v (after ws n s) = after (ws @ [(r, v)]) (n + 1) s"
  by (simp add: writeLAPIC_eq after_def)

lemma read_after:
  "readLAPIC hw r (after ws n s)
     = (hw (lapic_writes s @ map (at_device (lapic s)) ws) (lapic_reads s + n) (reg_index r), after ws (n + 1) s)"
  by (simp add: readLAPIC_def after_def)

lemma initLAPIC_after:
  "\<exists>k. initLAPIC hw (after [] 0 s) = obind (of_option Diverges (wait_delivery hw (after (init_sequence (has_perf hw s)) k s)))
     (\<lambda>t. Inr (writeLAPIC hw TaskPriority 0 t))"
proof -
  have p: "4 \<le> drop_bit 16 (hw (lapic_writes s @ map (at_device (lapic s)) (take 6 (init_sequence False)))
     (lapic_reads s + 6) (reg_index Version)) AND 0xFF \<longleftrightarrow> has_perf hw s" by (simp add: has_perf_def)
  have six: "take 6 (init_sequence False) = [(SpuriousInterruptVector, 0x13F), (TimerDivideConfiguration, 0x0B), (LVT0Timer, 0x20020),
      (TimerInitialCount, 10000000), (LVT1Interrupt0, 0x10000), (LVT2Interrupt1, 0x10000)]"
    by (simp add: init_sequence_def)
  have n: "(0 + 1 + 1 + 1 + 1 + 1 + 1 :: nat) = 6" by simp
  have c: "SVREnable OR (trap_number IRQ0 + trap_number IRQSpurious) = 0x13F" "TimerDivideBy1 = 0x0B"
    "TimerPeriodic OR (trap_number IRQ0 + trap_number IRQTimer) = 0x20020" "ErrorMasked = 0x10000"
    "trap_number IRQ0 + trap_number IRQError = 51"
    "command_bits Broadcast OR command_bits Initialize OR command_bits LevelTriggered = 0x88500"
    by (simp_all add: SVREnable_def TimerDivideBy1_def TimerPeriodic_def ErrorMasked_def)
  show ?thesis
    unfolding initLAPIC_def Let_def c write_after read_after prod.case append.simps n p[unfolded six]
    by (cases "has_perf hw s") (simp_all only: if_True if_False write_after init_sequence_def append.simps, blast+)
qed

lemma initLAPIC_writes:
  "\<exists>k. initLAPIC hw s = obind (of_option Diverges (wait_delivery hw (s\<lparr>lapic_writes := init_log hw s, lapic_reads := k\<rparr>)))
     (\<lambda>t. Inr (writeLAPIC hw TaskPriority 0 t))"
proof -
  obtain k where "initLAPIC hw s = obind (of_option Diverges (wait_delivery hw (after (init_sequence (has_perf hw s)) k s)))
     (\<lambda>t. Inr (writeLAPIC hw TaskPriority 0 t))" using initLAPIC_after[of hw s] unfolding after_start by blast
  then show ?thesis unfolding after_def init_log_def by blast
qed

lemma initLAPIC_run:
  assumes "\<forall>k. \<exists>n \<ge> k. hw (init_log hw s) n (reg_index LowInterruptCommand) AND command_bits DeliveryStatus = 0"
  shows "\<exists>j. initLAPIC hw s = Inr (s\<lparr>lapic_writes := init_log hw s @ [(lapic s + 0x80, 0)], lapic_reads := j\<rparr>)"
proof -
  obtain k where k: "initLAPIC hw s = obind (of_option Diverges (wait_delivery hw (s\<lparr>lapic_writes := init_log hw s, lapic_reads := k\<rparr>)))
     (\<lambda>t. Inr (writeLAPIC hw TaskPriority 0 t))" using initLAPIC_writes by blast
  let ?t = "s\<lparr>lapic_writes := init_log hw s, lapic_reads := k\<rparr>"
  obtain n where "k \<le> n" "hw (init_log hw s) n (reg_index LowInterruptCommand) AND command_bits DeliveryStatus = 0"
    using assms by blast
  then have "\<exists>j. wait_delivery hw ?t = Some (?t\<lparr>lapic_reads := j\<rparr>)" using wait_delivery_returns[of hw ?t "n - k"] by simp
  then show ?thesis by (auto simp: k writeLAPIC_eq at_device_def)
qed

text \<open>
  C40. The initialisation of the local APIC returns whenever the device, after it was told to
  broadcast INIT, reports again and again that the command was delivered; the device has then seen
  just the sequence of writes of the code (timer on vector 32, errors on 51, spurious on 63, the
  performance counter masked when the version has one), with the task priority last. A device
  that never reports delivery keeps the processor waiting.
\<close>

theorem initLAPIC_returns:
  "((\<forall>k. \<exists>n \<ge> k. hw (init_log hw s) n (reg_index LowInterruptCommand) AND command_bits DeliveryStatus = 0) \<longrightarrow>
      (\<exists>s'. initLAPIC hw s = Inr s' \<and> lapic_writes s' = init_log hw s @ [(lapic s + 0x80, 0)] \<and> mem s' = mem s))
   \<and> ((\<forall>n. hw (init_log hw s) n (reg_index LowInterruptCommand) AND command_bits DeliveryStatus \<noteq> 0) \<longrightarrow>
      initLAPIC hw s = Inl Diverges)"
proof -
  obtain k where k: "initLAPIC hw s = obind (of_option Diverges (wait_delivery hw (s\<lparr>lapic_writes := init_log hw s, lapic_reads := k\<rparr>)))
     (\<lambda>t. Inr (writeLAPIC hw TaskPriority 0 t))" using initLAPIC_writes by blast
  let ?t = "s\<lparr>lapic_writes := init_log hw s, lapic_reads := k\<rparr>"
  have "wait_delivery hw ?t = None"
    if "\<forall>n. hw (init_log hw s) n (reg_index LowInterruptCommand) AND command_bits DeliveryStatus \<noteq> 0"
    using wait_delivery_never[of hw ?t] that by simp
  then show ?thesis using initLAPIC_run[of hw s] by (auto simp: k)
qed

text \<open>A device of version 5 that is busy at every other read.\<close>

theorem initLAPIC_returns_witness:
  "\<forall>s :: apic_state. \<exists>s'. initLAPIC (\<lambda>ws n r. if r = 12 then 0x50014 else if even n then 0 else 0x1000) s = Inr s'
     \<and> length (lapic_writes s') = length (lapic_writes s) + 14
   \<and> initLAPIC (\<lambda>ws n r. 0x1000) s = Inl Diverges"
proof
  fix s :: apic_state
  let ?hw = "\<lambda>ws n r. if r = 12 then 0x50014 else if even n then 0 else 0x1000 :: u32"
  have "\<exists>n \<ge> k. even n" for k :: nat by (rule exI[of _ "2 * k"]) simp
  then have "\<exists>s'. initLAPIC ?hw s = Inr s' \<and> lapic_writes s' = init_log ?hw s @ [(lapic s + 0x80, 0)]"
    using initLAPIC_returns[of ?hw s] by fastforce
  moreover have "length (init_log ?hw s) = length (lapic_writes s) + 13"
    by (simp add: init_log_def has_perf_def init_sequence_def)
  moreover have "initLAPIC (\<lambda>ws n r. 0x1000) s = Inl Diverges"
    using initLAPIC_returns[of "\<lambda>ws n r. 0x1000" s] by simp
  ultimately show "\<exists>s'. initLAPIC ?hw s = Inr s' \<and> length (lapic_writes s') = length (lapic_writes s) + 14
   \<and> initLAPIC (\<lambda>ws n r. 0x1000) s = Inl Diverges" by auto
qed

end
