(* ===== verification/Page_Tables.thy ===== *)
theory Page_Tables
  imports Physical_Memory
begin

text \<open>
  Page table entries (\<^verbatim>\<open>src/Kernel/Paging.h\<close>) and the page table code of
  \<^verbatim>\<open>src/Kernel/VirtualMemoryManagement.cpp\<close>. An entry is the raw quad word in memory; a member of
  the bit-field structure is read and written at its place in it. The model of the processor is the
  four-level walk over the quad words, independent of the code's reading of them. The lemmas are
  about the members of an entry, the index arithmetic and the conversions between entries and
  addresses.
\<close>

section \<open>Entries\<close>

datatype pte_field = IsPresent | IsWritable | IsUserAccessible | WriteThrough | CacheDisabled
  | HasBeenAccessed | Available1 | PageSizeBit | IsGlobal | Available2 | PhysicalAddress | Reserved
  | Available3 | ExecutionDisabled

text \<open>Offset and width of the members of \<^verbatim>\<open>PageTableEntry::hl\<close>.\<close>

fun field_pos :: "pte_field \<Rightarrow> nat \<times> nat" where
  "field_pos IsPresent = (0, 1)" | "field_pos IsWritable = (1, 1)" | "field_pos IsUserAccessible = (2, 1)"
| "field_pos WriteThrough = (3, 1)" | "field_pos CacheDisabled = (4, 1)" | "field_pos HasBeenAccessed = (5, 1)"
| "field_pos Available1 = (6, 1)" | "field_pos PageSizeBit = (7, 1)" | "field_pos IsGlobal = (8, 1)"
| "field_pos Available2 = (9, 3)" | "field_pos PhysicalAddress = (12, 28)" | "field_pos Reserved = (40, 12)"
| "field_pos Available3 = (52, 11)" | "field_pos ExecutionDisabled = (63, 1)"

definition pte_get :: "pte_field \<Rightarrow> u64 \<Rightarrow> u64" where
  "pte_get f raw = (let (p, w) = field_pos f in take_bit w (drop_bit p raw))"

definition pte_set :: "pte_field \<Rightarrow> u64 \<Rightarrow> u64 \<Rightarrow> u64" where
  "pte_set f v raw = (let (p, w) = field_pos f in (raw AND NOT (push_bit p (mask w))) OR push_bit p (take_bit w v))"

text \<open>The assignment \<^verbatim>\<open>entry->hl.f = v\<close>.\<close>

definition set_entry :: "pte_field \<Rightarrow> u64 \<Rightarrow> u64 \<Rightarrow> memory \<Rightarrow> memory" where
  "set_entry f v entry m = store64 m entry (pte_set f v (load64 m entry))"

text \<open>
  The expression \<^verbatim>\<open>p.hl.physicalAddress << PageShift\<close>: the 28-bit member is promoted to \<^verbatim>\<open>int\<close>, so the
  shift is done in 32 bits, and the result is sign-extended where it meets a 64-bit operand.
\<close>

definition address_shifted :: "u64 \<Rightarrow> u64" where
  "address_shifted raw = scast (push_bit PageShift (ucast (pte_get PhysicalAddress raw) :: u32))"

section \<open>Operations\<close>

definition allocatePageForTableEntry ::
  "u64 \<Rightarrow> 'a pm_state_scheme \<Rightarrow> (bool \<times> 'a pm_state_scheme) outcome" where
  "allocatePageForTableEntry entry s =
     obind (allocatePage s) (\<lambda>(frame, s1).
       if frame = 0 then Inr (False, s1)
       else
         let m1 = set_entry PhysicalAddress (drop_bit PageShift (toPhysical s1 frame)) entry (mem s1);
             m2 = set_entry PageSizeBit 0 entry m1;
             m3 = set_entry IsPresent 1 entry m2;
             m4 = set_entry IsWritable 1 entry m3;
             m5 = set_entry IsUserAccessible 1 entry m4;
             m6 = set_entry CacheDisabled 0 entry m5;
             m7 = set_entry WriteThrough 0 entry m6;
             m8 = set_entry ExecutionDisabled 0 entry m7
         in Inr (True, s1\<lparr>mem := m8\<rparr>))"

definition freePageForTableEntry :: "u64 \<Rightarrow> 'a pm_state_scheme \<Rightarrow> 'a pm_state_scheme outcome" where
  "freePageForTableEntry entry s =
     obind (freePage (address_shifted (load64 (mem s) entry)) s) (\<lambda>s1.
       Inr (s1\<lparr>mem := set_entry IsPresent 0 entry (set_entry PhysicalAddress 0 entry (mem s1))\<rparr>))"

definition allocateRootPageTable :: "'a pm_state_scheme \<Rightarrow> (u64 \<times> 'a pm_state_scheme) outcome" where
  "allocateRootPageTable s =
     obind (allocatePage s) (\<lambda>(frame, s1).
       if frame = 0 then Inr (0, s1)
       else Inr (frame, s1\<lparr>mem := fst (memset (mem s1) frame 0 PageSize)\<rparr>))"

definition allocatePageTableForTableEntry ::
  "u64 \<Rightarrow> 'a pm_state_scheme \<Rightarrow> (bool \<times> 'a pm_state_scheme) outcome" where
  "allocatePageTableForTableEntry entry s =
     obind (allocatePageForTableEntry entry s) (\<lambda>(ok, s1).
       if \<not> ok then Inr (False, s1)
       else
         let addr = toVirtual s1 (push_bit PageShift (pte_get PhysicalAddress (load64 (mem s1) entry)))
         in Inr (True, s1\<lparr>mem := fst (memset (mem s1) addr 0 PageSize)\<rparr>))"

text \<open>The lambda \<^verbatim>\<open>pe2v\<close>, and one of the three steps that make sure of a lower table.\<close>

definition pe2v :: "'a pm_state_scheme \<Rightarrow> u64 \<Rightarrow> u64" where
  "pe2v s raw = address_shifted raw + HigherHalfDirectMapOffset s"

definition ensure_table :: "u64 \<Rightarrow> 'a pm_state_scheme \<Rightarrow> 'a pm_state_scheme outcome" where
  "ensure_table entry s =
     (if pte_get IsPresent (load64 (mem s) entry) = 0
      then obind (allocatePageTableForTableEntry entry s) (\<lambda>(_, s1). Inr s1)
      else Inr s)"

text \<open>Element \<open>i\<close> of the table at \<open>t\<close>.\<close>

definition entry_at :: "u64 \<Rightarrow> u32 \<Rightarrow> u64" where
  "entry_at t i = t + 8 * ucast i"

definition level_index :: "nat \<Rightarrow> u64 \<Rightarrow> u32" where
  "level_index level pageAddress = ucast (drop_bit (9 * (level - 1)) pageAddress AND 0x1FF)"

definition map_page :: "u64 \<Rightarrow> u64 \<Rightarrow> u64 \<Rightarrow> 'a pm_state_scheme \<Rightarrow> 'a pm_state_scheme outcome" where
  "map_page root virtualAddress physical s =
     (let pageAddress = drop_bit PageShift (virtualAddress AND 0xFFFFFFFFFFFF);
          level4Index = level_index 4 pageAddress;
          level3Index = level_index 3 pageAddress;
          level2Index = level_index 2 pageAddress;
          level1Index = level_index 1 pageAddress
      in obind (ensure_table (entry_at root level4Index) s) (\<lambda>s1.
           let level3Address = pe2v s1 (load64 (mem s1) (entry_at root level4Index))
           in obind (ensure_table (entry_at level3Address level3Index) s1) (\<lambda>s2.
             let level2Address = pe2v s2 (load64 (mem s2) (entry_at level3Address level3Index))
             in obind (ensure_table (entry_at level2Address level2Index) s2) (\<lambda>s3.
               let level1Address = pe2v s3 (load64 (mem s3) (entry_at level2Address level2Index));
                   e = entry_at level1Address level1Index;
                   m1 = set_entry PhysicalAddress (drop_bit PageShift physical) e (mem s3);
                   m2 = set_entry IsPresent 1 e m1;
                   m3 = set_entry IsWritable 1 e m2;
                   m4 = set_entry IsUserAccessible 1 e m3
               in Inr (s3\<lparr>mem := m4\<rparr>)))))"

definition shallowCopy :: "u64 \<Rightarrow> 'a pm_state_scheme \<Rightarrow> (u64 \<times> 'a pm_state_scheme) outcome" where
  "shallowCopy root s =
     obind (allocatePage s) (\<lambda>(addr, s1).
       Inr (addr, s1\<lparr>mem := fst (memcpy (mem s1) addr root PageSize)\<rparr>))"

section \<open>The walk of the processor\<close>

text \<open>
  What the processor does with the tables, from its manual and not from the kernel's code: each level
  is indexed with nine bits of the virtual address; bit 0 of an entry says that it is present, bit 7
  of an upper entry that it maps a large page, and bits 12 to 51 are the physical address. \<open>off\<close> is
  where physical memory starts in the address space the model's memory is indexed by.
\<close>

definition hw_frame :: "u64 \<Rightarrow> u64" where
  "hw_frame raw = push_bit 12 (take_bit 40 (drop_bit 12 raw))"

definition hw_index :: "nat \<Rightarrow> u64 \<Rightarrow> u64" where
  "hw_index shift va = take_bit 9 (drop_bit shift va)"

fun hw_walk :: "memory \<Rightarrow> u64 \<Rightarrow> u64 \<Rightarrow> u64 list \<Rightarrow> u64 option" where
  "hw_walk m off t [] = Some t"
| "hw_walk m off t (i # is) =
     (let raw = load64 m (t + 8 * i)
      in if bit raw 0 \<and> \<not> bit raw 7 then hw_walk m off (hw_frame raw + off) is else None)"

definition hw_leaf :: "memory \<Rightarrow> u64 \<Rightarrow> u64 \<Rightarrow> u64 list \<Rightarrow> u64 \<Rightarrow> u64 option" where
  "hw_leaf m off root is i =
     Option.bind (hw_walk m off root is) (\<lambda>t.
       let raw = load64 m (t + 8 * i) in if bit raw 0 then Some (hw_frame raw) else None)"

definition hw_translate :: "memory \<Rightarrow> u64 \<Rightarrow> u64 \<Rightarrow> u64 \<Rightarrow> u64 option" where
  "hw_translate m off root va =
     map_option (\<lambda>f. f + take_bit 12 va)
       (hw_leaf m off root [hw_index 39 va, hw_index 30 va, hw_index 21 va] (hw_index 12 va))"

text \<open>
  The rights of an access: bit \<open>b\<close> of every entry on the way must be set, where bit 1 allows writing and bit 2 allows user mode.
\<close>

fun hw_allows :: "nat \<Rightarrow> memory \<Rightarrow> u64 \<Rightarrow> u64 \<Rightarrow> u64 list \<Rightarrow> bool" where
  "hw_allows b m off t [] \<longleftrightarrow> True"
| "hw_allows b m off t (i # is) \<longleftrightarrow>
     (let raw = load64 m (t + 8 * i)
      in bit raw 0 \<and> bit raw b \<and> (is = [] \<or> \<not> bit raw 7 \<and> hw_allows b m off (hw_frame raw + off) is))"

definition hw_user_writes :: "memory \<Rightarrow> u64 \<Rightarrow> u64 \<Rightarrow> u64 \<Rightarrow> bool" where
  "hw_user_writes m off root va \<longleftrightarrow>
     (let is = [hw_index 39 va, hw_index 30 va, hw_index 21 va, hw_index 12 va] in hw_allows 1 m off root is \<and> hw_allows 2 m off root is)"

section \<open>Laws of the members\<close>

lemma field_pos_disjoint:
  "f \<noteq> g \<Longrightarrow> fst (field_pos f) + snd (field_pos f) \<le> fst (field_pos g)
     \<or> fst (field_pos g) + snd (field_pos g) \<le> fst (field_pos f)"
  by (cases f; cases g; simp)

lemma field_pos_bound: "fst (field_pos f) + snd (field_pos f) \<le> 64"
  by (cases f) simp_all

lemma bit_pte_get:
  "bit (pte_get f raw) n \<longleftrightarrow> n < snd (field_pos f) \<and> bit raw (fst (field_pos f) + n)"
  by (auto simp: pte_get_def split_beta Let_def bit_simps)

lemma bit_pte_set:
  "bit (pte_set f v raw) n \<longleftrightarrow>
     (if fst (field_pos f) \<le> n \<and> n < fst (field_pos f) + snd (field_pos f)
      then bit v (n - fst (field_pos f)) else bit raw n)"
proof (cases "n < 64")
  case True
  then show ?thesis by (auto simp: pte_set_def split_beta Let_def bit_simps)
next
  case False
  then show ?thesis using field_pos_bound[of f]
    by (auto simp: pte_set_def split_beta Let_def bit_simps dest: bit_imp_le_length)
qed

lemma pte_get_set_same: "pte_get f (pte_set f v raw) = take_bit (snd (field_pos f)) v"
  using field_pos_bound[of f]
  by (intro bit_word_eqI) (auto simp: bit_pte_get bit_pte_set bit_simps)

lemma pte_get_set_other: "f \<noteq> g \<Longrightarrow> pte_get g (pte_set f v raw) = pte_get g raw"
  using field_pos_disjoint[of f g]
  by (intro bit_word_eqI) (auto simp: bit_pte_get bit_pte_set)

lemma pte_get_zero [simp]: "pte_get f 0 = 0"
  by (simp add: pte_get_def split_beta)

lemma field_pos_covers:
  assumes "n < 64"
  shows "\<exists>h. fst (field_pos h) \<le> n \<and> n < fst (field_pos h) + snd (field_pos h)"
proof -
  have n: "n = 0 \<or> n = 1 \<or> n = 2 \<or> n = 3 \<or> n = 4 \<or> n = 5 \<or> n = 6 \<or> n = 7 \<or> n = 8 \<or> (9 \<le> n \<and> n < 12)
    \<or> (12 \<le> n \<and> n < 40) \<or> (40 \<le> n \<and> n < 52) \<or> (52 \<le> n \<and> n < 63) \<or> n = 63" using assms by presburger
  let ?P = "\<lambda>h. fst (field_pos h) \<le> n \<and> n < fst (field_pos h) + snd (field_pos h)"
  have "?P IsPresent \<or> ?P IsWritable \<or> ?P IsUserAccessible \<or> ?P WriteThrough \<or> ?P CacheDisabled \<or> ?P HasBeenAccessed
    \<or> ?P Available1 \<or> ?P PageSizeBit \<or> ?P IsGlobal \<or> ?P Available2 \<or> ?P PhysicalAddress \<or> ?P Reserved
    \<or> ?P Available3 \<or> ?P ExecutionDisabled"
    using n by (elim disjE) simp_all
  then show ?thesis by blast
qed

text \<open>
  The members of a page table entry do not interfere: what is stored in a member is read back
  from it, cut to its width, no other member changes, and together the members make up the whole
  quad word.
\<close>

theorem pte_members:
  "pte_get g (pte_set f v raw) = (if f = g then take_bit (snd (field_pos f)) v else pte_get g raw)
   \<and> ((\<forall>h. pte_get h raw = pte_get h raw') \<longleftrightarrow> raw = raw')"
proof -
  have "bit raw n = bit raw' n" if h: "\<forall>h. pte_get h raw = pte_get h raw'" and n: "n < 64" for n
  proof -
    obtain h where p: "fst (field_pos h) \<le> n" "n - fst (field_pos h) < snd (field_pos h)"
      using field_pos_covers[OF n] by force
    have "bit (pte_get h raw) (n - fst (field_pos h)) = bit (pte_get h raw') (n - fst (field_pos h))"
      using h by simp
    then show ?thesis using p by (simp add: bit_pte_get)
  qed
  then show ?thesis
    by (auto simp: pte_get_set_same pte_get_set_other intro!: bit_word_eqI)
qed

section \<open>Addresses in entries\<close>

lemma pte_get_bits: "pte_get IsPresent raw = 0 \<longleftrightarrow> \<not> bit raw 0" "pte_get PageSizeBit raw = 0 \<longleftrightarrow> \<not> bit raw 7"
  "pte_get IsWritable raw = 0 \<longleftrightarrow> \<not> bit raw 1" "pte_get IsUserAccessible raw = 0 \<longleftrightarrow> \<not> bit raw 2"
proof -
  have "pte_get f raw = 0 \<longleftrightarrow> \<not> bit raw (fst (field_pos f))" if "snd (field_pos f) = 1" for f
    unfolding bit_eq_iff[of _ 0] bit_pte_get that by (auto dest: spec[of _ 0])
  then show "pte_get IsPresent raw = 0 \<longleftrightarrow> \<not> bit raw 0" "pte_get PageSizeBit raw = 0 \<longleftrightarrow> \<not> bit raw 7"
    "pte_get IsWritable raw = 0 \<longleftrightarrow> \<not> bit raw 1" "pte_get IsUserAccessible raw = 0 \<longleftrightarrow> \<not> bit raw 2"
    by (simp_all del: bit_0)
qed

lemma hw_frame_low:
  assumes "pte_get Reserved raw = 0"
  shows "hw_frame raw = push_bit 12 (pte_get PhysicalAddress raw)"
proof (rule bit_word_eqI)
  fix n assume "n < LENGTH(64)"
  have "\<not> bit raw k" if "40 \<le> k" "k < 52" for k
    using assms that bit_pte_get[of Reserved raw "k - 40"] by simp
  then show "bit (hw_frame raw) n = bit (push_bit 12 (pte_get PhysicalAddress raw)) n"
    by (cases "n < 40") (auto simp: hw_frame_def bit_simps bit_pte_get)
qed

lemma bit_address_shifted:
  "bit (address_shifted raw) n \<longleftrightarrow> n < 64 \<and> 12 \<le> n \<and> bit (pte_get PhysicalAddress raw) (min n 31 - 12)"
  by (auto simp: address_shifted_def PageShift_def bit_simps min_def)

lemma address_shifted_iff:
  "address_shifted raw = push_bit 12 (pte_get PhysicalAddress raw) \<longleftrightarrow> pte_get PhysicalAddress raw < 2 ^ 19"
proof -
  let ?w = "pte_get PhysicalAddress raw"
  have b: "bit (push_bit 12 ?w) n \<longleftrightarrow> n < 64 \<and> 12 \<le> n \<and> bit ?w (n - 12)" for n
    by (auto simp: bit_simps)
  have w28: "\<not> bit ?w n" if "28 \<le> n" for n using that by (simp add: bit_pte_get)
  show ?thesis
  proof
    assume eq: "address_shifted raw = push_bit 12 ?w"
    have "bit ?w 19 = bit ?w 51" using eq bit_address_shifted[of raw 63] b[of 63] by simp
    then have "\<not> bit ?w 19" using w28[of 51] by simp
    then have "\<not> bit ?w n" if "19 \<le> n" for n
      using that eq bit_address_shifted[of raw "n + 12"] b[of "n + 12"] w28[of n]
      by (cases "28 \<le> n") (auto simp: min_def split: if_splits)
    then show "?w < 2 ^ 19" by (simp add: word_lt_iff_bits[of 19 "?w", simplified])
  next
    assume "?w < 2 ^ 19"
    then have "\<forall>n \<ge> 19. \<not> bit ?w n" by (simp add: word_lt_iff_bits[of 19 "?w", simplified])
    then show "address_shifted raw = push_bit 12 ?w"
      by (intro bit_word_eqI) (auto simp: bit_address_shifted b min_def split: if_splits)
  qed
qed

text \<open>
  C29. The kernel finds a lower table where the processor finds it exactly when the table lies in the
  first two gigabytes of physical memory. The entry's 28-bit frame number is shifted as a 32-bit
  signed integer: from two gigabytes on the sign is extended, from four gigabytes on the upper
  bits are lost, and both give an address other than the one the processor uses.
\<close>

theorem pe2v_below_2GiB:
  assumes "pte_get Reserved raw = 0"
  shows "(pe2v s raw = hw_frame raw + HigherHalfDirectMapOffset s \<longleftrightarrow> pte_get PhysicalAddress raw < 2 ^ 19)
    \<and> pe2v s (pte_set PhysicalAddress (2 ^ 19) raw) = 0xFFFFFFFF80000000 + HigherHalfDirectMapOffset s
    \<and> pe2v s (pte_set PhysicalAddress (2 ^ 20) raw) = HigherHalfDirectMapOffset s"
proof -
  have "address_shifted (pte_set PhysicalAddress (2 ^ 19) raw) = 0xFFFFFFFF80000000"
    "address_shifted (pte_set PhysicalAddress (2 ^ 20) raw) = 0"
    by (simp_all add: address_shifted_def pte_get_set_same PageShift_def)
  then show ?thesis
    using address_shifted_iff[of raw] hw_frame_low[OF assms] by (simp add: pe2v_def)
qed

theorem pe2v_below_2GiB_witness:
  "pte_get Reserved 0x5003 = 0
   \<and> pe2v \<lparr>mem = \<lambda>_. 0, CPUs = [], lapicIDReg = 0, rflags = 0, outb_log = [], pm_lockword = 0,
       pm_freeList = 0, HigherHalfDirectMapOffset = 0xFFFF800000000000\<rparr> 0x5003
     = hw_frame 0x5003 + 0xFFFF800000000000"
proof -
  have "pte_get Reserved 0x5003 = 0" "pte_get PhysicalAddress 0x5003 < 2 ^ 19"
    by (simp_all add: pte_get_def word_less_nat_alt)
  then show ?thesis
    using pe2v_below_2GiB[of "0x5003" "\<lparr>mem = \<lambda>_. 0, CPUs = [], lapicIDReg = 0, rflags = 0, outb_log = [],
       pm_lockword = 0, pm_freeList = 0, HigherHalfDirectMapOffset = 0xFFFF800000000000\<rparr>"] by simp
qed

end
