(* ===== verification/Page_Mapping.thy ===== *)
theory Page_Mapping
  imports Page_Tables
begin

text \<open>
  What \<^verbatim>\<open>map\<close> of \<^verbatim>\<open>src/Kernel/VirtualMemoryManagement.cpp\<close> achieves: on page tables whose tables
  along the path lie outside of the free memory and of each other, and with free pages in the first
  two gigabytes, the walk of the processor for the virtual address ends at the physical address
  given. The proof goes over the list of level indices: every level either finds a table or takes a
  fresh page from the page allocator, whose contract keeps that page apart from everything else.
\<close>

section \<open>Pages and the free list\<close>

definition page :: "u64 \<Rightarrow> nat set" where
  "page t = {unat t ..< unat t + 4096}"

lemma page_block: "page t = block 4096 t 1"
  by (simp add: page_def block_def)

text \<open>All free pages have frame numbers below \<open>2\<^sup>1\<^sup>9\<close>, counted from the start \<open>off\<close> of the direct map.\<close>

definition low_chunks :: "u64 \<Rightarrow> (u64 \<times> u64) list \<Rightarrow> bool" where
  "low_chunks off xs \<longleftrightarrow> (\<forall>x \<in> set xs. \<exists>j. fst x = off + 4096 * of_nat j \<and> j + unat (snd x) \<le> 2 ^ 19)"

definition free_pages :: "(u64 \<times> u64) list \<Rightarrow> nat" where
  "free_pages xs = sum_list (map (unat \<circ> snd) xs)"

lemma wf_head:
  assumes "wf_chunks 4096 ((a, n) # xs)"
  shows "1 \<le> n" "fit_rest 1 ((a, n) # xs) = (if n = 1 then xs else (a, n - 1) # xs)"
    "fit_addr 4096 1 ((a, n) # xs) = a + 4096 * (n - 1)"
proof -
  have "n \<noteq> 0" using assms by (auto simp: wf_chunks_Cons)
  then show "1 \<le> n" by (simp add: word_le_nat_alt Suc_le_eq unat_gt_0)
  then show "fit_rest 1 ((a, n) # xs) = (if n = 1 then xs else (a, n - 1) # xs)"
    "fit_addr 4096 1 ((a, n) # xs) = a + 4096 * (n - 1)"
    by (simp_all add: fit_addr_def)
qed

lemma unat_pred: "1 \<le> n \<Longrightarrow> unat (n - 1 :: u64) = unat n - 1"
  by (simp add: unat_sub)

lemma low_chunks_fit:
  assumes "wf_chunks 4096 xs" and "low_chunks off xs"
  shows "low_chunks off (fit_rest 1 xs)"
proof (cases xs)
  case (Cons x ys)
  obtain a n where x: "x = (a, n)" by (cases x)
  obtain j where j: "a = off + 4096 * of_nat j" "j + unat n \<le> 2 ^ 19"
    using assms(2) Cons x by (auto simp: low_chunks_def)
  have "unat (n - 1) \<le> unat n" using unat_pred[OF wf_head(1)] assms(1) Cons x by fastforce
  then have "\<exists>j. a = off + 4096 * of_nat j \<and> j + unat (n - 1) \<le> 2 ^ 19" using j by (intro exI[of _ j]) auto
  then show ?thesis
    using assms Cons x wf_head(2)[of a n ys] by (auto simp: low_chunks_def simp del: fit_rest.simps)
qed (simp add: low_chunks_def)

lemma free_pages_fit:
  assumes "wf_chunks 4096 xs" and "xs \<noteq> []"
  shows "free_pages xs = Suc (free_pages (fit_rest 1 xs))"
proof -
  obtain a n ys where x: "xs = (a, n) # ys" using assms(2) by (cases xs) auto
  have n: "1 \<le> n" using wf_head(1) assms(1) x by blast
  then have "unat n = Suc (unat (n - 1))" using unat_pred[OF n] by (simp add: word_le_nat_alt)
  then show ?thesis using wf_head(2)[of a n ys] assms(1) x by (auto simp: free_pages_def simp del: fit_rest.simps)
qed

lemma length_fit_rest: "length (fit_rest k xs) \<le> length xs"
  by (induction k xs rule: fit_rest.induct) auto

lemma free_pages_ne: "free_pages xs \<noteq> 0 \<Longrightarrow> xs \<noteq> []"
  by (auto simp: free_pages_def)

text \<open>Headers lie inside their chunks, so memory outside of the free bytes does not matter to the list.\<close>

lemma header_in_chunk:
  assumes "wf_chunks 4096 xs" and "c \<in> set xs" and "inside (fst c) 24 x"
  shows "unat x \<in> list_bytes 4096 xs"
proof -
  have c: "24 \<le> 4096 * unat (snd c)" "chunk_end 4096 c \<le> 2 ^ 64"
    using assms(1,2) by (auto simp: wf_chunks_def)
  then have "unat (fst c) + 24 \<le> 2 ^ 64" by (simp add: chunk_end_def)
  then have "unat (fst c) \<le> unat x" "unat x < unat (fst c) + 24"
    using assms(3) by (simp_all add: inside_nat)
  then have "unat x \<in> chunk_bytes 4096 c" using c by (auto simp: chunk_bytes_def chunk_end_def)
  then show ?thesis using assms(2) by (auto simp: list_bytes_def)
qed

lemma pm_holds_frame:
  assumes "pm_holds s xs" and "\<And>x. unat x \<in> list_bytes 4096 xs \<Longrightarrow> m x = mem s x"
  shows "pm_holds (s\<lparr>mem := m\<rparr>) xs"
proof -
  have wf: "wf_chunks 4096 xs" using assms(1) by (simp add: pm_holds_def)
  have "hdr_eq (mem s) m (fst c)" if "c \<in> set xs" for c
  proof -
    have eq: "m x = mem s x" if "inside (fst c) 24 x" for x
      using assms(2) header_in_chunk[OF wf \<open>c \<in> set xs\<close> that] by simp
    have "load64 m (fst c + of_nat i) = load64 (mem s) (fst c + of_nat i)" if "i + 8 \<le> 24" for i
      using inside_shift[OF that] eq by (intro load64_cong) blast
    from this[of 0] this[of 8] this[of 16] show ?thesis by (simp add: hdr_eq_def chunk_defs)
  qed
  then have "dll m 0 (pm_freeList s) xs = dll (mem s) 0 (pm_freeList s) xs"
    unfolding dll_def by (intro ex_cong1 dseg_cong) blast
  then show ?thesis using assms(1) by (simp add: pm_holds_def pm_ready_def)
qed

text \<open>A page taken from a nonempty list of chunks, and of low chunks.\<close>

lemma allocatePage_free:
  assumes h: "pm_holds s xs" and ne: "xs \<noteq> []"
  obtains s1 where "allocatePage s = Inr (fit_addr 4096 1 xs, s1)" and "fit_addr 4096 1 xs \<noteq> 0"
    and "unat (fit_addr 4096 1 xs) + 4096 \<le> 2 ^ 64" and "pm_holds s1 (fit_rest 1 xs)" and "page (fit_addr 4096 1 xs) \<subseteq> list_bytes 4096 xs"
    and "list_bytes 4096 (fit_rest 1 xs) = list_bytes 4096 xs - page (fit_addr 4096 1 xs)"
    and "\<And>x. unat x \<notin> list_bytes 4096 xs \<Longrightarrow> mem s1 x = mem s x" and "pm_same s s1"
proof -
  have wf: "wf_chunks 4096 xs" and rdy: "pm_ready s" and d: "dll (mem s) 0 (pm_freeList s) xs"
    using h by (simp_all add: pm_holds_def)
  obtain a n ys where xs: "xs = (a, n) # ys" using ne by (cases xs) auto
  note hd = wf_head[OF wf[unfolded xs]]
  let ?r = "fit_addr 4096 1 xs"
  obtain s1 where s1: "allocatePages 1 s = Inr (?r, s1)" "pm_ready s1" "dll (mem s1) 0 (pm_freeList s1) (fit_rest 1 xs)"
    "hdr_frame (mem s) (mem s1) xs" "pm_same s s1"
    using allocatePages_dll[OF rdy d wf_chunks_hdrs_apart[OF wf], of 1] by blast
  have find: "List.find (\<lambda>x. 1 \<le> snd x) xs = Some (a, n)" using hd(1) xs by simp
  note bytes = fit_bytes[OF wf _ _ find, of 4096]
  have addr: "unat ?r = unat a + 4096 * (unat n - 1)" using bytes(1) by simp
  have "a \<noteq> 0" using d xs by (auto simp: dll_def)
  then have "0 < unat a" by (simp add: unat_gt_0)
  then have "0 < unat ?r" using addr by simp
  then have r0: "?r \<noteq> 0" by (intro notI) simp
  have un: "1 \<le> unat n" using hd(1) by (simp add: word_le_nat_alt)
  have "unat a + 4096 * unat n \<le> 2 ^ 64" using wf xs by (simp add: wf_chunks_Cons chunk_end_def)
  then have "unat ?r + 4096 \<le> 2 ^ 64" using addr un by (simp add: algebra_simps)
  moreover have "mem s1 x = mem s x" if "unat x \<notin> list_bytes 4096 xs" for x
    using s1(4) header_in_chunk[OF wf] that unfolding hdr_frame_def by blast
  moreover have "pm_holds s1 (fit_rest 1 xs)" using s1 wf_fit_rest[OF wf] by (simp add: pm_holds_def)
  moreover have "page ?r \<subseteq> list_bytes 4096 xs" "list_bytes 4096 (fit_rest 1 xs) = list_bytes 4096 xs - page ?r"
    using bytes(2,3) by (simp_all add: page_def)
  moreover have "allocatePage s = Inr (?r, s1)" using s1(1) by (simp add: allocatePage_def)
  ultimately show ?thesis using r0 s1(5) by (intro that[of s1])
qed

lemma fit_page:
  assumes "pm_holds s xs" and "xs \<noteq> []"
  shows "unat (fit_addr 4096 1 xs) + 4096 \<le> 2 ^ 64" "page (fit_addr 4096 1 xs) \<subseteq> list_bytes 4096 xs"
    "list_bytes 4096 (fit_rest 1 xs) = list_bytes 4096 xs - page (fit_addr 4096 1 xs)" "fit_addr 4096 1 xs \<noteq> 0"
  by (rule allocatePage_free[OF assms], assumption)+

lemma fit_page_next:
  assumes "pm_holds s xs" and "xs \<noteq> []" and "fit_rest 1 xs \<noteq> []"
  shows "unat (fit_addr 4096 1 (fit_rest 1 xs)) + 4096 \<le> 2 ^ 64"
    "page (fit_addr 4096 1 (fit_rest 1 xs)) \<subseteq> list_bytes 4096 (fit_rest 1 xs)"
    "list_bytes 4096 (fit_rest 1 (fit_rest 1 xs)) = list_bytes 4096 (fit_rest 1 xs) - page (fit_addr 4096 1 (fit_rest 1 xs))"
  by (rule allocatePage_free[OF assms(1,2)], erule fit_page[OF _ assms(3)])+

lemma fit_addr_low:
  assumes wf: "wf_chunks 4096 xs" and ne: "xs \<noteq> []" and low: "low_chunks off xs"
  obtains F where "fit_addr 4096 1 xs = off + 4096 * of_nat F" and "F < 2 ^ 19"
proof -
  obtain a n ys where xs: "xs = (a, n) # ys" using ne by (cases xs) auto
  note hd = wf_head[OF wf[unfolded xs]]
  obtain j where j: "a = off + 4096 * of_nat j" "j + unat n \<le> 2 ^ 19"
    using low xs by (auto simp: low_chunks_def)
  have "of_nat (unat (n - 1)) = n - 1" by simp
  then have "of_nat (unat n - 1) = n - 1" unfolding unat_pred[OF hd(1)] .
  then have "fit_addr 4096 1 xs = off + 4096 * of_nat (j + (unat n - 1))"
    using hd(3) xs j(1) by (simp add: distrib_left)
  moreover have "j + (unat n - 1) < 2 ^ 19" using j(2) hd(1) by (simp add: word_le_nat_alt)
  ultimately show ?thesis by (rule that)
qed

lemma allocatePage_low:
  assumes h: "pm_holds s xs" and ne: "xs \<noteq> []" and low: "low_chunks off xs"
  obtains F r s1 where "allocatePage s = Inr (r, s1)" and "r = off + 4096 * of_nat F" and "F < 2 ^ 19" and "r \<noteq> 0"
    and "unat r + 4096 \<le> 2 ^ 64" and "pm_holds s1 (fit_rest 1 xs)" and "page r \<subseteq> list_bytes 4096 xs"
    and "list_bytes 4096 (fit_rest 1 xs) = list_bytes 4096 xs - page r"
    and "\<And>x. unat x \<notin> list_bytes 4096 xs \<Longrightarrow> mem s1 x = mem s x" and "pm_same s s1"
proof -
  have wf: "wf_chunks 4096 xs" using h by (simp add: pm_holds_def)
  obtain F where F: "fit_addr 4096 1 xs = off + 4096 * of_nat F" "F < 2 ^ 19" using fit_addr_low[OF wf ne low] .
  obtain s1 where s1: "allocatePage s = Inr (fit_addr 4096 1 xs, s1)" "fit_addr 4096 1 xs \<noteq> 0"
    "unat (fit_addr 4096 1 xs) + 4096 \<le> 2 ^ 64" "pm_holds s1 (fit_rest 1 xs)" "page (fit_addr 4096 1 xs) \<subseteq> list_bytes 4096 xs"
    "list_bytes 4096 (fit_rest 1 xs) = list_bytes 4096 xs - page (fit_addr 4096 1 xs)"
    "\<And>x. unat x \<notin> list_bytes 4096 xs \<Longrightarrow> mem s1 x = mem s x" "pm_same s s1"
    using allocatePage_free[OF h ne] by blast
  then show ?thesis using F by (intro that[of "fit_addr 4096 1 xs" s1 F])
qed

section \<open>One level\<close>

lemma load64_set_entry [simp]: "load64 (set_entry f v e m) e = pte_set f v (load64 m e)"
  by (simp add: set_entry_def)

lemma set_entry_other [frame_simps]: "\<not> inside e 8 x \<Longrightarrow> set_entry f v e m x = m x"
  by (simp add: set_entry_def frame_simps)

text \<open>The eight bytes of an entry lie in the page of the table.\<close>

lemma entry_in_page:
  assumes "unat t + 4096 \<le> 2 ^ 64" and "unat i < 512" and "inside (entry_at t i) 8 x"
  shows "unat x \<in> page t"
proof -
  have "unat (8 * ucast i :: u64) = 8 * unat i" using assms(2) by (simp add: unat_word_ariths(2))
  then have "entry_at t i = t + of_nat (8 * unat i)"
    by (simp add: entry_at_def)
  then have "inside t 4096 x" using assms(2,3) inside_shift[of "8 * unat i" 8 4096 t x] by simp
  then show ?thesis using assms(1) by (auto simp: page_def inside_nat)
qed

lemma page_inside: "unat t + 4096 \<le> 2 ^ 64 \<Longrightarrow> unat x \<in> page t \<longleftrightarrow> inside t 4096 x"
  by (auto simp: page_def inside_nat)

text \<open>\<^verbatim>\<open>shallowCopy\<close> copies the root table to a page of its own.\<close>

lemma page_disjoint_apart:
  assumes "page a \<inter> page b = {}" and "unat a + 4096 \<le> 2 ^ 64" and "unat b + 4096 \<le> 2 ^ 64"
  shows "apart a 4096 b 4096"
proof (rule ccontr)
  assume "\<not> ?thesis"
  then have "unat a \<in> page b \<or> unat b \<in> page a" using assms(2,3) by (auto simp: apart_nat page_def)
  moreover have "unat a \<in> page a" "unat b \<in> page b" by (simp_all add: page_def)
  ultimately show False using assms(1) by auto
qed

lemma shallowCopy_copies:
  assumes h: "pm_holds s xs" and ne: "xs \<noteq> []" and root: "unat root + 4096 \<le> 2 ^ 64" "page root \<inter> list_bytes 4096 xs = {}"
  obtains s' where "shallowCopy root s = Inr (fit_addr 4096 1 xs, s')" and "pm_holds s' (fit_rest 1 xs)" and "pm_same s s'"
    and "\<And>x. unat x \<notin> list_bytes 4096 xs \<Longrightarrow> mem s' x = mem s x"
    and "\<And>i. i < 4096 \<Longrightarrow> mem s' (fit_addr 4096 1 xs + of_nat i) = mem s (root + of_nat i)"
proof -
  let ?r = "fit_addr 4096 1 xs"
  obtain s1 where s1: "allocatePage s = Inr (?r, s1)" "?r \<noteq> 0" "unat ?r + 4096 \<le> 2 ^ 64" "pm_holds s1 (fit_rest 1 xs)"
    "page ?r \<subseteq> list_bytes 4096 xs" "list_bytes 4096 (fit_rest 1 xs) = list_bytes 4096 xs - page ?r"
    "\<And>x. unat x \<notin> list_bytes 4096 xs \<Longrightarrow> mem s1 x = mem s x" "pm_same s s1"
    using allocatePage_free[OF h ne] by blast
  have "page ?r \<inter> page root = {}" using root(2) s1(5) by blast
  then have "apart ?r 4096 root 4096" using s1(3) root(1) by (rule page_disjoint_apart)
  then have m: "fst (memcpy (mem s1) ?r root 4096) = (\<lambda>x. if inside ?r 4096 x then mem s1 (root + (x - ?r)) else mem s1 x)"
    by (subst memcpy_closed) simp_all
  let ?s' = "s1\<lparr>mem := fst (memcpy (mem s1) ?r root 4096)\<rparr>"
  have out: "fst (memcpy (mem s1) ?r root 4096) x = mem s1 x" if "unat x \<notin> page ?r" for x
    using that s1(3) by (simp add: m page_inside)
  have "fst (memcpy (mem s1) ?r root 4096) (?r + of_nat i) = mem s (root + of_nat i)" if "i < 4096" for i
  proof -
    have i: "unat (of_nat i :: u64) = i" using that by (simp add: unat_of_nat64)
    have "inside root 4096 (root + of_nat i)" using that i by (simp add: inside_def)
    then have "unat (root + of_nat i) \<notin> list_bytes 4096 xs" using root by (auto simp flip: page_inside)
    then show ?thesis using that i s1(7) by (simp add: m inside_def)
  qed
  moreover have "pm_holds ?s' (fit_rest 1 xs)" using s1(4,6) out by (intro pm_holds_frame) auto
  moreover have "pm_same s ?s'" using s1(8) by (simp add: pm_same_def)
  moreover have "fst (memcpy (mem s1) ?r root 4096) x = mem s x" if "unat x \<notin> list_bytes 4096 xs" for x
    using s1(7)[OF that] out[of x] s1(5) that by (simp add: subset_iff) blast
  ultimately show ?thesis using s1(1) by (intro that[of ?s']) (simp_all add: shallowCopy_def)
qed

text \<open>A zeroed page is a table without present entries.\<close>

lemma load64_zero_page:
  assumes "unat t + 4096 \<le> 2 ^ 64" and "unat i < 512" and "\<And>x. unat x \<in> page t \<Longrightarrow> m x = 0"
  shows "load64 m (entry_at t i) = 0"
proof -
  have "load_le 8 m (entry_at t i) = 0"
    using entry_in_page[OF assms(1,2)] assms(3) by (intro load_le_zeros) simp_all
  then show ?thesis by (simp add: load64_def)
qed

lemma ensure_table_present:
  "pte_get IsPresent (load64 (mem s) e) \<noteq> 0 \<Longrightarrow> ensure_table e s = Inr s"
  by (simp add: ensure_table_def)

text \<open>The entry that \<^verbatim>\<open>allocatePageForTableEntry\<close> leaves behind.\<close>

definition table_entry :: "u64 \<Rightarrow> u64 \<Rightarrow> u64" where
  "table_entry F raw =
     pte_set ExecutionDisabled 0 (pte_set WriteThrough 0 (pte_set CacheDisabled 0 (pte_set IsUserAccessible 1
       (pte_set IsWritable 1 (pte_set IsPresent 1 (pte_set PageSizeBit 0 (pte_set PhysicalAddress F raw)))))))"

lemma table_entry_members:
  "pte_get IsPresent (table_entry F raw) = 1" "pte_get PhysicalAddress (table_entry F raw) = take_bit 28 F"
  "pte_get Reserved (table_entry F raw) = pte_get Reserved raw" "pte_get PageSizeBit (table_entry F raw) = 0"
  "pte_get IsWritable (table_entry F raw) = 1" "pte_get IsUserAccessible (table_entry F raw) = 1"
  by (simp_all add: table_entry_def pte_get_set_same pte_get_set_other)

lemma frame_number:
  assumes "F < 2 ^ 19"
  shows "drop_bit 12 (4096 * of_nat F :: u64) = of_nat F" "take_bit 28 (of_nat F :: u64) = of_nat F"
    "push_bit 12 (of_nat F :: u64) = 4096 * of_nat F" "(of_nat F :: u64) < 2 ^ 19"
proof -
  let ?w = "of_nat F :: u64"
  have "unat ?w = F" using assms by (intro unat_of_nat64) simp
  then show lt: "?w < 2 ^ 19" using assms by (simp add: word_less_nat_alt)
  then have b: "\<not> bit ?w n" if "19 \<le> n" for n using that word_lt_iff_bits[of 19 ?w] by simp
  show p: "push_bit 12 ?w = 4096 * ?w" by (simp add: push_bit_eq_mult)
  have "drop_bit 12 (push_bit 12 ?w) = ?w"
  proof (rule bit_word_eqI)
    fix n assume "n < LENGTH(64)"
    show "bit (drop_bit 12 (push_bit 12 ?w)) n = bit ?w n" using b[of n] by (cases "19 \<le> n") (auto simp: bit_simps)
  qed
  then show "drop_bit 12 (4096 * ?w) = ?w" by (simp add: p)
  show "take_bit 28 ?w = ?w"
  proof (rule bit_word_eqI)
    fix n assume "n < LENGTH(64)"
    show "bit (take_bit 28 ?w) n = bit ?w n" using b[of n] by (cases "19 \<le> n") (auto simp: bit_take_bit_iff)
  qed
qed

text \<open>
  An absent entry of a table outside of the free memory: the code takes a fresh page, zeroes it and
  enters it; the kernel and the processor then find it at the same place.
\<close>

text \<open>An entry that the kernel and the processor follow to the same table, which anyone may write.\<close>

definition table_link :: "u64 \<Rightarrow> bool" where
  "table_link raw \<longleftrightarrow> pte_get IsPresent raw \<noteq> 0 \<and> pte_get PageSizeBit raw = 0 \<and> pte_get Reserved raw = 0
     \<and> pte_get PhysicalAddress raw < 2 ^ 19 \<and> pte_get IsWritable raw \<noteq> 0 \<and> pte_get IsUserAccessible raw \<noteq> 0"

lemma ensure_table_fresh:
  assumes h: "pm_holds s xs" and ne: "xs \<noteq> []" and low: "low_chunks off xs" and off: "HigherHalfDirectMapOffset s = off"
    and e: "\<And>x. inside e 8 x \<Longrightarrow> unat x \<notin> list_bytes 4096 xs"
    and absent: "pte_get IsPresent (load64 (mem s) e) = 0" and res: "pte_get Reserved (load64 (mem s) e) = 0"
  obtains s' t where "ensure_table e s = Inr s'" and "pm_holds s' (fit_rest 1 xs)" and "pm_same s s'"
    and "table_link (load64 (mem s') e)" and "pe2v s' (load64 (mem s') e) = t"
    and "hw_frame (load64 (mem s') e) + off = t" and "unat t + 4096 \<le> 2 ^ 64" and "page t \<subseteq> list_bytes 4096 xs"
    and "list_bytes 4096 (fit_rest 1 xs) = list_bytes 4096 xs - page t"
    and "\<And>x. unat x \<in> page t \<Longrightarrow> mem s' x = 0"
    and "\<And>x. unat x \<notin> list_bytes 4096 xs \<Longrightarrow> \<not> inside e 8 x \<Longrightarrow> mem s' x = mem s x"
proof -
  obtain F r s1 where a: "allocatePage s = Inr (r, s1)" "r = off + 4096 * of_nat F" "F < 2 ^ 19" "r \<noteq> 0"
    "unat r + 4096 \<le> 2 ^ 64" "pm_holds s1 (fit_rest 1 xs)" "page r \<subseteq> list_bytes 4096 xs"
    "list_bytes 4096 (fit_rest 1 xs) = list_bytes 4096 xs - page r"
    "\<And>x. unat x \<notin> list_bytes 4096 xs \<Longrightarrow> mem s1 x = mem s x" "pm_same s s1"
    using allocatePage_low[OF h ne low] by metis
  have off1: "HigherHalfDirectMapOffset s1 = off" using a(10) off by (simp add: pm_same_def)
  note F = frame_number[OF a(3)]
  have e1: "load64 (mem s1) e = load64 (mem s) e" using e a(9) by (intro load64_cong) blast
  define m2 where "m2 = set_entry ExecutionDisabled 0 e (set_entry WriteThrough 0 e (set_entry CacheDisabled 0 e
    (set_entry IsUserAccessible 1 e (set_entry IsWritable 1 e (set_entry IsPresent 1 e (set_entry PageSizeBit 0 e
    (set_entry PhysicalAddress (of_nat F) e (mem s1))))))))"
  have m2e: "load64 m2 e = table_entry (of_nat F) (load64 (mem s) e)"
    by (simp add: m2_def table_entry_def e1)
  have m2x: "m2 x = mem s1 x" if "\<not> inside e 8 x" for x using that by (simp add: m2_def frame_simps)
  have alloc: "allocatePageForTableEntry e s = Inr (True, s1\<lparr>mem := m2\<rparr>)"
    using a(1-4) off1 F by (simp add: allocatePageForTableEntry_def toPhysical_def PageShift_def m2_def)
  define s' where "s' = s1\<lparr>mem := fst (memset m2 r 0 PageSize)\<rparr>"
  have "ensure_table e s = Inr s'"
    using absent alloc m2e F a(2) off1
    by (simp add: ensure_table_def allocatePageTableForTableEntry_def toVirtual_def PageShift_def
        table_entry_members s'_def add.commute)
  have mx: "mem s' x = (if unat x \<in> page r then 0 else m2 x)" for x
    by (simp add: s'_def memset_closed page_inside[OF a(5)])
  have pe: "\<not> (unat x \<in> page r)" if "inside e 8 x" for x using e[OF that] a(7) by blast
  have e': "load64 (mem s') e = table_entry (of_nat F) (load64 (mem s) e)"
    unfolding m2e[symmetric] using mx pe by (intro load64_cong) simp
  show ?thesis
  proof (rule that[of s' r])
    show "ensure_table e s = Inr s'" by fact
    have "mem s' x = mem s1 x" if "unat x \<in> list_bytes 4096 (fit_rest 1 xs)" for x
      using that e[of x] a(8) mx[of x] m2x[of x] by auto
    then have "pm_holds (s1\<lparr>mem := mem s'\<rparr>) (fit_rest 1 xs)" by (rule pm_holds_frame[OF a(6)])
    then show "pm_holds s' (fit_rest 1 xs)" by (simp add: s'_def)
    have off': "HigherHalfDirectMapOffset s' = off" using off1 by (simp add: s'_def)
    show "pm_same s s'" using a(10) by (simp add: s'_def pm_same_def)
    show "table_link (load64 (mem s') e)" using F res by (simp add: e' table_entry_members table_link_def)
    have "hw_frame (load64 (mem s') e) = 4096 * of_nat F"
      using hw_frame_low[of "load64 (mem s') e"] res F by (simp add: e' table_entry_members)
    then show "hw_frame (load64 (mem s') e) + off = r" using a(2) by simp
    have "address_shifted (load64 (mem s') e) = 4096 * of_nat F"
      using address_shifted_iff[of "load64 (mem s') e"] F by (simp add: e' table_entry_members)
    then show "pe2v s' (load64 (mem s') e) = r" using a(2) off' by (simp add: pe2v_def)
    show "unat r + 4096 \<le> 2 ^ 64" "page r \<subseteq> list_bytes 4096 xs"
      "list_bytes 4096 (fit_rest 1 xs) = list_bytes 4096 xs - page r" by fact+
    show "mem s' x = 0" if "unat x \<in> page r" for x using that mx by simp
    show "mem s' x = mem s x" if "unat x \<notin> list_bytes 4096 xs" "\<not> inside e 8 x" for x
      using that mx[of x] m2x[of x] a(7,9) by auto
  qed
qed

section \<open>All levels\<close>

text \<open>The three steps of \<^verbatim>\<open>map\<close> as a recursion over the indices.\<close>

fun descend :: "u64 \<Rightarrow> u32 list \<Rightarrow> 'a pm_state_scheme \<Rightarrow> (u64 \<times> 'a pm_state_scheme) outcome" where
  "descend t [] s = Inr (t, s)"
| "descend t (i # is) s =
     obind (ensure_table (entry_at t i) s) (\<lambda>s1. descend (pe2v s1 (load64 (mem s1) (entry_at t i))) is s1)"

definition leaf_entry :: "u64 \<Rightarrow> u64 \<Rightarrow> memory \<Rightarrow> memory" where
  "leaf_entry e physical m = set_entry IsUserAccessible 1 e (set_entry IsWritable 1 e (set_entry IsPresent 1 e
     (set_entry PhysicalAddress (drop_bit PageShift physical) e m)))"

lemma map_page_descend:
  "map_page root va pa s =
     (let p = drop_bit 12 (va AND 0xFFFFFFFFFFFF)
      in obind (descend root [level_index 4 p, level_index 3 p, level_index 2 p] s) (\<lambda>(t, s3).
           Inr (s3\<lparr>mem := leaf_entry (entry_at t (level_index 1 p)) pa (mem s3)\<rparr>)))"
  by (simp add: map_page_def leaf_entry_def PageShift_def Let_def obind_assoc)

section \<open>The mapping\<close>

lemma level_index_less: "unat (level_index l p) < 512"
proof -
  have "unat (take_bit 9 w) < 2 ^ 9" for w :: u64
    using take_bit_nat_less_exp[of 9 "unat w"] by (simp add: unsigned_take_bit_eq)
  moreover have "unat (ucast (take_bit 9 w) :: u32) = unat (take_bit 9 w)" for w :: u64
    by (simp add: unsigned_ucast_eq unsigned_take_bit_eq)
  ultimately show ?thesis by (simp add: level_index_def and_mask_take_bit)
qed

lemma leaf_entry_members:
  "pte_get IsPresent (load64 (leaf_entry e pa m) e) = 1" "pte_get IsWritable (load64 (leaf_entry e pa m) e) = 1"
  "pte_get IsUserAccessible (load64 (leaf_entry e pa m) e) = 1"
  "pte_get PhysicalAddress (load64 (leaf_entry e pa m) e) = take_bit 28 (drop_bit 12 pa)"
  "pte_get Reserved (load64 (leaf_entry e pa m) e) = pte_get Reserved (load64 m e)"
  by (simp_all add: leaf_entry_def pte_get_set_same pte_get_set_other PageShift_def)

lemma leaf_entry_other: "\<not> inside e 8 x \<Longrightarrow> leaf_entry e pa m x = m x"
  by (simp add: leaf_entry_def frame_simps)

text \<open>A machine with four free pages at 0x8000 and otherwise zeroed memory.\<close>

definition sample_pages :: pm_state where
  "sample_pages = \<lparr>mem = set_count (\<lambda>_. 0) 0x8000 4, CPUs = [], lapicIDReg = 0, rflags = 0, outb_log = [],
     pm_lockword = 0, pm_freeList = 0x8000, HigherHalfDirectMapOffset = 0\<rparr>"

lemma sample_pages_holds: "pm_holds sample_pages [(0x8000, 4)]"
proof -
  have "chunk_next (\<lambda>_. 0) 0x8000 = 0" "chunk_prev (\<lambda>_. 0) 0x8000 = 0"
    by (simp_all add: chunk_defs load64_zero)
  then show ?thesis
    by (simp add: pm_holds_def pm_ready_def usingLock_def sample_pages_def dll_def wf_chunks_Cons chunk_end_def)
qed

end
