(* ===== verification/Process_Table.thy ===== *)
theory Process_Table
  imports Local_Apic Page_Mapping
begin

text \<open>
  Process management (\<^verbatim>\<open>src/Kernel/ProcessManagement.cpp\<close>, \<^verbatim>\<open>ProcessManagement.h\<close>): the switch between
  kernel stacks, the system call registers, the process table and the scheduler. The table is a list
  of its 64 entries behind a lock; kernel stacks and trap frames are bytes of memory. The scheduler
  never returns, so it is a step relation over program points, in which the time a process runs is
  any change of the state. The lemmas show that a switch there and back restores the registers, what
  a new process looks like and where its first switch leads, and which entries the scheduler ever
  looks at.
\<close>

section \<open>State\<close>

datatype State = Unused | Fresh | Runnable | Running

record ProcessInfo =
  pageTable :: u64
  state :: State
  kernelStack :: u64
  kernelTask :: u64
  trapFrame :: u64

text \<open>The registers that a switch of kernel stacks keeps, the stack pointer and the instruction pointer.\<close>

record kcontext =
  c_rbx :: u64
  c_rbp :: u64
  c_r12 :: u64
  c_r13 :: u64
  c_r14 :: u64
  c_r15 :: u64
  c_rsp :: u64
  c_rip :: u64

record proc_state = apic_state +
  KernelPageTable :: u64
  cr3 :: u64
  ctx :: kcontext
  ProcessTable :: "ProcessInfo list"
  ProcessTableSpinlock :: lock_word
  ProcessTable_addr :: u64

text \<open>The addresses that the linker gives to code.\<close>

record symbols =
  TrapRet :: u64
  ProcessEntryPoint_addr :: u64
  SyscallHandler :: u64
  MyFirstUserspace :: u64
  MyFirstUserspaceEnd :: u64

datatype InterruptRegister = R15 | R14 | R13 | R12 | R11 | R10 | R9 | R8 | Rbp | Rdi | Rsi | Rdx | Rcx | Rbx | Rax
  | InterruptNumber | ErrorCode | Rip | Cs | Rflags | Rsp | Ss

fun ir_offset :: "InterruptRegister \<Rightarrow> u64" where
  "ir_offset R15 = 0" | "ir_offset R14 = 8" | "ir_offset R13 = 16" | "ir_offset R12 = 24"
| "ir_offset R11 = 32" | "ir_offset R10 = 40" | "ir_offset R9 = 48" | "ir_offset R8 = 56"
| "ir_offset Rbp = 64" | "ir_offset Rdi = 72" | "ir_offset Rsi = 80" | "ir_offset Rdx = 88"
| "ir_offset Rcx = 96" | "ir_offset Rbx = 104" | "ir_offset Rax = 112"
| "ir_offset InterruptNumber = 120" | "ir_offset ErrorCode = 128"
| "ir_offset Rip = 136" | "ir_offset Cs = 144" | "ir_offset Rflags = 152" | "ir_offset Rsp = 160" | "ir_offset Ss = 168"

definition sizeof_InterruptRegisters :: u64 where "sizeof_InterruptRegisters = 22 * 8"
definition sizeof_KernelContext :: u64 where "sizeof_KernelContext = 7 * 8"
definition sizeof_ProcessInfo :: u64 where "sizeof_ProcessInfo = 8 + 8 + 8 + 8 + 8"
definition StackSize :: u64 where "StackSize = 16 * PageSize"

definition proc_ptr :: "'a proc_state_scheme \<Rightarrow> nat \<Rightarrow> u64" where
  "proc_ptr s i = ProcessTable_addr s + sizeof_ProcessInfo * of_nat i"

definition proc_of :: "'a proc_state_scheme \<Rightarrow> u64 \<Rightarrow> nat option" where
  "proc_of s p = List.find (\<lambda>i. proc_ptr s i = p) [0 ..< length (ProcessTable s)]"

definition set_proc :: "nat \<Rightarrow> ProcessInfo \<Rightarrow> 'a proc_state_scheme \<Rightarrow> 'a proc_state_scheme" where
  "set_proc i p s = s\<lparr>ProcessTable := (ProcessTable s)[i := p]\<rparr>"

section \<open>Switching stacks\<close>

definition push :: "u64 \<Rightarrow> u64 \<times> memory \<Rightarrow> u64 \<times> memory" where
  "push v sm = (fst sm - 8, store64 (snd sm) (fst sm - 8) v)"

definition pop :: "memory \<Rightarrow> u64 \<Rightarrow> u64 \<times> u64" where
  "pop m sp = (load64 m sp, sp + 8)"

text \<open>
  The call of \<^verbatim>\<open>Pause\<close> pushes the return address, its body the registers; the result is the stack
  pointer that is stored through the first argument, the new registers and the memory.
\<close>

definition Pause :: "u64 \<Rightarrow> kcontext \<Rightarrow> memory \<Rightarrow> u64 \<times> kcontext \<times> memory" where
  "Pause yieldTo c m =
     (let sm0 = push (c_rip c) (c_rsp c, m);
          sm1 = push (c_r15 c) sm0;
          sm2 = push (c_r14 c) sm1;
          sm3 = push (c_r13 c) sm2;
          sm4 = push (c_r12 c) sm3;
          sm5 = push (c_rbp c) sm4;
          (saved, m6) = push (c_rbx c) sm5;
          (rbx, sp1) = pop m6 yieldTo;
          (rbp, sp2) = pop m6 sp1;
          (r12, sp3) = pop m6 sp2;
          (r13, sp4) = pop m6 sp3;
          (r14, sp5) = pop m6 sp4;
          (r15, sp6) = pop m6 sp5;
          (rip, sp7) = pop m6 sp6
      in (saved, \<lparr>c_rbx = rbx, c_rbp = rbp, c_r12 = r12, c_r13 = r13, c_r14 = r14, c_r15 = r15,
                  c_rsp = sp7, c_rip = rip\<rparr>, m6))"

section \<open>System call registers\<close>

definition swapgs :: "'a apic_state_scheme \<Rightarrow> 'a apic_state_scheme" where
  "swapgs s = s\<lparr>msrs := (msrs s)(0xC0000101 := msrs s 0xC0000102, 0xC0000102 := msrs s 0xC0000101)\<rparr>"

definition setKernelGSBase :: "u64 \<Rightarrow> 'a apic_state_scheme \<Rightarrow> 'a apic_state_scheme" where
  "setKernelGSBase base s =
     swapgs (cpuSetMSR 0xC0000102 (ucast base) (ucast (drop_bit 32 base))
       (cpuSetMSR 0xC0000101 (ucast base) (ucast (drop_bit 32 base)) s))"

definition setSyscallRIP :: "symbols \<Rightarrow> 'a apic_state_scheme \<Rightarrow> 'a apic_state_scheme" where
  "setSyscallRIP sy s =
     (let base = SyscallHandler sy;
          (eax, edx) = cpuGetMSR 0xC0000080 s;
          s1 = cpuSetMSR 0xC0000080 (eax OR 1) edx s
      in cpuSetMSR 0xC0000082 (ucast base) (ucast (drop_bit 32 base)) s1)"

definition setStarRegister :: "'a apic_state_scheme \<Rightarrow> 'a apic_state_scheme" where
  "setStarRegister s =
     (let KernelSelector = of_nat (Table_offsetof KernelCode) OR ucast Ring0 :: u32;
          UserSelector = of_nat (Table_offsetof UserCode32) OR ucast Ring3 :: u32
      in cpuSetMSR 0xC0000081 0 (KernelSelector OR push_bit 16 UserSelector) s)"

section \<open>The process table\<close>

definition acquirePT :: "'a proc_state_scheme \<Rightarrow> 'a proc_state_scheme outcome" where
  "acquirePT s = obind (Spinlock_acquire (ProcessTableSpinlock s) s) (\<lambda>(w, s1). Inr (s1\<lparr>ProcessTableSpinlock := w\<rparr>))"

definition releasePT :: "'a proc_state_scheme \<Rightarrow> 'a proc_state_scheme outcome" where
  "releasePT s = obind (Spinlock_release (ProcessTableSpinlock s) s) (\<lambda>(w, s1). Inr (s1\<lparr>ProcessTableSpinlock := w\<rparr>))"

definition unused_process :: ProcessInfo where
  "unused_process = \<lparr>pageTable = 0, state = Unused, kernelStack = 0, kernelTask = 0, trapFrame = 0\<rparr>"

definition proc_init :: "'a proc_state_scheme \<Rightarrow> 'a proc_state_scheme" where
  "proc_init s = s\<lparr>ProcessTableSpinlock := Spinlock_init (ProcessTableSpinlock s), ProcessTable := replicate 64 unused_process\<rparr>"

fun find_unused :: "nat \<Rightarrow> ProcessInfo list \<Rightarrow> nat option" where
  "find_unused i [] = None"
| "find_unused i (p # ps) = (if state p = Unused then Some i else find_unused (i + 1) ps)"

text \<open>What \<^verbatim>\<open>allocateProcess\<close> puts on the page of the kernel stack: the return address behind the trap frame and the context.\<close>

definition prepare_stack :: "symbols \<Rightarrow> u64 \<Rightarrow> memory \<Rightarrow> memory" where
  "prepare_stack sy stack m =
     (let frame = stack + PageSize - sizeof_InterruptRegisters;
          m1 = store64 m (frame - 8) (TrapRet sy);
          task = frame - 8 - sizeof_KernelContext;
          m2 = fst (memset m1 task 0 sizeof_KernelContext)
      in store64 m2 (task + 48) (ProcessEntryPoint_addr sy))"

definition allocateProcess :: "symbols \<Rightarrow> 'a proc_state_scheme \<Rightarrow> (u64 \<times> 'a proc_state_scheme) outcome" where
  "allocateProcess sy s =
     obind (acquirePT s) (\<lambda>s1.
       case find_unused 0 (ProcessTable s1) of
         None \<Rightarrow> obind (releasePT s1) (\<lambda>s2. Inr (0, s2))
       | Some i \<Rightarrow>
           obind (shallowCopy (KernelPageTable s1) s1) (\<lambda>(pt, s2).
             let p2 = (ProcessTable s2 ! i)\<lparr>pageTable := pt, state := Fresh\<rparr>
             in obind (releasePT (set_proc i p2 s2)) (\<lambda>s3.
                  obind (allocatePage s3) (\<lambda>(stack, s4).
                    let p4 = (ProcessTable s4 ! i)\<lparr>kernelStack := stack\<rparr>
                    in if stack = 0 then Inr (0, set_proc i (p4\<lparr>state := Unused\<rparr>) s4)
                       else
                         let frame = stack + PageSize - sizeof_InterruptRegisters;
                             p5 = p4\<lparr>trapFrame := frame, kernelTask := frame - 8 - sizeof_KernelContext\<rparr>;
                             s5 = (set_proc i p5 s4)\<lparr>mem := prepare_stack sy stack (mem s4)\<rparr>
                         in Inr (proc_ptr s5 i, s5)))))"

definition freeProcess :: "u64 \<Rightarrow> 'a proc_state_scheme \<Rightarrow> 'a proc_state_scheme outcome" where
  "freeProcess proc s =
     obind (acquirePT s) (\<lambda>s1.
       case proc_of s1 proc of
         None \<Rightarrow> Inl NullDeref
       | Some i \<Rightarrow>
           let p = ProcessTable s1 ! i
           in obind (freePage (kernelStack p) (set_proc i (p\<lparr>state := Unused\<rparr>) s1)) releasePT)"

definition store_register :: "u64 \<Rightarrow> InterruptRegister \<Rightarrow> u64 \<Rightarrow> memory \<Rightarrow> memory" where
  "store_register frame r v m = store64 m (frame + ir_offset r) v"

definition first_frame :: "u64 \<Rightarrow> memory \<Rightarrow> memory" where
  "first_frame frame m =
     (let m1 = fst (memset m frame 0 sizeof_InterruptRegisters);
          m2 = store_register frame Cs (of_nat (Table_offsetof UserCode64) OR ucast Ring3) m1;
          m3 = store_register frame Ss (of_nat (Table_offsetof UserData64) OR ucast Ring3) m2;
          m4 = store_register frame Rflags 0x200 m3;
          m5 = store_register frame Rsp 0 m4
      in store_register frame Rip 0x1000 m5)"

definition createFirstProcess :: "symbols \<Rightarrow> 'a proc_state_scheme \<Rightarrow> 'a proc_state_scheme outcome" where
  "createFirstProcess sy s =
     obind (allocateProcess sy s) (\<lambda>(process, s1).
       obind (allocatePage s1) (\<lambda>(page, s2).
         let s3 = s2\<lparr>mem := fst (memcpy (mem s2) page (MyFirstUserspace sy) (MyFirstUserspaceEnd sy - MyFirstUserspace sy))\<rparr>
         in case proc_of s3 process of
              None \<Rightarrow> Inl NullDeref
            | Some i \<Rightarrow>
                obind (map_page (pageTable (ProcessTable s3 ! i)) 0x1000 (toPhysical s3 page) s3) (\<lambda>s4.
                  let s5 = s4\<lparr>mem := first_frame (trapFrame (ProcessTable s4 ! i)) (mem s4)\<rparr>
                  in obind (acquirePT s5) (\<lambda>s6.
                       releasePT (set_proc i ((ProcessTable s6 ! i)\<lparr>state := Runnable\<rparr>) s6)))))"

section \<open>Switching between processes\<close>

definition enterSchedulerFromProcess :: "'a proc_state_scheme \<Rightarrow> 'a proc_state_scheme outcome" where
  "enterSchedulerFromProcess s =
     (case thisCPU s of
        None \<Rightarrow> Inl NullDeref
      | Some c \<Rightarrow>
          (case proc_of s (currentProcess (CPUs s ! c)) of
             None \<Rightarrow> Inl NullDeref
           | Some i \<Rightarrow>
               let (saved, ctx', m') = Pause (schedulerTask (CPUs s ! c)) (ctx s) (mem s)
               in Inr (set_proc i ((ProcessTable s ! i)\<lparr>kernelTask := saved\<rparr>) (s\<lparr>ctx := ctx', mem := m'\<rparr>))))"

definition exitCurrentProcess :: "'a proc_state_scheme \<Rightarrow> 'a proc_state_scheme outcome" where
  "exitCurrentProcess s =
     (case thisCPU s of
        None \<Rightarrow> Inl NullDeref
      | Some c \<Rightarrow> obind (freeProcess (currentProcess (CPUs s ! c)) s) enterSchedulerFromProcess)"

definition ProcessEntryPoint :: "'a proc_state_scheme \<Rightarrow> 'a proc_state_scheme outcome" where
  "ProcessEntryPoint s = releasePT s"

text \<open>The body of the loop of \<^verbatim>\<open>schedule\<close> for a runnable process \<open>i\<close>, on the processor \<open>c\<close>, up to the switch.\<close>

definition dispatch :: "nat \<Rightarrow> nat \<Rightarrow> 'a proc_state_scheme \<Rightarrow> 'a proc_state_scheme outcome" where
  "dispatch c i s =
     obind (logfn ''found a process to run! :)\<newline>'' [] s) (\<lambda>(_, s1).
       let s2 = s1\<lparr>CPUs := (CPUs s1)[c := (CPUs s1 ! c)\<lparr>currentProcess := proc_ptr s1 i\<rparr>]\<rparr>;
           s3 = s2\<lparr>cr3 := toPhysical s2 (pageTable (ProcessTable s2 ! i))\<rparr>;
           s4 = set_proc i ((ProcessTable s3 ! i)\<lparr>state := Running\<rparr>) s3
       in obind (logfn ''sweeetch! :)\<newline>'' [] s4) (\<lambda>(_, s5).
            let (saved, ctx', m') = Pause (kernelTask (ProcessTable s5 ! i)) (ctx s5) (mem s5)
            in Inr (s5\<lparr>ctx := ctx', mem := m', CPUs := (CPUs s5)[c := (CPUs s5 ! c)\<lparr>schedulerTask := saved\<rparr>]\<rparr>)))"

text \<open>
  The program points of \<^verbatim>\<open>schedule\<close>. The loop assigns \<open>p = p++\<close>: the value of \<open>p++\<close> is the old
  pointer, and the assignment comes after the increment, so \<open>p\<close> keeps its value.
\<close>

datatype sched_pc = Top | Acquiring | Scan nat | InProcess nat

definition next_p :: "nat \<Rightarrow> nat" where
  "next_p p = (let old = p; incremented = p + 1 in old)"

definition schedule_start :: "nat \<Rightarrow> 'a proc_state_scheme \<Rightarrow> sched_pc \<times> 'a proc_state_scheme" where
  "schedule_start c s = (Top, s\<lparr>CPUs := (CPUs s)[c := (CPUs s ! c)\<lparr>currentProcess := 0\<rparr>]\<rparr>)"

inductive sched_step :: "('a proc_state_scheme \<Rightarrow> 'a proc_state_scheme \<Rightarrow> bool) \<Rightarrow> nat
    \<Rightarrow> sched_pc \<times> 'a proc_state_scheme \<Rightarrow> sched_pc \<times> 'a proc_state_scheme \<Rightarrow> bool"
  for process_runs :: "'a proc_state_scheme \<Rightarrow> 'a proc_state_scheme \<Rightarrow> bool" and c :: nat where
  enable: "sched_step process_runs c (Top, s) (Acquiring, sti s)"
| acquire: "acquirePT s = Inr s' \<Longrightarrow> sched_step process_runs c (Acquiring, s) (Scan 0, s')"
| skip: "p < 64 \<Longrightarrow> state (ProcessTable s ! p) \<noteq> Runnable \<Longrightarrow> sched_step process_runs c (Scan p, s) (Scan (next_p p), s)"
| run: "p < 64 \<Longrightarrow> state (ProcessTable s ! p) = Runnable \<Longrightarrow> dispatch c p s = Inr s' \<Longrightarrow>
    sched_step process_runs c (Scan p, s) (InProcess p, s')"
| return: "process_runs s s' \<Longrightarrow> sched_step process_runs c (InProcess p, s) (Scan (next_p p), s')"
| finish: "\<not> p < 64 \<Longrightarrow> releasePT s = Inr s' \<Longrightarrow> sched_step process_runs c (Scan p, s) (Top, s')"

inductive_cases sched_stepE: "sched_step R c x y"

section \<open>A switch there and back\<close>

text \<open>The context that is saved at an address, and the memory after a context was saved below its stack pointer.\<close>

definition load_context :: "memory \<Rightarrow> u64 \<Rightarrow> kcontext" where
  "load_context m sp = \<lparr>c_rbx = load64 m sp, c_rbp = load64 m (sp + 8), c_r12 = load64 m (sp + 16),
     c_r13 = load64 m (sp + 24), c_r14 = load64 m (sp + 32), c_r15 = load64 m (sp + 40),
     c_rsp = sp + 56, c_rip = load64 m (sp + 48)\<rparr>"

definition save_context :: "kcontext \<Rightarrow> memory \<Rightarrow> memory" where
  "save_context c m =
     (let sp = c_rsp c - 56
      in store64 (store64 (store64 (store64 (store64 (store64 (store64 m (sp + 48) (c_rip c)) (sp + 40) (c_r15 c))
           (sp + 32) (c_r14 c)) (sp + 24) (c_r13 c)) (sp + 16) (c_r12 c)) (sp + 8) (c_rbp c)) sp (c_rbx c))"

lemma Pause_eq: "Pause to c m = (c_rsp c - 56, load_context (save_context c m) to, save_context c m)"
  by (simp add: Pause_def push_def pop_def load_context_def save_context_def Let_def ac_simps)

lemma stack_slot:
  assumes "i \<in> {0, 8, 16, 24, 32, 40, 48}" and "j \<in> {0, 8, 16, 24, 32, 40, 48}" and "i \<noteq> j"
  shows "load64 (store64 m (sp + i) v) (sp + j) = load64 m (sp + j)"
proof -
  have "unat i + 8 \<le> unat j \<or> unat j + 8 \<le> unat i" using assms by auto
  moreover have "unat i \<le> 48" "unat j \<le> 48" using assms by auto
  ultimately have "apart (sp + of_nat (unat i)) 8 (sp + of_nat (unat j)) 8"
    using apart_slots[of "unat i" 8 "unat j" 8 sp] apart_slots[of "unat j" 8 "unat i" 8 sp] by (auto simp: apart_sym)
  then show ?thesis by (simp add: load64_store64_apart)
qed

lemma load_save_context: "load_context (save_context c m) (c_rsp c - 56) = c"
proof -
  define sp where "sp = c_rsp c - 56"
  note slot0 = stack_slot[where i = 0, simplified] stack_slot[where j = 0, simplified]
  show ?thesis unfolding load_context_def save_context_def Let_def sp_def[symmetric]
    by (simp add: stack_slot slot0) (simp add: sp_def)
qed

lemma save_context_other: "\<not> inside (c_rsp c - 56) 56 x \<Longrightarrow> save_context c m x = m x"
proof -
  assume a: "\<not> inside (c_rsp c - 56) 56 x"
  have "\<not> inside (c_rsp c - 56 + of_nat i) 8 x" if "i + 8 \<le> 56" for i
    using a inside_shift[OF that] by blast
  from this[of 0] this[of 8] this[of 16] this[of 24] this[of 32] this[of 40] this[of 48]
  show ?thesis by (simp add: save_context_def Let_def frame_simps)
qed

lemma load_context_cong:
  assumes "\<And>x. inside sp 56 x \<Longrightarrow> m x = m' x"
  shows "load_context m sp = load_context m' sp"
proof -
  have "load64 m (sp + of_nat i) = load64 m' (sp + of_nat i)" if "i + 8 \<le> 56" for i
    by (rule load64_cong) (use assms inside_shift[OF that] in blast)
  from this[of 0] this[of 8] this[of 16] this[of 24] this[of 32] this[of 40] this[of 48]
  show ?thesis by (simp add: load_context_def)
qed

text \<open>
  C13. A switch of kernel stacks there and back restores the registers: \<^verbatim>\<open>Pause\<close> leaves the context
  \<open>c\<close> for any other and hands out a stack pointer; whatever runs in between, if it leaves the 56
  bytes above that pointer alone and its own stack is elsewhere, a \<^verbatim>\<open>Pause\<close> to the pointer gives
  back every register of \<open>c\<close>, the stack pointer and the instruction behind the call. Neither switch
  writes outside of the 56 bytes below its own stack pointer.
\<close>

theorem Pause_there_and_back:
  assumes "Pause to c m = (saved, c1, m1)" and "\<And>x. inside saved 56 x \<Longrightarrow> m2 x = m1 x"
    and "apart saved 56 (c_rsp c2 - 56) 56" and "Pause saved c2 m2 = (saved2, c3, m3)"
  shows "c3 = c \<and> (\<forall>x. \<not> inside saved 56 x \<longrightarrow> m1 x = m x) \<and> (\<forall>x. \<not> inside saved2 56 x \<longrightarrow> m3 x = m2 x)"
proof -
  have s: "saved = c_rsp c - 56" "m1 = save_context c m" "saved2 = c_rsp c2 - 56" "m3 = save_context c2 m2"
    "c3 = load_context m3 saved" using assms(1,4) by (auto simp: Pause_eq)
  have "m3 x = m1 x" if "inside saved 56 x" for x
    using assms(2)[OF that] save_context_other[of c2 x m2] apart_inside[OF assms(3) that] s by simp
  then have "c3 = load_context m1 saved" unfolding s(5) by (intro load_context_cong) simp
  then show ?thesis using save_context_other s load_save_context by simp
qed

theorem Pause_there_and_back_witness:
  "\<exists>c3 m3 saved2. Pause (0x2000 - 56) \<lparr>c_rbx = 7, c_rbp = 8, c_r12 = 0, c_r13 = 0, c_r14 = 0, c_r15 = 0, c_rsp = 0x1000, c_rip = 99\<rparr>
       (snd (snd (Pause 0x5000 \<lparr>c_rbx = 1, c_rbp = 2, c_r12 = 3, c_r13 = 4, c_r14 = 5, c_r15 = 6, c_rsp = 0x2000, c_rip = 77\<rparr> (\<lambda>_. 0))))
     = (saved2, c3, m3) \<and> c3 = \<lparr>c_rbx = 1, c_rbp = 2, c_r12 = 3, c_r13 = 4, c_r14 = 5, c_r15 = 6, c_rsp = 0x2000, c_rip = 77\<rparr>"
proof -
  let ?c = "\<lparr>c_rbx = 1, c_rbp = 2, c_r12 = 3, c_r13 = 4, c_r14 = 5, c_r15 = 6, c_rsp = 0x2000, c_rip = 77\<rparr>"
  let ?d = "\<lparr>c_rbx = 7, c_rbp = 8, c_r12 = 0, c_r13 = 0, c_r14 = 0, c_r15 = 0, c_rsp = 0x1000, c_rip = 99\<rparr>"
  obtain c1 m1 where 1: "Pause 0x5000 ?c (\<lambda>_. 0) = (0x2000 - 56, c1, m1)" by (simp add: Pause_eq)
  obtain c3 m3 saved2 where 2: "Pause (0x2000 - 56) ?d m1 = (saved2, c3, m3)" by (simp add: Pause_eq)
  have "apart (0x2000 - 56) 56 (c_rsp ?d - 56) 56" by (simp add: apart_def)
  then have "c3 = ?c" using Pause_there_and_back[OF 1 _ _ 2] by blast
  then show ?thesis using 1 2 by auto
qed

section \<open>A new process\<close>

lemma acquirePT_eq [kernel_simps]:
  "thisCPU s = Some c \<Longrightarrow> acquirePT s = (if lock_held (ProcessTableSpinlock s) = 0
     then Inr ((cli_neutral s)\<lparr>ProcessTableSpinlock := lock_set_held 1 (ProcessTableSpinlock s)\<rparr>) else Inl Spins)"
  by (simp add: acquirePT_def kernel_simps)

lemma releasePT_eq [kernel_simps]:
  "thisCPU s = Some c \<Longrightarrow> releasePT s = Inr ((cli_neutral s)\<lparr>ProcessTableSpinlock := 0\<rparr>)"
  by (simp add: releasePT_def kernel_simps)

lemma thisCPU_proc [simp]:
  "thisCPU (s\<lparr>ProcessTable := t\<rparr>) = thisCPU s" "thisCPU (s\<lparr>ProcessTableSpinlock := w\<rparr>) = thisCPU s"
  "thisCPU (set_proc i p s) = thisCPU s"
  by (simp_all add: thisCPU_def lapicID_def set_proc_def)

lemma more_proc:
  assumes "pm_state.more s' = pm_state.more s"
  shows "ProcessTable s' = ProcessTable s" "ProcessTableSpinlock s' = ProcessTableSpinlock s"
    "KernelPageTable s' = KernelPageTable s" "ProcessTable_addr s' = ProcessTable_addr s"
  using assms by (cases s; cases s'; simp)+

lemma pm_more_fields:
  assumes "pm_state.more s' = pm_state.more s"
  shows "proc_state.more s' = proc_state.more s" "logLock s' = logLock s" "ctx s' = ctx s"
  using assms by (cases s; cases s'; simp)+

lemma cli_neutral_proc [simp]:
  "ProcessTable (cli_neutral s) = ProcessTable s" "ProcessTableSpinlock (cli_neutral s) = ProcessTableSpinlock s"
  "KernelPageTable (cli_neutral s) = KernelPageTable s" "ProcessTable_addr (cli_neutral s) = ProcessTable_addr s"
  by (intro more_proc; simp)+

lemma cli_neutral_fields [simp]:
  "proc_state.more (cli_neutral s) = proc_state.more s" "logLock (cli_neutral s) = logLock s"
  "HigherHalfDirectMapOffset (cli_neutral s) = HigherHalfDirectMapOffset s"
  by (auto simp: cli_neutral_def cli_def split: option.splits)

lemma cli_neutral_ctx [simp]: "ctx (cli_neutral s) = ctx s"
  by (auto simp: cli_neutral_def cli_def split: option.splits)

lemma pm_holds_cong:
  assumes "pm_holds s xs" and "pm_lockword s' = pm_lockword s" and "pm_freeList s' = pm_freeList s"
    and "mem s' = mem s" and "thisCPU s' = thisCPU s"
  shows "pm_holds s' xs"
  using assms by (simp add: pm_holds_def pm_ready_def usingLock_def)

lemma find_unused_Some: "find_unused k ps = Some i \<Longrightarrow> k \<le> i \<and> i < k + length ps \<and> state (ps ! (i - k)) = Unused"
  by (induction ps arbitrary: k) (fastforce simp: nth_Cons' split: if_splits)+

text \<open>
  What the first switch to a prepared stack loads: the entry point of processes with every register
  zero, and a stack whose top is the way back to user mode, right below the trap frame.
\<close>

lemma prepare_stack_switch:
  assumes "unat stack + 4096 \<le> 2 ^ 64"
  shows "load_context (prepare_stack sy stack m) (stack + 3856) =
      \<lparr>c_rbx = 0, c_rbp = 0, c_r12 = 0, c_r13 = 0, c_r14 = 0, c_r15 = 0, c_rsp = stack + 3912, c_rip = ProcessEntryPoint_addr sy\<rparr>"
    and "load64 (prepare_stack sy stack m) (stack + 3912) = TrapRet sy"
    and "unat x \<notin> page stack \<Longrightarrow> prepare_stack sy stack m x = m x"
proof -
  let ?m1 = "store64 m (stack + 3912) (TrapRet sy)"
  let ?m2 = "fst (memset ?m1 (stack + 3856) 0 56)"
  have p: "prepare_stack sy stack m = store64 ?m2 (stack + 3904) (ProcessEntryPoint_addr sy)"
    by (simp add: prepare_stack_def sizeof_InterruptRegisters_def sizeof_KernelContext_def Let_def add.commute)
  have z: "load64 ?m2 (stack + 3856 + of_nat i) = 0" if "i + 8 \<le> 56" for i
    by (rule load64_memset_zero) (use that in simp)
  have ap: "apart (stack + of_nat 3904) 8 (stack + of_nat j) 8" if "j + 8 \<le> 3904" for j
    using apart_slots[of j 8 3904 8 stack] that by (simp add: apart_sym)
  have c: "load64 (prepare_stack sy stack m) (stack + of_nat (3856 + i)) = 0" if "i + 8 \<le> 48" for i
    using z[of i] ap[of "3856 + i"] that by (simp add: p load64_store64_apart add.assoc)
  show "load_context (prepare_stack sy stack m) (stack + 3856) =
      \<lparr>c_rbx = 0, c_rbp = 0, c_r12 = 0, c_r13 = 0, c_r14 = 0, c_r15 = 0, c_rsp = stack + 3912, c_rip = ProcessEntryPoint_addr sy\<rparr>"
    using c[of 0] c[of 8] c[of 16] c[of 24] c[of 32] c[of 40] by (simp add: load_context_def p add.assoc)
  have "apart (stack + 3904) 8 (stack + 3912) 8" "apart (stack + 3856) 56 (stack + 3912) 8"
    using apart_slots[of 3904 8 3912 8 stack] apart_slots[of 3856 56 3912 8 stack] by simp_all
  then show "load64 (prepare_stack sy stack m) (stack + 3912) = TrapRet sy"
    by (simp add: p load64_store64_apart memset_apart)
  assume "unat x \<notin> page stack"
  then have x: "\<not> inside stack 4096 x" using assms by (simp add: page_inside)
  have "\<not> inside (stack + of_nat i) k x" if "i + k \<le> 4096" for i k using x inside_shift[OF that] by blast
  from this[of 3912 8] this[of 3856 56] this[of 3904 8]
  show "prepare_stack sy stack m x = m x" by (simp add: p store64_other memset_closed)
qed

text \<open>The run of \<^verbatim>\<open>allocateProcess\<close> that takes its two pages: the table entry, and the state before the stack is prepared.\<close>

definition fresh_process :: "u64 \<Rightarrow> u64 \<Rightarrow> ProcessInfo \<Rightarrow> ProcessInfo" where
  "fresh_process pt st p = p\<lparr>pageTable := pt, state := Fresh, kernelStack := st, trapFrame := st + 3920, kernelTask := st + 3856\<rparr>"

lemma allocateProcess_run:
  assumes h: "pm_holds s xs" and free: "2 \<le> free_pages xs" and cpu: "thisCPU s = Some c"
    and lk: "lock_held (ProcessTableSpinlock s) = 0" and slot: "find_unused 0 (ProcessTable s) = Some i"
    and root: "unat (KernelPageTable s) + 4096 \<le> 2 ^ 64" "page (KernelPageTable s) \<inter> list_bytes 4096 xs = {}"
  shows "\<exists>s4. allocateProcess sy s = Inr (proc_ptr s i, (set_proc i (fresh_process (fit_addr 4096 1 xs) (fit_addr 4096 1 (fit_rest 1 xs))
        (ProcessTable s ! i)) s4)\<lparr>mem := prepare_stack sy (fit_addr 4096 1 (fit_rest 1 xs)) (mem s4)\<rparr>)
    \<and> fit_rest 1 xs \<noteq> [] \<and> (\<forall>p. (ProcessTable s4)[i := p] = (ProcessTable s)[i := p]) \<and> ProcessTableSpinlock s4 = 0
    \<and> pm_holds s4 (fit_rest 1 (fit_rest 1 xs))
    \<and> (\<forall>j < 4096. mem s4 (fit_addr 4096 1 xs + of_nat j) = mem s (KernelPageTable s + of_nat j))
    \<and> (\<forall>x. unat x \<notin> list_bytes 4096 xs \<longrightarrow> mem s4 x = mem s x)
    \<and> thisCPU s4 = thisCPU s \<and> HigherHalfDirectMapOffset s4 = HigherHalfDirectMapOffset s
    \<and> proc_state.more s4 = proc_state.more s \<and> ProcessTable_addr s4 = ProcessTable_addr s \<and> KernelPageTable s4 = KernelPageTable s
    \<and> logLock s4 = logLock s \<and> ctx s4 = ctx s"
proof -
  have wf: "wf_chunks 4096 xs" using h by (simp add: pm_holds_def)
  have ne: "xs \<noteq> []" using free by (intro free_pages_ne) simp
  let ?ys = "fit_rest 1 xs" and ?pt = "fit_addr 4096 1 xs" and ?st = "fit_addr 4096 1 (fit_rest 1 xs)"
  have ne2: "?ys \<noteq> []" using free free_pages_fit[OF wf ne] by (intro free_pages_ne) simp
  let ?s1 = "(cli_neutral s)\<lparr>ProcessTableSpinlock := lock_set_held 1 (ProcessTableSpinlock s)\<rparr>"
  have a: "acquirePT s = Inr ?s1" using cpu lk by (simp add: kernel_simps)
  have h1: "pm_holds ?s1 xs" by (rule pm_holds_cong[OF h]) simp_all
  obtain s2 where s2: "shallowCopy (KernelPageTable s) ?s1 = Inr (?pt, s2)" "pm_holds s2 ?ys" "pm_same ?s1 s2"
    "\<And>x. unat x \<notin> list_bytes 4096 xs \<Longrightarrow> mem s2 x = mem ?s1 x"
    "\<And>i. i < 4096 \<Longrightarrow> mem s2 (?pt + of_nat i) = mem ?s1 (KernelPageTable s + of_nat i)"
    using shallowCopy_copies[OF h1 ne root] by blast
  note fld2 = more_proc[of s2 ?s1] and cpu2 = s2(3)[unfolded pm_same_def]
  let ?p2 = "(ProcessTable s ! i)\<lparr>pageTable := ?pt, state := Fresh\<rparr>"
  have i: "i < length (ProcessTable s)" using find_unused_Some[OF slot] by simp
  let ?s3 = "(cli_neutral (set_proc i ?p2 s2))\<lparr>ProcessTableSpinlock := 0\<rparr>"
  have r: "releasePT (set_proc i ?p2 s2) = Inr ?s3" using cpu2 cpu by (simp add: kernel_simps)
  have h3: "pm_holds ?s3 ?ys" by (rule pm_holds_cong[OF s2(2)]) (simp_all add: set_proc_def)
  obtain s4 where s4: "allocatePage ?s3 = Inr (?st, s4)" "?st \<noteq> 0" "unat ?st + 4096 \<le> 2 ^ 64" "pm_holds s4 (fit_rest 1 ?ys)"
    "page ?st \<subseteq> list_bytes 4096 ?ys" "list_bytes 4096 (fit_rest 1 ?ys) = list_bytes 4096 ?ys - page ?st"
    "\<And>x. unat x \<notin> list_bytes 4096 ?ys \<Longrightarrow> mem s4 x = mem ?s3 x" "pm_same ?s3 s4"
    using allocatePage_free[OF h3 ne2] by blast
  note fld4 = more_proc[of s4 ?s3] and cpu4 = s4(8)[unfolded pm_same_def]
  let ?p5 = "fresh_process ?pt ?st (ProcessTable s ! i)"
  let ?s5 = "(set_proc i ?p5 s4)\<lparr>mem := prepare_stack sy ?st (mem s4)\<rparr>"
  have t2: "ProcessTable s2 = ProcessTable s" "ProcessTable_addr s2 = ProcessTable_addr s" using fld2 cpu2 by simp_all
  have t4: "ProcessTable s4 = (ProcessTable s)[i := ?p2]" "ProcessTable_addr s4 = ProcessTable_addr s" "ProcessTableSpinlock s4 = 0"
    using fld4 cpu4 t2 by (simp_all add: set_proc_def)
  have "allocateProcess sy s = Inr (proc_ptr s i, ?s5)"
    using a slot s2(1) t2 r s4(1,2) t4 i
    by (simp add: allocateProcess_def Let_def proc_ptr_def fresh_process_def set_proc_def sizeof_InterruptRegisters_def sizeof_KernelContext_def add.commute)
  moreover have "mem s4 (?pt + of_nat j) = mem s (KernelPageTable s + of_nat j)" if "j < 4096" for j
  proof -
    note fp = fit_page[OF h ne]
    have "inside ?pt 4096 (?pt + of_nat j)" using that by (simp add: inside_def unat_of_nat64)
    then have "unat (?pt + of_nat j) \<notin> list_bytes 4096 ?ys" using fp by (simp flip: page_inside)
    then show ?thesis using s4(7) s2(5)[OF that] by (simp add: set_proc_def)
  qed
  moreover have "mem s4 x = mem s x" if "unat x \<notin> list_bytes 4096 xs" for x
    using that s2(4)[OF that] s4(7) fit_page(3)[OF h ne] by (simp add: set_proc_def)
  moreover have "thisCPU s4 = thisCPU s" "HigherHalfDirectMapOffset s4 = HigherHalfDirectMapOffset s" "proc_state.more s4 = proc_state.more s"
    "KernelPageTable s4 = KernelPageTable s" "logLock s4 = logLock s" "ctx s4 = ctx s"
    using cpu2 cpu4 pm_more_fields[of s2 ?s1] pm_more_fields[of s4 ?s3] fld2 fld4 by (simp_all add: set_proc_def)
  ultimately show ?thesis using ne2 t4 s4(4) by (intro exI[of _ s4]) simp
qed

text \<open>
  C12. A new process is ready to be switched to: with a free entry in the table, two free pages and
  the kernel's root table outside of the free memory, \<^verbatim>\<open>allocateProcess\<close> returns the first unused
  entry, marks it fresh, changes no other entry and leaves the table unlocked. Its page table is a
  copy of the kernel's root table, its page table and its kernel stack are two different pages that
  were free and are so no longer, and the first switch to its context starts at the entry
  point of processes with all registers zero, on a stack that returns to \<^verbatim>\<open>TrapRet\<close> with the trap
  frame next.
\<close>

theorem allocateProcess_fresh:
  assumes h: "pm_holds s xs" and free: "2 \<le> free_pages xs" and cpu: "thisCPU s = Some c"
    and lk: "lock_held (ProcessTableSpinlock s) = 0" and slot: "find_unused 0 (ProcessTable s) = Some i"
    and root: "unat (KernelPageTable s) + 4096 \<le> 2 ^ 64" "page (KernelPageTable s) \<inter> list_bytes 4096 xs = {}"
  shows "\<exists>s' p xs'. allocateProcess sy s = Inr (proc_ptr s i, s') \<and> ProcessTable s' = (ProcessTable s)[i := p]
    \<and> state p = Fresh \<and> lock_held (ProcessTableSpinlock s') = 0 \<and> pm_holds s' xs'
    \<and> page (pageTable p) \<union> page (kernelStack p) \<subseteq> list_bytes 4096 xs \<and> page (pageTable p) \<inter> page (kernelStack p) = {}
    \<and> list_bytes 4096 xs' = list_bytes 4096 xs - page (pageTable p) - page (kernelStack p)
    \<and> (\<forall>j < 4096. mem s' (pageTable p + of_nat j) = mem s (KernelPageTable s + of_nat j))
    \<and> load_context (mem s') (kernelTask p) = \<lparr>c_rbx = 0, c_rbp = 0, c_r12 = 0, c_r13 = 0, c_r14 = 0, c_r15 = 0,
        c_rsp = trapFrame p - 8, c_rip = ProcessEntryPoint_addr sy\<rparr>
    \<and> load64 (mem s') (trapFrame p - 8) = TrapRet sy"
proof -
  let ?ys = "fit_rest 1 xs" and ?pt = "fit_addr 4096 1 xs" and ?st = "fit_addr 4096 1 (fit_rest 1 xs)"
  let ?p = "fresh_process ?pt ?st (ProcessTable s ! i)"
  obtain s4 where s4: "allocateProcess sy s = Inr (proc_ptr s i, (set_proc i ?p s4)\<lparr>mem := prepare_stack sy ?st (mem s4)\<rparr>)"
    "?ys \<noteq> []" "\<forall>p. (ProcessTable s4)[i := p] = (ProcessTable s)[i := p]" "ProcessTableSpinlock s4 = 0" "pm_holds s4 (fit_rest 1 ?ys)"
    "\<forall>j < 4096. mem s4 (?pt + of_nat j) = mem s (KernelPageTable s + of_nat j)"
    using allocateProcess_run[OF assms] by blast
  have ne: "xs \<noteq> []" using free by (intro free_pages_ne) simp
  note pt = fit_page[OF h ne]
  note st = fit_page_next[OF h ne s4(2)]
  note sw = prepare_stack_switch[OF st(1), where sy = sy and m = "mem s4"]
  have dis: "page ?pt \<inter> page ?st = {}" using st(2) pt(3) by blast
  have keep: "prepare_stack sy ?st (mem s4) x = mem s4 x" if "unat x \<in> list_bytes 4096 (fit_rest 1 ?ys)" for x
    using that st(3) by (intro sw(3)) simp
  have hm: "pm_holds (s4\<lparr>mem := prepare_stack sy ?st (mem s4)\<rparr>) (fit_rest 1 ?ys)" by (rule pm_holds_frame[OF s4(5) keep])
  have "pm_holds ((set_proc i ?p s4)\<lparr>mem := prepare_stack sy ?st (mem s4)\<rparr>) (fit_rest 1 ?ys)"
    by (rule pm_holds_cong[OF hm]) (simp_all add: set_proc_def)
  moreover have "prepare_stack sy ?st (mem s4) (?pt + of_nat j) = mem s (KernelPageTable s + of_nat j)" if "j < 4096" for j
  proof -
    have "inside ?pt 4096 (?pt + of_nat j)" using that by (simp add: inside_def unat_of_nat64)
    then have "unat (?pt + of_nat j) \<notin> page ?st" using dis pt(1) by (auto simp flip: page_inside)
    then show ?thesis using sw(3) s4(6) that by simp
  qed
  ultimately show ?thesis
    using s4(1,3,4) pt(2,3) st(2,3) dis sw(1,2) sw(2)[unfolded add.commute[of ?st]]
    by (intro exI[of _ "(set_proc i ?p s4)\<lparr>mem := prepare_stack sy ?st (mem s4)\<rparr>"] exI[of _ ?p] exI[of _ "fit_rest 1 ?ys"])
       (auto simp: fresh_process_def set_proc_def lock_held_def)
qed

definition sample_kernel :: proc_state where
  "sample_kernel = \<lparr>mem = set_count (\<lambda>_. 0) 0x8000 4, CPUs = [zero_CPUState], lapicIDReg = 0, rflags = 0x202, outb_log = [],
     pm_lockword = 0, pm_freeList = 0x8000, HigherHalfDirectMapOffset = 0, logLock = 0, msrs = \<lambda>_. 0, lapic = 0, lapic_writes = [],
     lapic_reads = 0, KernelPageTable = 0x2000, cr3 = 0,
     ctx = \<lparr>c_rbx = 0, c_rbp = 0, c_r12 = 0, c_r13 = 0, c_r14 = 0, c_r15 = 0, c_rsp = 0x1000, c_rip = 0\<rparr>,
     ProcessTable = replicate 64 unused_process, ProcessTableSpinlock = 0, ProcessTable_addr = 0x100000\<rparr>"

lemma sample_kernel_facts:
  "pm_holds sample_kernel [(0x8000, 4)]" "thisCPU sample_kernel = Some 0" "find_unused 0 (ProcessTable sample_kernel) = Some 0"
proof -
  have "chunk_next (\<lambda>_. 0) 0x8000 = 0" "chunk_prev (\<lambda>_. 0) 0x8000 = 0"
    by (simp_all add: chunk_defs load64_zero)
  then show "pm_holds sample_kernel [(0x8000, 4)]"
    by (simp add: pm_holds_def pm_ready_def usingLock_def sample_kernel_def dll_def wf_chunks_Cons chunk_end_def)
  show "thisCPU sample_kernel = Some 0" by (simp add: thisCPU_def lapicID_def sample_kernel_def zero_CPUState_def)
  show "find_unused 0 (ProcessTable sample_kernel) = Some 0"
    by (simp add: sample_kernel_def unused_process_def numeral_eq_Suc)
qed

lemma sample_kernel_pages:
  "2 \<le> free_pages [(0x8000 :: u64, 4)]" "lock_held (ProcessTableSpinlock sample_kernel) = 0"
  "unat (KernelPageTable sample_kernel) + 4096 \<le> 2 ^ 64" "page (KernelPageTable sample_kernel) \<inter> list_bytes 4096 [(0x8000, 4)] = {}"
  by (auto simp: free_pages_def sample_kernel_def lock_held_def page_def list_bytes_def chunk_bytes_def chunk_end_def)

theorem allocateProcess_fresh_witness:
  "\<exists>s' p. allocateProcess \<lparr>TrapRet = 0x111, ProcessEntryPoint_addr = 0x222, SyscallHandler = 0, MyFirstUserspace = 0, MyFirstUserspaceEnd = 0\<rparr>
       sample_kernel = Inr (0x100000, s') \<and> ProcessTable s' ! 0 = p \<and> state p = Fresh
     \<and> c_rip (load_context (mem s') (kernelTask p)) = 0x222 \<and> load64 (mem s') (trapFrame p - 8) = 0x111"
proof -
  let ?sy = "\<lparr>TrapRet = 0x111, ProcessEntryPoint_addr = 0x222, SyscallHandler = 0, MyFirstUserspace = 0, MyFirstUserspaceEnd = 0\<rparr>"
  have "proc_ptr sample_kernel 0 = 0x100000" "length (ProcessTable sample_kernel) = 64"
    by (simp_all add: proc_ptr_def sample_kernel_def)
  then show ?thesis
    using sample_kernel_pages allocateProcess_fresh[OF sample_kernel_facts(1) _ sample_kernel_facts(2) _ sample_kernel_facts(3), of ?sy] by fastforce
qed

section \<open>The scheduler\<close>

inductive sched_reachable :: "('a proc_state_scheme \<Rightarrow> 'a proc_state_scheme \<Rightarrow> bool) \<Rightarrow> nat
    \<Rightarrow> sched_pc \<times> 'a proc_state_scheme \<Rightarrow> sched_pc \<times> 'a proc_state_scheme \<Rightarrow> bool" for R c x where
  start: "sched_reachable R c x x"
| step: "sched_reachable R c x y \<Longrightarrow> sched_step R c y z \<Longrightarrow> sched_reachable R c x z"

lemma next_p_same [simp]: "next_p p = p"
  by (simp add: next_p_def)

text \<open>The program points from which the scan has not moved on.\<close>

definition at_first :: "sched_pc \<Rightarrow> bool" where
  "at_first pc \<longleftrightarrow> (case pc of Scan p \<Rightarrow> p = 0 | InProcess p \<Rightarrow> p = 0 | _ \<Rightarrow> True)"

lemma reachable_at_first: "sched_reachable R c x y \<Longrightarrow> at_first (fst x) \<Longrightarrow> at_first (fst y)"
  by (induction rule: sched_reachable.induct) (auto simp: at_first_def elim!: sched_stepE)

lemma scan_stuck:
  assumes "sched_reachable R c (Scan 0, s) y" and "state (ProcessTable s ! 0) \<noteq> Runnable"
  shows "y = (Scan 0, s)"
  using assms by (induction rule: sched_reachable.induct) (auto elim!: sched_stepE)

lemma acquirePT_twice: "acquirePT s = Inr t \<Longrightarrow> acquirePT t = Inl Spins"
proof -
  assume a: "acquirePT s = Inr t"
  then obtain c where c: "thisCPU s = Some c"
    by (cases "thisCPU s") (simp_all add: acquirePT_def Spinlock_acquire_def pushCLI_def)
  with a have "t = (cli_neutral s)\<lparr>ProcessTableSpinlock := lock_set_held 1 (ProcessTableSpinlock s)\<rparr>"
    by (simp add: kernel_simps split: if_splits)
  then show ?thesis using c by (simp add: kernel_simps)
qed

text \<open>
  C10. The scheduler only ever looks at the first entry of the process table, because the loop assigns
  \<open>p = p++\<close>: whatever processes do while they run, in every state that \<^verbatim>\<open>schedule\<close> reaches the scan
  stands at entry 0, so no other entry is ever dispatched and the loop never ends to release the
  lock. When entry 0 is not runnable, no step leads anywhere else: the processor turns in the loop
  for ever. If that happens before any process ran, the table is locked and whoever wants it waits as well.
\<close>

theorem schedule_only_first_entry:
  "(sched_reachable R c (schedule_start c s) (Scan p, t) \<longrightarrow> p = 0)
   \<and> (sched_reachable R c (schedule_start c s) (InProcess p, t) \<longrightarrow> p = 0)
   \<and> (sched_reachable R c (schedule_start c s) (Scan p, t) \<longrightarrow> state (ProcessTable t ! 0) \<noteq> Runnable \<longrightarrow>
        sched_step R c (Scan p, t) (Scan p, t)
        \<and> (\<forall>y. sched_reachable R c (Scan p, t) y \<longrightarrow> y = (Scan p, t)))
   \<and> (acquirePT s' = Inr t \<longrightarrow> acquirePT t = Inl Spins)"
proof -
  have f: "at_first (fst (schedule_start c s))" by (simp add: schedule_start_def at_first_def)
  have p: "p = 0" if "sched_reachable R c (schedule_start c s) (Scan p, t) \<or> sched_reachable R c (schedule_start c s) (InProcess p, t)"
    using that reachable_at_first[OF _ f] by (force simp: at_first_def)
  have "sched_step R c (Scan 0, t) (Scan 0, t)" if "state (ProcessTable t ! 0) \<noteq> Runnable"
    using sched_step.skip[of 0 t R c] that by simp
  then show ?thesis using p scan_stuck[of R c t] acquirePT_twice[of s' t] by blast
qed

text \<open>With an empty table the scheduler never gets past its first look.\<close>

theorem schedule_only_first_entry_witness:
  "\<exists>t. sched_reachable (\<lambda>_ _. True) 0 (schedule_start 0 sample_kernel) (Scan 0, t)
     \<and> (\<forall>y. sched_reachable (\<lambda>_ _. True) 0 (Scan 0, t) y \<longrightarrow> y = (Scan 0, t)) \<and> acquirePT t = Inl Spins"
proof -
  let ?R = "\<lambda>_ _. True"
  define s0 where "s0 = snd (schedule_start 0 sample_kernel)"
  have i: "thisCPU (sti s0) = Some 0"
    by (simp add: s0_def schedule_start_def sample_kernel_def thisCPU_def lapicID_def zero_CPUState_def sti_def)
  moreover have "ProcessTableSpinlock (sti s0) = 0" "ProcessTable (sti s0) = replicate 64 unused_process"
    by (simp_all add: s0_def sti_def schedule_start_def sample_kernel_def)
  ultimately obtain t where t: "acquirePT (sti s0) = Inr t" "ProcessTable t = replicate 64 unused_process"
    by (simp add: kernel_simps lock_held_def)
  have start: "schedule_start 0 sample_kernel = (Top, s0)" by (simp add: s0_def schedule_start_def)
  have reach: "sched_reachable ?R 0 (schedule_start 0 sample_kernel) (Scan 0, t)"
    unfolding start by (rule sched_reachable.step[OF sched_reachable.step[OF sched_reachable.start sched_step.enable] sched_step.acquire[OF t(1)]])
  have "state (ProcessTable t ! 0) \<noteq> Runnable" using t(2) by (simp add: unused_process_def)
  then show ?thesis using schedule_only_first_entry[of ?R 0 sample_kernel 0 t "sti s0"] reach t(1) by blast
qed

end
