(* ===== verification/Trap_Gates.thy ===== *)
theory Trap_Gates
  imports Process_Table
begin

text \<open>
  The interrupt descriptor table and the trap handlers (\<^verbatim>\<open>src/Kernel/Traps.h\<close>, \<^verbatim>\<open>Traps.cpp\<close>,
  \<^verbatim>\<open>TrapNumbers.h\<close>, \<^verbatim>\<open>Panic!!.cpp\<close>). The addresses of the assembly stubs are arguments. The saved
  registers are read from memory. The lemmas show that every gate leads to its stub and which of
  them user mode may call, and that a fault in kernel code is never returned from, while one in a
  process ends the process and switches to the scheduler.
\<close>

section \<open>Gates\<close>

definition ClockInterrupt :: nat where "ClockInterrupt = 123"
definition BadTLBInterrupt :: nat where "BadTLBInterrupt = 124"
definition HaltInterrupt :: nat where "HaltInterrupt = 125"
definition NoOpInterrupt :: nat where "NoOpInterrupt = 126"
definition SyscallInterrupt :: nat where "SyscallInterrupt = 128"

text \<open>The flags are a union of a byte with its bit fields.\<close>

definition gate_type :: "u8 \<Rightarrow> u8" where "gate_type bits = take_bit 4 bits"
definition gate_privilegeLevel :: "u8 \<Rightarrow> u8" where "gate_privilegeLevel bits = take_bit 2 (drop_bit 5 bits)"
definition gate_present :: "u8 \<Rightarrow> bool" where "gate_present bits = bit bits 7"

definition interruptGate :: u8 where "interruptGate = 0x8E"
definition trapGate :: u8 where "trapGate = 0x8F"

record IDTEntry =
  ie_baseLow :: u16
  ie_selector :: u16
  ie_zero :: u8
  ie_flags :: u8
  ie_baseMid :: u16
  ie_baseHigh :: u32
  ie_padding :: u32

definition setGate :: "u64 \<Rightarrow> u16 \<Rightarrow> u8 \<Rightarrow> bool \<Rightarrow> IDTEntry \<Rightarrow> IDTEntry" where
  "setGate base selector gateFlags canBeCalledByUserspace e =
     (let e1 = e\<lparr>ie_baseLow := ucast (base AND 0xFFFF), ie_baseMid := ucast (drop_bit 16 base AND 0xFFFF),
                 ie_baseHigh := ucast (drop_bit 32 base AND 0xFFFFFFFF), ie_selector := selector,
                 ie_zero := 0, ie_padding := 0, ie_flags := gateFlags\<rparr>
      in if canBeCalledByUserspace then e1\<lparr>ie_flags := ie_flags e1 OR 0x60\<rparr> else e1)"

definition getGate :: "IDTEntry \<Rightarrow> u64" where
  "getGate e = ucast (ie_baseLow e) OR push_bit 16 (ucast (ie_baseMid e)) OR push_bit 32 (ucast (ie_baseHigh e))"

record trap_state = proc_state +
  IDTEntries :: "IDTEntry list"
  IDTEntries_addr :: u64
  idtr_limit :: u16
  idtr_base :: u64

text \<open>The stubs \<^verbatim>\<open>_isr<n>\<close> and \<^verbatim>\<open>_irq<n>\<close> of \<^verbatim>\<open>Traps.S\<close>.\<close>

record stubs =
  isr :: "nat \<Rightarrow> u64"
  irq :: "nat \<Rightarrow> u64"

definition CodeSelector :: u16 where "CodeSelector = of_nat (Table_offsetof KernelCode)"

definition set_entry_gate :: "nat \<times> u64 \<times> bool \<Rightarrow> IDTEntry list \<Rightarrow> IDTEntry list" where
  "set_entry_gate g t = (case g of (n, h, user) \<Rightarrow> t[n := setGate h CodeSelector interruptGate user (t ! n)])"

text \<open>The calls of \<^verbatim>\<open>setGate\<close> in \<^verbatim>\<open>setupIDTTable\<close>, in order: entry, stub, callable from user mode.\<close>

definition gate_calls :: "stubs \<Rightarrow> (nat \<times> u64 \<times> bool) list" where
  "gate_calls st = map (\<lambda>n. (n, isr st n, False)) [0 ..< 32] @ map (\<lambda>n. (32 + n, irq st n, False)) [0 ..< 16]
     @ [(123, isr st 123, False), (124, isr st 124, False), (125, isr st 125, False), (126, isr st 126, False),
        (SyscallInterrupt, isr st SyscallInterrupt, True)]"

definition setupIDTTable :: "stubs \<Rightarrow> 'a trap_state_scheme \<Rightarrow> 'a trap_state_scheme" where
  "setupIDTTable st s = s\<lparr>IDTEntries := fold set_entry_gate (gate_calls st) (IDTEntries s)\<rparr>"

definition sizeof_IDTEntry :: nat where "sizeof_IDTEntry = 2 + 2 + 1 + 1 + 2 + 4 + 4"

definition loadIDTTable :: "'a trap_state_scheme \<Rightarrow> 'a trap_state_scheme" where
  "loadIDTTable s = s\<lparr>idtr_limit := of_nat (256 * sizeof_IDTEntry), idtr_base := IDTEntries_addr s\<rparr>"

section \<open>Handlers\<close>

definition reg :: "'a proc_state_scheme \<Rightarrow> u64 \<Rightarrow> InterruptRegister \<Rightarrow> u64" where
  "reg s registers r = load64 (mem s) (registers + ir_offset r)"

definition log_line :: "string \<Rightarrow> printf_arg list \<Rightarrow> 'a proc_state_scheme \<Rightarrow> 'a proc_state_scheme outcome" where
  "log_line format va s = obind (logfn format va s) (\<lambda>(_, s1). Inr s1)"

definition dumpRegisters :: "u64 \<Rightarrow> 'a proc_state_scheme \<Rightarrow> 'a proc_state_scheme outcome" where
  "dumpRegisters registers s =
     (let r = (\<lambda>s i. ArgLong (reg s registers i))
      in obind (log_line ''r15=%#llx, r14=%#llx, r13=%#llx, r12=%#llx\<newline>'' (map (r s) [R15, R14, R13, R12]) s) (\<lambda>s1.
         obind (log_line ''r11=%#llx, r10=%#llx, r9=%#llx, r8=%#llx\<newline>'' (map (r s1) [R11, R10, R9, R8]) s1) (\<lambda>s2.
         obind (log_line ''rbp=%#llx, rdi=%#llx, rsi=%#llx, rdx=%#llx, rcx=%#llx, rbx=%#llx, rax=%#llx\<newline>''
                  (map (r s2) [Rbp, Rdi, Rsi, Rdx, Rcx, Rbx, Rax]) s2) (\<lambda>s3.
         obind (log_line ''interruptNumber=%#llx, errorCode=%#llx\<newline>'' (map (r s3) [InterruptNumber, ErrorCode]) s3) (\<lambda>s4.
           log_line ''rip=%#llx, cs=%#llx, rflags=%#llx, rsp=%#llx, ss=%#llx\<newline>'' (map (r s4) [Rip, Cs, Rflags, Rsp, Ss]) s4)))))"

definition PanicExclamationExclamation :: "string \<Rightarrow> u64 \<Rightarrow> 'a proc_state_scheme \<Rightarrow> 'a proc_state_scheme outcome" where
  "PanicExclamationExclamation why registers s =
     obind (log_line ''fatal: %s\<newline>'' [ArgStr why] s) (\<lambda>s1. obind (dumpRegisters registers s1) (\<lambda>s2. Inl Halted))"

datatype Exceptions = ExDoubleFault | ExGeneralProtectionFault | ExPageFault

fun exception_number :: "Exceptions \<Rightarrow> u64" where
  "exception_number ExDoubleFault = 8" | "exception_number ExGeneralProtectionFault = 13" | "exception_number ExPageFault = 14"

text \<open>
  The handler returns the address of the registers, or has switched to the context of the scheduler.
  Integer arguments take a slot of eight bytes, of which \<^verbatim>\<open>%d\<close> reads the lower half.
\<close>

datatype trap_result = Returns u64 | Switched

definition fault_in_kernel :: "u64 \<Rightarrow> 'a proc_state_scheme \<Rightarrow> bool outcome" where
  "fault_in_kernel registers s =
     (case thisCPU s of
        None \<Rightarrow> Inl NullDeref
      | Some c \<Rightarrow> Inr (currentProcess (CPUs s ! c) = 0 \<or> reg s registers Cs = of_nat (Table_offsetof KernelCode)))"

definition process_fault :: "string \<Rightarrow> u64 \<Rightarrow> 'a proc_state_scheme \<Rightarrow> (trap_result \<times> 'a proc_state_scheme) outcome" where
  "process_fault why registers s =
     obind (fault_in_kernel registers s) (\<lambda>inKernel.
       obind (if inKernel then PanicExclamationExclamation why registers s else Inr s) (\<lambda>s1.
         obind (exitCurrentProcess s1) (\<lambda>s2. Inr (Switched, s2))))"

definition TrapHandler :: "lapic_hw \<Rightarrow> u64 \<Rightarrow> 'a proc_state_scheme \<Rightarrow> (trap_result \<times> 'a proc_state_scheme) outcome" where
  "TrapHandler hw registers s =
     (let n = reg s registers InterruptNumber
      in if n = of_nat SyscallInterrupt then Inr (Returns registers, s)
         else if n = ucast (trap_number IRQ0 + trap_number IRQTimer) then Inr (Returns registers, acknowledgeInterrupt hw s)
         else if n = exception_number ExDoubleFault then
           obind (PanicExclamationExclamation ''Double fault'' registers s) (\<lambda>s1. Inr (Returns registers, s1))
         else if n = exception_number ExGeneralProtectionFault then process_fault ''GPF in kernel code'' registers s
         else if n = exception_number ExPageFault then process_fault ''Page fault in kernel code'' registers s
         else obind (log_line ''unhandled interrupt %d/%llx\<newline>'' [ArgInt (ucast n), ArgLong n] s) (\<lambda>s1.
                Inr (Returns registers, s1)))"

definition KernelSyscallHandler :: "u64 \<Rightarrow> 'a proc_state_scheme \<Rightarrow> (u64 \<times> 'a proc_state_scheme) outcome" where
  "KernelSyscallHandler registers s =
     obind (log_line ''syscall! %llx\<newline>'' [ArgLong (reg s registers Rax)] s) (\<lambda>s1. Inr (registers, s1))"

section \<open>The descriptor table\<close>

lemma getGate_setGate: "getGate (setGate base sel fl user e) = base"
proof (rule bit_word_eqI)
  fix n assume "n < LENGTH(64)"
  then show "bit (getGate (setGate base sel fl user e)) n = bit base n"
    by (cases "n < 16"; cases "n < 32") (auto simp: getGate_def setGate_def Let_def and_mask_take_bit bit_simps)
qed

lemma length_set_gates [simp]: "length (fold set_entry_gate gs t) = length t"
  by (induction gs arbitrary: t) (simp_all add: set_entry_gate_def split: prod.splits)

lemma nth_set_gates:
  assumes "distinct (map fst gs)" and "\<forall>g \<in> set gs. fst g < length t" and "n < length t"
  shows "fold set_entry_gate gs t ! n
    = (case map_of gs n of None \<Rightarrow> t ! n | Some (h, u) \<Rightarrow> setGate h CodeSelector interruptGate u (t ! n))"
  using assms
proof (induction gs arbitrary: t)
  case (Cons g gs)
  obtain k h u where g: "g = (k, h, u)" by (cases g)
  have k: "map_of gs k = None" using Cons.prems(1) g by (simp add: map_of_eq_None_iff)
  have "fold set_entry_gate gs (set_entry_gate g t) ! n = (case map_of gs n of None \<Rightarrow> set_entry_gate g t ! n
      | Some (h, u) \<Rightarrow> setGate h CodeSelector interruptGate u (set_entry_gate g t ! n))"
    using Cons.prems by (intro Cons.IH) (auto simp: set_entry_gate_def split: prod.splits)
  moreover have "set_entry_gate g t ! n = (if n = k then setGate h CodeSelector interruptGate u (t ! n) else t ! n)"
    using g Cons.prems by (simp add: set_entry_gate_def)
  ultimately show ?case using k g by (auto split: option.splits)
qed simp

text \<open>Which stub a vector leads to.\<close>

definition gate_of :: "stubs \<Rightarrow> nat \<Rightarrow> u64 option" where
  "gate_of st n = (if n < 32 \<or> n \<in> {123, 124, 125, 126, 128} then Some (isr st n)
     else if n < 48 then Some (irq st (n - 32)) else None)"

lemma gate_calls_distinct: "distinct (map fst (gate_calls st))" "\<forall>g \<in> set (gate_calls st). fst g < 256"
  by (auto simp: gate_calls_def SyscallInterrupt_def distinct_map inj_on_def)

lemma map_of_gate_calls: "map_of (gate_calls st) n = map_option (\<lambda>h. (h, n = 128)) (gate_of st n)"
proof -
  have f: "map_of (gate_calls st) n = Some (h, u)" if "(n, h, u) \<in> set (gate_calls st)" for h u
    using that gate_calls_distinct(1) by simp
  show ?thesis
  proof (cases "gate_of st n")
    case None
    then have "n \<notin> fst ` set (gate_calls st)"
      by (auto simp: gate_calls_def gate_of_def SyscallInterrupt_def image_iff split: if_splits)
    then show ?thesis using None by (simp add: map_of_eq_None_iff)
  next
    case (Some h)
    have "(n, h, n = 128) \<in> set (gate_calls st)"
    proof (cases "n < 32 \<or> n \<in> {123, 124, 125, 126, 128}")
      case True
      then show ?thesis using Some by (auto simp: gate_calls_def gate_of_def SyscallInterrupt_def)
    next
      case False
      then have "32 \<le> n" "n < 48" "h = irq st (n - 32)" using Some by (auto simp: gate_of_def split: if_splits)
      then have "(n, h, n = 128) \<in> (\<lambda>n. (32 + n, irq st n, False)) ` {0 ..< 16}" by (intro image_eqI[of _ _ "n - 32"]) auto
      then show ?thesis by (simp add: gate_calls_def)
    qed
    then show ?thesis using f Some by simp
  qed
qed

text \<open>
  C15. After \<^verbatim>\<open>setupIDTTable\<close> every vector of the processor and the interrupt controller, the five
  of the kernel included, leads to its own stub in the kernel's code segment, as a present interrupt
  gate; user mode may call none of them but the system call, and the other vectors keep what they had.
\<close>

theorem idt_gates:
  assumes "length (IDTEntries s) = 256" and "n < 256"
  shows "case gate_of st n of
      None \<Rightarrow> IDTEntries (setupIDTTable st s) ! n = IDTEntries s ! n
    | Some h \<Rightarrow> (let e = IDTEntries (setupIDTTable st s) ! n
        in getGate e = h \<and> ie_selector e = 8 \<and> gate_present (ie_flags e) \<and> gate_type (ie_flags e) = 0xE
           \<and> gate_privilegeLevel (ie_flags e) = (if n = 128 then 3 else 0))"
proof -
  have e: "IDTEntries (setupIDTTable st s) ! n = (case gate_of st n of None \<Rightarrow> IDTEntries s ! n
      | Some h \<Rightarrow> setGate h CodeSelector interruptGate (n = 128) (IDTEntries s ! n))"
    using nth_set_gates[OF gate_calls_distinct(1)[of st], of "IDTEntries s" n] gate_calls_distinct(2)[of st] assms
    by (auto simp: setupIDTTable_def map_of_gate_calls split: option.splits)
  have f: "ie_flags (setGate h CodeSelector interruptGate u x) = (if u then 0xEE else 0x8E)"
    "ie_selector (setGate h CodeSelector interruptGate u x) = 8" for h u x
    by (simp_all add: setGate_def interruptGate_def CodeSelector_def sizeof_UserEntry_def Let_def)
  have g: "gate_present 0xEE" "gate_present 0x8E" "gate_type 0xEE = 0xE" "gate_type 0x8E = 0xE"
    "gate_privilegeLevel 0xEE = 3" "gate_privilegeLevel 0x8E = 0"
    by (simp_all add: gate_present_def gate_type_def gate_privilegeLevel_def take_bit_eq_mod drop_bit_eq_div)
  show ?thesis
  proof (cases "gate_of st n")
    case (Some h)
    then have "IDTEntries (setupIDTTable st s) ! n = setGate h CodeSelector interruptGate (n = 128) (IDTEntries s ! n)"
      using e by simp
    then show ?thesis using Some by (simp add: getGate_setGate f g)
  qed (use e in simp)
qed

theorem idt_gates_witness:
  "\<forall>s0 :: trap_state. let t = IDTEntries (setupIDTTable \<lparr>isr = \<lambda>n. 0xFFFF800012340000 + of_nat n, irq = \<lambda>n. of_nat n\<rparr>
        (s0\<lparr>IDTEntries := replicate 256 \<lparr>ie_baseLow = 0, ie_selector = 0, ie_zero = 0, ie_flags = 0, ie_baseMid = 0, ie_baseHigh = 0, ie_padding = 0\<rparr>\<rparr>))
     in getGate (t ! 14) = 0xFFFF80001234000E \<and> gate_privilegeLevel (ie_flags (t ! 128)) = 3 \<and> ie_flags (t ! 60) = 0"
proof
  fix s0 :: trap_state
  let ?z = "\<lparr>ie_baseLow = 0, ie_selector = 0, ie_zero = 0, ie_flags = 0, ie_baseMid = 0, ie_baseHigh = 0, ie_padding = 0\<rparr>"
  let ?st = "\<lparr>isr = \<lambda>n. 0xFFFF800012340000 + of_nat n, irq = \<lambda>n. of_nat n\<rparr>"
  let ?s = "s0\<lparr>IDTEntries := replicate 256 ?z\<rparr>"
  have "length (IDTEntries ?s) = 256" by simp
  note g = idt_gates[OF this, where st = ?st]
  have "gate_of ?st 14 = Some 0xFFFF80001234000E" "gate_of ?st 128 = Some 0xFFFF800012340080" "gate_of ?st 60 = None"
    by (simp_all add: gate_of_def)
  then show "let t = IDTEntries (setupIDTTable ?st ?s)
     in getGate (t ! 14) = 0xFFFF80001234000E \<and> gate_privilegeLevel (ie_flags (t ! 128)) = 3 \<and> ie_flags (t ! 60) = 0"
    using g[of 14] g[of 128] g[of 60] by (simp add: Let_def)
qed

section \<open>Faults\<close>

lemma PanicExclamationExclamation_stops: "\<exists>e. PanicExclamationExclamation why registers s = Inl e"
  by (cases "PanicExclamationExclamation why registers s") (auto simp: PanicExclamationExclamation_def obind_eq_Inr_iff)

text \<open>What the calls on the way of \<^verbatim>\<open>exitCurrentProcess\<close> keep when they return.\<close>

definition proc_same :: "'a proc_state_scheme \<Rightarrow> 'a proc_state_scheme \<Rightarrow> bool" where
  "proc_same s t \<longleftrightarrow> thisCPU t = thisCPU s \<and> ProcessTable t = ProcessTable s \<and> ProcessTable_addr t = ProcessTable_addr s
     \<and> (\<forall>c. currentProcess (CPUs t ! c) = currentProcess (CPUs s ! c) \<and> schedulerTask (CPUs t ! c) = schedulerTask (CPUs s ! c))
     \<and> ctx t = ctx s"

lemma proc_same_trans: "proc_same s t \<Longrightarrow> proc_same t u \<Longrightarrow> proc_same s u"
  by (simp add: proc_same_def)

lemma cli_neutral_cpu [simp]:
  "currentProcess (CPUs (cli_neutral s) ! c) = currentProcess (CPUs s ! c)"
  "schedulerTask (CPUs (cli_neutral s) ! c) = schedulerTask (CPUs s ! c)"
  using thisCPU_bound[of s] by (auto simp: cli_neutral_def cli_def nth_list_update split: option.splits)

lemma Spinlock_cpu:
  "Spinlock_acquire w s = Inr r \<Longrightarrow> \<exists>c. thisCPU s = Some c" "Spinlock_release w s = Inr r \<Longrightarrow> \<exists>c. thisCPU s = Some c"
  by (cases "thisCPU s"; simp add: Spinlock_acquire_def Spinlock_release_def pushCLI_def)+

lemma pm_lock_same: "pm_lock s = Inr t \<Longrightarrow> proc_same s t" "pm_unlock s = Inr t \<Longrightarrow> proc_same s t"
  using Spinlock_cpu[of "pm_lockword s" s]
  by (auto simp: pm_lock_def pm_unlock_def proc_same_def obind_eq_Inr_iff kernel_simps split: if_splits)

lemma PT_same:
  "acquirePT s = Inr t \<Longrightarrow> proc_same s t" "releasePT s = Inr t \<Longrightarrow> proc_same s t"
  using Spinlock_cpu[of "ProcessTableSpinlock s" s]
  by (auto simp: acquirePT_def releasePT_def proc_same_def obind_eq_Inr_iff kernel_simps split: if_splits)

lemma proc_same_mem [simp]: "proc_same s (t\<lparr>mem := m\<rparr>) = proc_same s t" "proc_same s (t\<lparr>pm_freeList := f\<rparr>) = proc_same s t"
  "proc_same (s\<lparr>mem := m\<rparr>) t = proc_same s t" "proc_same (s\<lparr>pm_freeList := f\<rparr>) t = proc_same s t"
  by (simp_all add: proc_same_def)

lemma freePages_same: "freePages base n s = Inr t \<Longrightarrow> proc_same s t"
  unfolding freePages_def
  by (auto simp: obind_eq_Inr_iff Let_def split: if_splits prod.splits dest!: pm_lock_same intro: proc_same_trans)

lemma proc_of_same: "proc_same s t \<Longrightarrow> proc_of t p = proc_of s p"
  by (simp add: proc_same_def proc_of_def proc_ptr_def)

lemma proc_of_Some: "proc_of s p = Some i \<Longrightarrow> i < length (ProcessTable s)"
  by (auto simp: proc_of_def find_Some_iff)

lemma freeProcess_ends:
  assumes "freeProcess p s = Inr t"
  obtains i where "proc_of s p = Some i" and "ProcessTable t = (ProcessTable s)[i := (ProcessTable s ! i)\<lparr>state := Unused\<rparr>]"
    and "thisCPU t = thisCPU s" and "ProcessTable_addr t = ProcessTable_addr s"
    and "\<And>c. currentProcess (CPUs t ! c) = currentProcess (CPUs s ! c) \<and> schedulerTask (CPUs t ! c) = schedulerTask (CPUs s ! c)"
proof -
  obtain s1 where s1: "acquirePT s = Inr s1" using assms by (auto simp: freeProcess_def obind_eq_Inr_iff)
  obtain i where i: "proc_of s1 p = Some i"
    using assms s1 by (auto simp: freeProcess_def split: option.splits)
  let ?q = "(ProcessTable s1 ! i)\<lparr>state := Unused\<rparr>"
  obtain s2 where s2: "freePage (kernelStack (ProcessTable s1 ! i)) (set_proc i ?q s1) = Inr s2" "releasePT s2 = Inr t"
    using assms s1 i by (auto simp: freeProcess_def Let_def obind_eq_Inr_iff)
  have same: "proc_same s s1" "proc_same (set_proc i ?q s1) t"
    using PT_same[of s s1] s1 proc_same_trans[OF freePages_same PT_same(2)] s2 by (auto simp: freePage_def)
  show ?thesis
    by (rule that[of i]) (use same i proc_of_same[OF same(1)] in \<open>auto simp: proc_same_def set_proc_def\<close>)
qed

lemma exitCurrentProcess_ends:
  assumes "exitCurrentProcess s = Inr t"
  obtains c i where "thisCPU s = Some c" and "proc_of s (currentProcess (CPUs s ! c)) = Some i"
    and "state (ProcessTable t ! i) = Unused" and "\<And>j. j \<noteq> i \<Longrightarrow> ProcessTable t ! j = ProcessTable s ! j"
    and "ctx t = load_context (mem t) (schedulerTask (CPUs s ! c))"
proof -
  obtain c where c: "thisCPU s = Some c" using assms by (auto simp: exitCurrentProcess_def split: option.splits)
  let ?p = "currentProcess (CPUs s ! c)"
  obtain s1 where s1: "freeProcess ?p s = Inr s1" "enterSchedulerFromProcess s1 = Inr t"
    using assms c by (auto simp: exitCurrentProcess_def obind_eq_Inr_iff)
  obtain i where i: "proc_of s ?p = Some i" "ProcessTable s1 = (ProcessTable s)[i := (ProcessTable s ! i)\<lparr>state := Unused\<rparr>]"
    "thisCPU s1 = thisCPU s" "ProcessTable_addr s1 = ProcessTable_addr s"
    "\<And>c. currentProcess (CPUs s1 ! c) = currentProcess (CPUs s ! c) \<and> schedulerTask (CPUs s1 ! c) = schedulerTask (CPUs s ! c)"
    using freeProcess_ends[OF s1(1)] by blast
  have "proc_of s1 ?p = Some i" using i(1) by (simp add: proc_of_def proc_ptr_def i(2,4))
  then have t: "t = set_proc i ((ProcessTable s1 ! i)\<lparr>kernelTask := c_rsp (ctx s1) - 56\<rparr>)
      (s1\<lparr>ctx := load_context (save_context (ctx s1) (mem s1)) (schedulerTask (CPUs s ! c)), mem := save_context (ctx s1) (mem s1)\<rparr>)"
    using s1(2) i(3,5) c by (simp add: enterSchedulerFromProcess_def Pause_eq)
  show ?thesis
    by (rule that[of c i]) (use c i proc_of_Some[OF i(1)] in \<open>simp_all add: t set_proc_def\<close>)
qed

text \<open>
  C14. A fault in kernel code is never returned from, and one in a process ends the process: when the
  handler comes back from a double fault, a general protection fault or a page fault at all, it was
  not a double fault, the code at fault was not in the kernel's segment, the processor was running
  a process, that process is unused now and no other entry of the table has changed, and execution has
  left for the scheduler's saved context.
\<close>

theorem faults_end_the_process:
  assumes "TrapHandler hw registers s = Inr (r, t)" and "reg s registers InterruptNumber \<in> {8, 13, 14}"
  shows "reg s registers InterruptNumber \<noteq> 8 \<and> reg s registers Cs \<noteq> 8 \<and> r = Switched
    \<and> (\<exists>c i. thisCPU s = Some c \<and> proc_of s (currentProcess (CPUs s ! c)) = Some i \<and> state (ProcessTable t ! i) = Unused
         \<and> (\<forall>j. j \<noteq> i \<longrightarrow> ProcessTable t ! j = ProcessTable s ! j) \<and> ctx t = load_context (mem t) (schedulerTask (CPUs s ! c)))"
proof -
  have pan: "PanicExclamationExclamation why registers s \<noteq> Inr x" for why x
    using PanicExclamationExclamation_stops[of why registers s] by auto
  obtain why where "process_fault why registers s = Inr (r, t)" "reg s registers InterruptNumber \<noteq> 8"
    using assms pan by (auto simp: TrapHandler_def Let_def SyscallInterrupt_def obind_eq_Inr_iff)
  moreover from this(1) have "fault_in_kernel registers s = Inr False" "exitCurrentProcess s = Inr t" "r = Switched"
    using pan by (auto simp: process_fault_def obind_eq_Inr_iff split: if_splits)
  moreover from this(2) exitCurrentProcess_ends obtain c i where "thisCPU s = Some c" "proc_of s (currentProcess (CPUs s ! c)) = Some i"
    "state (ProcessTable t ! i) = Unused" "\<And>j. j \<noteq> i \<Longrightarrow> ProcessTable t ! j = ProcessTable s ! j"
    "ctx t = load_context (mem t) (schedulerTask (CPUs s ! c))" by blast
  ultimately show ?thesis by (auto simp: fault_in_kernel_def sizeof_UserEntry_def)
qed

text \<open>A page fault (14) of user code (selector \<open>0x2B\<close>) in the process of entry 0.\<close>

definition fault_frame :: memory where
  "fault_frame = store64 (store64 (\<lambda>_. 0) 0x5078 14) 0x5090 0x2B"

definition faulting_kernel :: proc_state where
  "faulting_kernel = sample_kernel\<lparr>mem := fault_frame, pm_freeList := 0, CPUs := [zero_CPUState\<lparr>currentProcess := 0x100000\<rparr>],
     ProcessTable := (replicate 64 unused_process)[0 := unused_process\<lparr>state := Running, kernelStack := 0x9000\<rparr>]\<rparr>"

lemma faulting_kernel_facts:
  "thisCPU faulting_kernel = Some 0" "proc_of faulting_kernel 0x100000 = Some 0"
  "reg faulting_kernel 0x5000 InterruptNumber = 14" "reg faulting_kernel 0x5000 Cs = 0x2B"
proof -
  show "thisCPU faulting_kernel = Some 0"
    by (simp add: faulting_kernel_def sample_kernel_def thisCPU_def lapicID_def zero_CPUState_def)
  show "proc_of faulting_kernel 0x100000 = Some 0"
    by (simp add: proc_of_def proc_ptr_def faulting_kernel_def sample_kernel_def upt_conv_Cons)
  have "apart 0x5090 8 (0x5078 :: u64) 8" by (simp add: apart_def)
  then show "reg faulting_kernel 0x5000 InterruptNumber = 14" "reg faulting_kernel 0x5000 Cs = 0x2B"
    by (simp_all add: reg_def faulting_kernel_def fault_frame_def load64_store64_apart)
qed

lemma faulting_kernel_exits: "\<exists>t. exitCurrentProcess faulting_kernel = Inr t"
proof -
  let ?s = faulting_kernel
  let ?s1 = "(cli_neutral ?s)\<lparr>ProcessTableSpinlock := lock_set_held 1 0\<rparr>"
  have f: "ProcessTableSpinlock ?s = 0" "pm_freeList ?s = 0" "pm_lockword ?s = 0" "currentProcess (CPUs ?s ! 0) = 0x100000"
    by (simp_all add: faulting_kernel_def sample_kernel_def)
  have a: "acquirePT ?s = Inr ?s1" using f faulting_kernel_facts(1) by (simp add: kernel_simps lock_held_def)
  have p1: "proc_of ?s1 0x100000 = Some 0" using proc_of_same[OF PT_same(1)[OF a]] faulting_kernel_facts(2) by simp
  define q where "q = set_proc 0 ((ProcessTable ?s1 ! 0)\<lparr>state := Unused\<rparr>) ?s1"
  have q: "\<not> usingLock q" "pm_freeList q = 0" "thisCPU q = Some 0"
    using f faulting_kernel_facts(1) by (simp_all add: q_def set_proc_def usingLock_def)
  define k where "k = kernelStack (ProcessTable ?s1 ! 0)"
  define s2 where "s2 = q\<lparr>mem := set_count (fst (memset (mem q) k 0 (PageSize * 1))) k 1, pm_freeList := k\<rparr>"
  have s2: "freePage k q = Inr s2" "thisCPU s2 = Some 0"
    using q by (simp_all add: s2_def freePage_def freePages_def pm_lock_def pm_unlock_def Let_def)
  obtain s3 where s3: "releasePT s2 = Inr s3" using s2(2) by (simp add: kernel_simps)
  have free: "freeProcess 0x100000 ?s = Inr s3" using a p1 s2(1) s3 by (simp add: freeProcess_def Let_def q_def k_def)
  obtain i where e: "proc_of ?s 0x100000 = Some i" "ProcessTable s3 = (ProcessTable ?s)[i := (ProcessTable ?s ! i)\<lparr>state := Unused\<rparr>]"
    "thisCPU s3 = thisCPU ?s" "ProcessTable_addr s3 = ProcessTable_addr ?s"
    "\<And>c. currentProcess (CPUs s3 ! c) = currentProcess (CPUs ?s ! c) \<and> schedulerTask (CPUs s3 ! c) = schedulerTask (CPUs ?s ! c)"
    using freeProcess_ends[OF free] by blast
  have "proc_of s3 0x100000 = proc_of ?s 0x100000" by (simp add: proc_of_def proc_ptr_def e(2,4))
  then have "thisCPU s3 = Some 0" "proc_of s3 (currentProcess (CPUs s3 ! 0)) = Some i"
    using e(1,3,5) f(4) faulting_kernel_facts(1) by simp_all
  then show ?thesis using free faulting_kernel_facts(1) f(4)
    by (simp add: exitCurrentProcess_def enterSchedulerFromProcess_def Pause_eq)
qed

theorem faults_end_the_process_witness:
  "\<exists>t. TrapHandler (\<lambda>_ _ _. 0) 0x5000 faulting_kernel = Inr (Switched, t) \<and> state (ProcessTable t ! 0) = Unused
     \<and> (\<forall>j. j \<noteq> 0 \<longrightarrow> ProcessTable t ! j = ProcessTable faulting_kernel ! j)"
proof -
  obtain t where "exitCurrentProcess faulting_kernel = Inr t" using faulting_kernel_exits by blast
  moreover have cur: "currentProcess (CPUs faulting_kernel ! 0) = 0x100000" by (simp add: faulting_kernel_def)
  ultimately have h: "TrapHandler (\<lambda>_ _ _. 0) 0x5000 faulting_kernel = Inr (Switched, t)"
    using faulting_kernel_facts
    by (simp add: TrapHandler_def process_fault_def fault_in_kernel_def SyscallInterrupt_def sizeof_UserEntry_def)
  show ?thesis using faults_end_the_process[OF h] h faulting_kernel_facts cur by auto
qed

end
