(* ===== verification/Process_Types.thy ===== *)
theory Process_Types
  imports Trap_Gates
begin

text \<open>
  Well-typed process pointers: the pointer \<^verbatim>\<open>currentProcess\<close> of a processor (\<^verbatim>\<open>src/Kernel/ProcessManagement.h\<close>) is null or leads to an
  entry of the process table. The lemmas say of every operation of \<^verbatim>\<open>ProcessManagement.cpp\<close> and of the handlers of \<^verbatim>\<open>Traps.cpp\<close>, and of what they
  call, that the table stays where it is with its entries and which process is current does not change; the switch of \<^verbatim>\<open>schedule\<close> is the exception.
\<close>

named_theorems keeps_intros

definition keeps :: "'a proc_state_scheme \<Rightarrow> 'a proc_state_scheme \<Rightarrow> bool" where
  "keeps s t \<longleftrightarrow> map currentProcess (CPUs t) = map currentProcess (CPUs s) \<and> length (ProcessTable t) = length (ProcessTable s)
     \<and> ProcessTable_addr t = ProcessTable_addr s"

text \<open>\<open>leaves f s r\<close>: if the call \<open>r\<close> returns, the state in its result has kept what \<open>s\<close> has.\<close>

definition leaves :: "('b \<Rightarrow> 'a proc_state_scheme) \<Rightarrow> 'a proc_state_scheme \<Rightarrow> 'b outcome \<Rightarrow> bool" where
  "leaves f s r \<longleftrightarrow> (\<forall>x. r = Inr x \<longrightarrow> keeps s (f x))"

lemma keeps_refl [simp]: "keeps s s"
  by (simp add: keeps_def)

lemma keeps_updates [simp]:
  "keeps s (t\<lparr>mem := m\<rparr>) = keeps s t" "keeps s (t\<lparr>rflags := f\<rparr>) = keeps s t" "keeps s (t\<lparr>outb_log := o'\<rparr>) = keeps s t"
  "keeps s (t\<lparr>pm_lockword := w\<rparr>) = keeps s t" "keeps s (t\<lparr>pm_freeList := l\<rparr>) = keeps s t" "keeps s (t\<lparr>logLock := w\<rparr>) = keeps s t"
  "keeps s (t\<lparr>lapic_writes := ws\<rparr>) = keeps s t" "keeps s (t\<lparr>lapic_reads := n\<rparr>) = keeps s t" "keeps s (t\<lparr>ctx := c\<rparr>) = keeps s t"
  "keeps s (t\<lparr>cr3 := r\<rparr>) = keeps s t" "keeps s (t\<lparr>ProcessTableSpinlock := w\<rparr>) = keeps s t" "keeps s (set_proc i p t) = keeps s t"
  by (simp_all add: keeps_def set_proc_def)

lemma map_update_same: "f y = f (xs ! i) \<Longrightarrow> map f (xs[i := y]) = map f xs"
  by (cases "i < length xs") (simp_all add: map_update list_update_same_conv list_update_beyond)

lemma leaves_Inr [keeps_intros]: "keeps s (f x) \<Longrightarrow> leaves f s (Inr x)"
  by (simp add: leaves_def)

lemma leaves_Inl [keeps_intros]: "leaves f s (Inl e)"
  by (simp add: leaves_def)

lemma leaves_if [keeps_intros]: "leaves g s a \<Longrightarrow> leaves g s b \<Longrightarrow> leaves g s (if c then a else b)"
  by simp

lemma leaves_case_option [keeps_intros]: "leaves g s a \<Longrightarrow> (\<And>x. leaves g s (b x)) \<Longrightarrow> leaves g s (case v of None \<Rightarrow> a | Some x \<Rightarrow> b x)"
  by (cases v) simp_all

lemma leaves_bind:
  assumes "leaves (\<lambda>x. x) s r" and "\<And>t. keeps s t \<Longrightarrow> leaves g s (h t)"
  shows "leaves g s (obind r h)"
  using assms by (auto simp: leaves_def obind_eq_Inr_iff)

lemma leaves_bind_pair:
  assumes "leaves snd s r" and "\<And>x t. keeps s t \<Longrightarrow> leaves g s (h (x, t))"
  shows "leaves g s (obind r h)"
  using assms by (auto simp: leaves_def obind_eq_Inr_iff)

lemma leaves_option: "(\<And>x. leaves g s (h x)) \<Longrightarrow> leaves g s (obind (of_option e v) h)"
  by (cases v) (simp_all add: leaves_Inl)

lemma leaves_const: "(\<And>x. leaves g s (h x)) \<Longrightarrow> leaves g s (obind r h)"
  by (cases r) (simp_all add: leaves_Inl)

section \<open>Locks and pages\<close>

lemma pushCLI_keeps [keeps_intros]: "keeps s t \<Longrightarrow> leaves (\<lambda>x. x) s (pushCLI t)"
  by (auto simp: leaves_def pushCLI_def Let_def cli_def keeps_def map_update_same push_cli_cpu_def split: option.splits)

lemma popCLI_keeps [keeps_intros]: "keeps s t \<Longrightarrow> leaves (\<lambda>x. x) s (popCLI t)"
  by (auto simp: leaves_def popCLI_def Let_def sti_def keeps_def map_update_same pop_cli_cpu_def split: option.splits)

lemma acquire_keeps [keeps_intros]: "keeps s t \<Longrightarrow> leaves snd s (Spinlock_acquire w t)"
  unfolding Spinlock_acquire_def Let_def case_prod_beta by (intro leaves_bind keeps_intros) simp_all

lemma release_keeps [keeps_intros]: "keeps s t \<Longrightarrow> leaves snd s (Spinlock_release w t)"
  unfolding Spinlock_release_def by (intro leaves_bind keeps_intros) simp_all

lemma lock_keeps [keeps_intros]:
  "keeps s t \<Longrightarrow> leaves (\<lambda>x. x) s (pm_lock t)" "keeps s t \<Longrightarrow> leaves (\<lambda>x. x) s (pm_unlock t)"
  "keeps s t \<Longrightarrow> leaves (\<lambda>x. x) s (lockLog t)" "keeps s t \<Longrightarrow> leaves (\<lambda>x. x) s (unlockLog t)"
  "keeps s t \<Longrightarrow> leaves (\<lambda>x. x) s (acquirePT t)" "keeps s t \<Longrightarrow> leaves (\<lambda>x. x) s (releasePT t)"
  unfolding pm_lock_def pm_unlock_def lockLog_def unlockLog_def acquirePT_def releasePT_def
  by (intro leaves_bind_pair keeps_intros; simp)+

lemma allocatePages_keeps [keeps_intros]: "keeps s t \<Longrightarrow> leaves snd s (allocatePages n t)"
  unfolding allocatePages_def Let_def case_prod_beta
  by (rule leaves_bind, rule keeps_intros, assumption, rule leaves_option) (intro leaves_bind keeps_intros; simp)

lemma allocatePage_keeps [keeps_intros]: "keeps s t \<Longrightarrow> leaves snd s (allocatePage t)"
  unfolding allocatePage_def by (rule keeps_intros)

lemma freePages_keeps [keeps_intros]: "keeps s t \<Longrightarrow> leaves (\<lambda>x. x) s (freePages a n t)"
  unfolding freePages_def Let_def case_prod_beta
  by (rule leaves_bind, rule keeps_intros, assumption, rule leaves_if) (intro leaves_option keeps_intros; simp)+

lemma freePage_keeps [keeps_intros]: "keeps s t \<Longrightarrow> leaves (\<lambda>x. x) s (freePage a t)"
  unfolding freePage_def by (rule keeps_intros)

lemma shallowCopy_keeps [keeps_intros]: "keeps s t \<Longrightarrow> leaves snd s (shallowCopy rt t)"
  unfolding shallowCopy_def case_prod_beta by (intro leaves_bind_pair keeps_intros; simp)

lemma table_keeps [keeps_intros]:
  "keeps s t \<Longrightarrow> leaves snd s (allocatePageForTableEntry e t)" "keeps s t \<Longrightarrow> leaves (\<lambda>x. x) s (ensure_table e t)"
proof -
  show entry: "leaves snd s (allocatePageForTableEntry e t)" if "keeps s t" for t
    unfolding allocatePageForTableEntry_def Let_def case_prod_beta using that by (intro leaves_bind_pair keeps_intros; simp)
  have "leaves snd s (allocatePageTableForTableEntry e t)" if "keeps s t" for t
    unfolding allocatePageTableForTableEntry_def Let_def case_prod_beta using that by (intro leaves_bind_pair entry keeps_intros; simp)
  then show "keeps s t \<Longrightarrow> leaves (\<lambda>x. x) s (ensure_table e t)"
    unfolding ensure_table_def case_prod_beta by (intro leaves_bind_pair keeps_intros; simp)
qed

lemma map_page_keeps [keeps_intros]: "keeps s t \<Longrightarrow> leaves (\<lambda>x. x) s (map_page rt va pa t)"
  unfolding map_page_def Let_def by (intro leaves_bind keeps_intros; simp)

lemma logfn_keeps [keeps_intros]: "keeps s t \<Longrightarrow> leaves snd s (logfn fmt va t)"
  unfolding logfn_def logfn_via_def vsnprintf_out_char obind_assoc obind.simps prod.case by (intro leaves_const leaves_bind keeps_intros; simp)

lemma log_line_keeps [keeps_intros]: "keeps s t \<Longrightarrow> leaves (\<lambda>x. x) s (log_line fmt va t)"
  unfolding log_line_def case_prod_beta by (intro leaves_bind_pair keeps_intros; simp)

section \<open>Processes and traps\<close>

lemma allocateProcess_keeps [keeps_intros]: "keeps s t \<Longrightarrow> leaves snd s (allocateProcess sy t)"
  unfolding allocateProcess_def Let_def case_prod_beta
  by (rule leaves_bind, rule keeps_intros, assumption, rule leaves_case_option, intro leaves_bind keeps_intros; simp?)
     (intro leaves_bind_pair[OF shallowCopy_keeps] leaves_bind[OF lock_keeps(6)] leaves_bind_pair[OF allocatePage_keeps] keeps_intros; simp)

lemma freeProcess_keeps [keeps_intros]: "keeps s t \<Longrightarrow> leaves (\<lambda>x. x) s (freeProcess p t)"
  unfolding freeProcess_def Let_def by (intro leaves_bind keeps_intros; simp)

lemma createFirstProcess_keeps [keeps_intros]: "keeps s t \<Longrightarrow> leaves (\<lambda>x. x) s (createFirstProcess sy t)"
  unfolding createFirstProcess_def Let_def case_prod_beta
  by (intro leaves_bind_pair[OF allocateProcess_keeps] leaves_bind_pair[OF allocatePage_keeps] leaves_case_option leaves_Inl
      leaves_bind[OF map_page_keeps] leaves_bind[OF lock_keeps(5)] keeps_intros; simp)

lemma exit_keeps [keeps_intros]: "keeps s t \<Longrightarrow> leaves (\<lambda>x. x) s (exitCurrentProcess t)"
  unfolding exitCurrentProcess_def enterSchedulerFromProcess_def Let_def case_prod_beta by (intro leaves_bind keeps_intros; simp)

lemma panic_leaves [keeps_intros]: "leaves f s (PanicExclamationExclamation why r t)"
  unfolding PanicExclamationExclamation_def by (intro leaves_const leaves_Inl)

lemma process_fault_keeps [keeps_intros]: "keeps s t \<Longrightarrow> leaves snd s (process_fault why r t)"
  unfolding process_fault_def by (rule leaves_const) (intro leaves_bind keeps_intros; simp)

lemma TrapHandler_keeps: "keeps s t \<Longrightarrow> leaves snd s (TrapHandler hw r t)"
  unfolding TrapHandler_def Let_def
  by (intro leaves_bind keeps_intros; simp add: acknowledgeInterrupt_def writeLAPIC_def readLAPIC_def)

lemma KernelSyscallHandler_keeps: "keeps s t \<Longrightarrow> leaves snd s (KernelSyscallHandler r t)"
  unfolding KernelSyscallHandler_def by (intro leaves_bind keeps_intros; simp)

section \<open>Pointers to entries\<close>

definition process_typed :: "'a proc_state_scheme \<Rightarrow> bool" where
  "process_typed s \<longleftrightarrow> length (ProcessTable s) = 64 \<and> (\<forall>p \<in> set (map currentProcess (CPUs s)). p = 0 \<or> proc_of s p \<noteq> None)"

lemma proc_of_keeps: "keeps s t \<Longrightarrow> proc_of t p = proc_of s p"
  by (simp add: keeps_def proc_of_def proc_ptr_def)

lemma process_typed_keeps: "keeps s t \<Longrightarrow> process_typed t = process_typed s"
  using proc_of_keeps[of s t] unfolding process_typed_def keeps_def by simp

lemma leaves_typed: "leaves f s r \<Longrightarrow> process_typed s \<Longrightarrow> r = Inr x \<Longrightarrow> process_typed (f x)"
  by (simp add: leaves_def process_typed_keeps)

lemma proc_of_entry: "i < length (ProcessTable s) \<Longrightarrow> proc_of s (proc_ptr s i) \<noteq> None"
  by (auto simp: proc_of_def find_None_iff)

lemma process_typed_current:
  assumes "process_typed s" and "p = 0 \<or> proc_of s p \<noteq> None"
  shows "process_typed (s\<lparr>CPUs := (CPUs s)[c := (CPUs s ! c)\<lparr>currentProcess := p\<rparr>]\<rparr>)"
proof -
  let ?t = "s\<lparr>CPUs := (CPUs s)[c := (CPUs s ! c)\<lparr>currentProcess := p\<rparr>]\<rparr>"
  have "proc_of ?t = proc_of s" by (rule ext) (simp add: proc_of_def proc_ptr_def)
  moreover have "map currentProcess (CPUs ?t) = (map currentProcess (CPUs s))[c := p]" by (simp add: map_update)
  ultimately show ?thesis
    using assms set_update_subset_insert[of "map currentProcess (CPUs s)" c p] unfolding process_typed_def by auto
qed

lemma dispatch_typed:
  assumes "process_typed s" and "i < 64" and "dispatch c i s = Inr t"
  shows "process_typed t"
proof -
  obtain v s1 where s1: "logfn ''found a process to run! :)\<newline>'' [] s = Inr (v, s1)"
    using assms(3) by (auto simp: dispatch_def obind_eq_Inr_iff)
  have t1: "process_typed s1" using leaves_typed[OF logfn_keeps[OF keeps_refl] assms(1) s1] by simp
  let ?s2 = "s1\<lparr>CPUs := (CPUs s1)[c := (CPUs s1 ! c)\<lparr>currentProcess := proc_ptr s1 i\<rparr>]\<rparr>"
  have t2: "process_typed ?s2"
    using process_typed_current[OF t1] proc_of_entry[of i s1] t1 assms(2) by (simp add: process_typed_def)
  have "leaves (\<lambda>x. x) ?s2 (dispatch c i s)"
    unfolding dispatch_def s1 obind.simps prod.case Let_def case_prod_beta
  proof (rule leaves_bind_pair[OF logfn_keeps], unfold keeps_updates)
    show "leaves (\<lambda>x. x) ?s2 (Inr (snd (x, u)\<lparr>ctx := c', mem := m,
        CPUs := (CPUs (snd (x, u)))[c := (CPUs (snd (x, u)) ! c)\<lparr>schedulerTask := k\<rparr>]\<rparr>))" if "keeps ?s2 u" for x :: u32 and u c' m k
      using that by (intro leaves_Inr) (simp add: keeps_def map_update_same)
  qed simp
  then have "keeps ?s2 t" unfolding leaves_def using assms(3) by (elim allE impE)
  then show ?thesis using t2 process_typed_keeps by blast
qed

lemma sched_step_typed:
  assumes "sched_step R c x y" and "\<And>u v. R u v \<Longrightarrow> process_typed u \<Longrightarrow> process_typed v" and "process_typed (snd x)"
  shows "process_typed (snd y)"
  using assms(1)
proof (cases rule: sched_step.cases)
  case (enable u)
  then show ?thesis using assms(3) process_typed_keeps[of u "sti u"] by (simp add: sti_def)
next
  case (acquire u v)
  then show ?thesis using assms(3) leaves_typed[OF lock_keeps(5)[OF keeps_refl]] by auto
next
  case (finish p u v)
  then show ?thesis using assms(3) leaves_typed[OF lock_keeps(6)[OF keeps_refl]] by auto
next
  case (run p u v)
  then show ?thesis using assms(3) dispatch_typed by auto
qed (use assms(2,3) in auto)

lemma allocateProcess_pointer:
  assumes "allocateProcess sy s = Inr (p, t)"
  shows "p = 0 \<or> (\<exists>i < length (ProcessTable s). p = proc_ptr t i)"
proof -
  obtain s1 where s1: "acquirePT s = Inr s1" using assms by (auto simp: allocateProcess_def obind_eq_Inr_iff)
  have len: "length (ProcessTable s1) = length (ProcessTable s)" using lock_keeps(5)[OF keeps_refl, of s] s1 by (simp add: leaves_def keeps_def)
  show ?thesis
  proof (cases "find_unused 0 (ProcessTable s1)")
    case None
    then show ?thesis using assms s1 by (auto simp: allocateProcess_def obind_eq_Inr_iff)
  next
    case (Some i)
    then have "i < length (ProcessTable s)" using find_unused_Some[OF Some] len by simp
    then show ?thesis using assms s1 Some by (auto simp: allocateProcess_def obind_eq_Inr_iff Let_def split: if_splits)
  qed
qed

text \<open>
  C11. The pointer to the current process is well typed. When each processor's pointer is null or leads to an entry of the table of 64, it does so after every
  call of \<^verbatim>\<open>allocateProcess\<close>, which also returns such a pointer, of \<^verbatim>\<open>freeProcess\<close>, \<^verbatim>\<open>createFirstProcess\<close> and \<^verbatim>\<open>exitCurrentProcess\<close>, after every trap
  and system call that returns, and in every state that \<^verbatim>\<open>schedule\<close> reaches, whatever memory holds, if the processes keep to it while they run.
\<close>

theorem current_process_typed:
  assumes typed: "process_typed s"
  shows "(allocateProcess sy s = Inr (p, t) \<longrightarrow> process_typed t \<and> (p = 0 \<or> proc_of t p \<noteq> None))
    \<and> (freeProcess q s = Inr t \<longrightarrow> process_typed t) \<and> (createFirstProcess sy s = Inr t \<longrightarrow> process_typed t)
    \<and> (exitCurrentProcess s = Inr t \<longrightarrow> process_typed t) \<and> (TrapHandler hw r s = Inr (res, t) \<longrightarrow> process_typed t)
    \<and> (KernelSyscallHandler r s = Inr (r', t) \<longrightarrow> process_typed t)
    \<and> ((\<forall>u v. R u v \<longrightarrow> process_typed u \<longrightarrow> process_typed v) \<longrightarrow> sched_reachable R c (schedule_start c s) (pc, t) \<longrightarrow> process_typed t)"
proof (intro conjI impI)
  assume a: "allocateProcess sy s = Inr (p, t)"
  show "process_typed t" using leaves_typed[OF allocateProcess_keeps[OF keeps_refl] typed a] by simp
  then show "p = 0 \<or> proc_of t p \<noteq> None" using allocateProcess_pointer[OF a] proc_of_entry[of _ t] typed by (auto simp: process_typed_def)
next
  assume R: "\<forall>u v. R u v \<longrightarrow> process_typed u \<longrightarrow> process_typed v" and "sched_reachable R c (schedule_start c s) (pc, t)"
  moreover have "sched_reachable R c (schedule_start c s) y \<Longrightarrow> process_typed (snd y)" for y
  proof (induction rule: sched_reachable.induct)
    case start
    then show ?case using process_typed_current[OF typed, of 0] by (simp add: schedule_start_def)
  next
    case (step y z)
    then show ?case using sched_step_typed R by blast
  qed
  ultimately show "process_typed t" by fastforce
qed (use typed leaves_typed[OF freeProcess_keeps[OF keeps_refl]] leaves_typed[OF createFirstProcess_keeps[OF keeps_refl]]
    leaves_typed[OF exit_keeps[OF keeps_refl]] leaves_typed[OF TrapHandler_keeps[OF keeps_refl]]
    leaves_typed[OF KernelSyscallHandler_keeps[OF keeps_refl]] in fastforce)+

theorem current_process_typed_witness:
  "\<exists>t u. allocateProcess \<lparr>TrapRet = 0, ProcessEntryPoint_addr = 0, SyscallHandler = 0, MyFirstUserspace = 0, MyFirstUserspaceEnd = 0\<rparr> sample_kernel = Inr (0x100000, t)
     \<and> process_typed t \<and> proc_of t 0x100000 \<noteq> None
     \<and> sched_reachable (\<lambda>u v. v = u) 0 (schedule_start 0 sample_kernel) (Acquiring, u) \<and> process_typed u"
proof -
  let ?sy = "\<lparr>TrapRet = 0, ProcessEntryPoint_addr = 0, SyscallHandler = 0, MyFirstUserspace = 0, MyFirstUserspaceEnd = 0\<rparr>"
  let ?u = "sti (snd (schedule_start 0 sample_kernel))"
  have k: "process_typed sample_kernel" by (simp add: process_typed_def sample_kernel_def zero_CPUState_def)
  have "proc_ptr sample_kernel 0 = 0x100000" by (simp add: proc_ptr_def sample_kernel_def)
  then obtain t where t: "allocateProcess ?sy sample_kernel = Inr (0x100000, t)"
    using allocateProcess_run[OF sample_kernel_facts(1) sample_kernel_pages(1) sample_kernel_facts(2) sample_kernel_pages(2) sample_kernel_facts(3)
        sample_kernel_pages(3,4), of ?sy] by metis
  have "schedule_start 0 sample_kernel = (Top, snd (schedule_start 0 sample_kernel))" by (simp add: schedule_start_def)
  then have r: "sched_reachable (\<lambda>u v. v = u) 0 (schedule_start 0 sample_kernel) (Acquiring, ?u)"
    by (metis sched_reachable.start sched_reachable.step sched_step.enable)
  have "process_typed t \<and> (0x100000 = (0 :: u64) \<or> proc_of t 0x100000 \<noteq> None)"
    by (rule current_process_typed[OF k, THEN conjunct1, THEN mp, OF t])
  moreover have "process_typed ?u"
    by (rule current_process_typed[OF k, THEN conjunct2, THEN conjunct2, THEN conjunct2, THEN conjunct2, THEN conjunct2, THEN conjunct2, THEN mp, THEN mp, OF _ r]) simp
  ultimately show ?thesis using t r by (intro exI[of _ t] exI[of _ ?u]) simp
qed

end
