(* ===== verification/Address_Space.thy ===== *)
theory Address_Space
  imports Page_Mapping
begin

text \<open>
  The page tables as an address space: \<^verbatim>\<open>map\<close> of \<^verbatim>\<open>src/Kernel/VirtualMemoryManagement.cpp\<close> refines the
  update of a function from virtual to physical addresses. The invariant knows the tables by the path
  of indices that leads to them: they are different pages outside of the free memory, linked
  by entries that the kernel and the processor read alike. A missing table changes no translation
  when it is added, and the entry at the end of the path changes the translations of one page.
\<close>

section \<open>The tree of tables\<close>

text \<open>\<open>G\<close> gives the table at the end of a path of at most three indices.\<close>

definition entry_ok :: "u64 \<Rightarrow> (u64 list \<Rightarrow> u64 option) \<Rightarrow> u64 list \<Rightarrow> u64 \<Rightarrow> u64 \<Rightarrow> bool" where
  "entry_ok off G p i raw \<longleftrightarrow> pte_get Reserved raw = 0 \<and> (bit raw 0 \<longrightarrow> bit raw 1 \<and> bit raw 2) \<and>
     (length p < 3 \<longrightarrow> (if bit raw 0 then table_link raw \<and> G (p @ [i]) = Some (hw_frame raw + off) else G (p @ [i]) = None))"

definition space_ok :: "memory \<Rightarrow> u64 \<Rightarrow> nat set \<Rightarrow> (u64 list \<Rightarrow> u64 option) \<Rightarrow> bool" where
  "space_ok m off B G \<longleftrightarrow>
     (\<forall>p t. G p = Some t \<longrightarrow> length p \<le> 3 \<and> unat t + 4096 \<le> 2 ^ 64 \<and> page t \<inter> B = {})
     \<and> (\<forall>p q t u. G p = Some t \<longrightarrow> G q = Some u \<longrightarrow> p \<noteq> q \<longrightarrow> page t \<inter> page u = {})
     \<and> (\<forall>p i. G p = None \<longrightarrow> G (p @ [i]) = None)
     \<and> (\<forall>p t i. G p = Some t \<longrightarrow> unat i < 512 \<longrightarrow> entry_ok off G p i (load64 m (t + 8 * i)))"

lemma space_okD:
  assumes "space_ok m off B G" and "G p = Some t"
  shows "length p \<le> 3" "unat t + 4096 \<le> 2 ^ 64" "page t \<inter> B = {}"
    "\<And>q u. G q = Some u \<Longrightarrow> p \<noteq> q \<Longrightarrow> page t \<inter> page u = {}"
    "\<And>i. unat i < 512 \<Longrightarrow> entry_ok off G p i (load64 m (t + 8 * i))"
  using assms unfolding space_ok_def by blast+

lemma space_ok_below:
  assumes "space_ok m off B G" and "G p = None"
  shows "G (p @ r) = None"
proof (induction r rule: rev_induct)
  case (snoc i r)
  then show ?case using assms(1) unfolding space_ok_def append_assoc[symmetric] by blast
qed (use assms in simp)

lemma index_entry: "unat i < 512 \<Longrightarrow> entry_at t (ucast i) = t + 8 * i"
proof -
  assume "unat i < 512"
  then have "(ucast (ucast i :: u32) :: u64) = i"
    by (intro word_unat_eq_iff[THEN iffD2]) (simp add: unsigned_ucast_eq unsigned_take_bit_eq take_bit_nat_eq_self)
  then show ?thesis by (simp add: entry_at_def)
qed

lemma slot_in_page: "unat t + 4096 \<le> 2 ^ 64 \<Longrightarrow> unat i < 512 \<Longrightarrow> inside (t + 8 * i) 8 x \<Longrightarrow> unat x \<in> page t"
proof -
  assume a: "unat t + 4096 \<le> 2 ^ 64" "unat i < 512" "inside (t + 8 * i) 8 x"
  have "unat (ucast i :: u32) < 512" using a(2) by (simp add: unsigned_ucast_eq take_bit_nat_eq_self)
  then show "unat x \<in> page t" using entry_in_page[OF a(1), of "ucast i" x] a(2,3) by (simp add: index_entry)
qed

lemma slots_apart:
  assumes "unat i < 512" and "unat j < 512" and "i \<noteq> j"
  shows "apart (t + 8 * i) 8 (t + 8 * j) 8"
proof -
  have ij: "t + 8 * k = t + of_nat (8 * unat k)" for k by simp
  have "unat i \<noteq> unat j" using assms(3) by (simp add: word_unat_eq_iff)
  then show ?thesis
    using apart_slots[of "8 * unat i" 8 "8 * unat j" 8 t] apart_slots[of "8 * unat j" 8 "8 * unat i" 8 t] assms(1,2)
    unfolding ij by (cases "unat i < unat j") (simp_all add: apart_sym)
qed

section \<open>Translation by the tree\<close>

definition indices :: "u64 list \<Rightarrow> bool" where
  "indices is \<longleftrightarrow> (\<forall>i \<in> set is. unat i < 512)"

lemma hw_walk_tree:
  assumes "space_ok m off B G" and "G p = Some t" and "length p + length is \<le> 3" and "indices is"
  shows "hw_walk m off t is = G (p @ is)"
  using assms(2-)
proof (induction "is" arbitrary: p t)
  case (Cons i "is")
  let ?raw = "load64 m (t + 8 * i)"
  have e: "entry_ok off G p i ?raw" using space_okD(5)[OF assms(1) Cons.prems(1)] Cons.prems(3) by (simp add: indices_def)
  show ?case
  proof (cases "bit ?raw 0")
    case True
    then have "table_link ?raw" "G (p @ [i]) = Some (hw_frame ?raw + off)" using e Cons.prems(2) by (auto simp: entry_ok_def)
    then show ?thesis
      using Cons.IH[of "p @ [i]" "hw_frame ?raw + off"] Cons.prems(2,3) True
      by (simp add: table_link_def pte_get_bits indices_def)
  next
    case False
    then have "G (p @ [i]) = None" using e Cons.prems(2) by (auto simp: entry_ok_def)
    then show ?thesis using space_ok_below[OF assms(1), of "p @ [i]" "is"] False by simp
  qed
qed simp

lemma hw_leaf_tree:
  assumes "space_ok m off B G" and "G [] = Some root" and "length is = 3" and "indices is"
  shows "hw_leaf m off root is i = (case G is of None \<Rightarrow> None
    | Some t \<Rightarrow> if bit (load64 m (t + 8 * i)) 0 then Some (hw_frame (load64 m (t + 8 * i))) else None)"
  using hw_walk_tree[OF assms(1,2), of "is"] assms(3,4) by (simp add: hw_leaf_def Let_def split: option.split)

text \<open>Whatever is mapped may be read and written in user mode.\<close>

lemma hw_allows_tree:
  assumes "space_ok m off B G" and "G p = Some t" and "length p + length is = 3" and "indices is" and "unat j < 512" and "b \<in> {1, 2}"
    and "hw_leaf m off t is j \<noteq> None"
  shows "hw_allows b m off t (is @ [j])"
  using assms(2-)
proof (induction "is" arbitrary: p t)
  case Nil
  then have "bit (load64 m (t + 8 * j)) 0" by (auto simp: hw_leaf_def Let_def split: if_splits)
  then show ?case using space_okD(5)[OF assms(1) Nil(1) Nil(4)] Nil(5) by (auto simp: entry_ok_def)
next
  case (Cons i "is")
  let ?raw = "load64 m (t + 8 * i)"
  have e: "entry_ok off G p i ?raw" using space_okD(5)[OF assms(1) Cons.prems(1)] Cons.prems(3) by (simp add: indices_def)
  have raw: "bit ?raw 0" "\<not> bit ?raw 7" "hw_leaf m off (hw_frame ?raw + off) is j \<noteq> None"
    using Cons.prems(6) by (auto simp: hw_leaf_def Let_def split: if_splits)
  then have "G (p @ [i]) = Some (hw_frame ?raw + off)" using e Cons.prems(2) by (auto simp: entry_ok_def)
  then have "hw_allows b m off (hw_frame ?raw + off) (is @ [j])"
    using Cons.prems raw(3) by (intro Cons.IH) (auto simp: indices_def)
  then show ?case using raw e Cons.prems(5) by (auto simp: entry_ok_def Let_def)
qed

section \<open>Adding a table\<close>

text \<open>
  The new table \<open>t1\<close> hangs below entry \<open>i\<close> of the table at path \<open>p\<close>. Every other entry of the tree reads
  as before, and the entries of the new table are zero.
\<close>

lemma space_ok_add_table:
  assumes ok: "space_ok m off B G" and p: "G p = Some t" "length p < 3" and i: "unat i < 512" and none: "G (p @ [i]) = None"
    and new: "unat t1 + 4096 \<le> 2 ^ 64" "page t1 \<subseteq> B" "\<And>x. unat x \<in> page t1 \<Longrightarrow> m' x = 0"
    and link: "table_link (load64 m' (t + 8 * i))" "hw_frame (load64 m' (t + 8 * i)) + off = t1"
    and same: "\<And>x. unat x \<notin> B \<Longrightarrow> \<not> inside (t + 8 * i) 8 x \<Longrightarrow> m' x = m x"
  shows "space_ok m' off (B - page t1) (G(p @ [i] \<mapsto> t1))"
    and "\<And>q u j. G q = Some u \<Longrightarrow> unat j < 512 \<Longrightarrow> (q, j) \<noteq> (p, i) \<Longrightarrow> load64 m' (u + 8 * j) = load64 m (u + 8 * j)"
    and "\<And>j. unat j < 512 \<Longrightarrow> load64 m' (t1 + 8 * j) = 0"
proof -
  show old: "load64 m' (u + 8 * j) = load64 m (u + 8 * j)" if q: "G q = Some u" "unat j < 512" "(q, j) \<noteq> (p, i)" for q u j
  proof (rule load64_cong)
    fix x assume x: "inside (u + 8 * j) 8 x"
    note u = space_okD[OF ok q(1)] and t = space_okD[OF ok p(1)]
    have xu: "unat x \<in> page u" using slot_in_page[OF u(2) q(2) x] .
    have "\<not> inside (t + 8 * i) 8 x"
    proof (cases "q = p")
      case True
      then show ?thesis using q p(1) apart_inside[OF slots_apart[OF q(2) i, of u]] x by auto
    next
      case False
      then show ?thesis using slot_in_page[OF t(2) i, of x] xu u(4)[OF p(1) False] by blast
    qed
    then show "m' x = m x" using same xu u(3) by blast
  qed
  show zero: "load64 m' (t1 + 8 * j) = 0" if "unat j < 512" for j
  proof -
    have "load_le 8 m' (t1 + 8 * j) = 0"
      by (rule load_le_zeros) (use new(3) slot_in_page[OF new(1) that] in auto)
    then show ?thesis by (simp add: load64_def)
  qed
  let ?G = "G(p @ [i] \<mapsto> t1)"
  have entries: "entry_ok off ?G q j (load64 m' (u + 8 * j))" if q: "?G q = Some u" and j: "unat j < 512" for q u j
  proof (cases "q = p @ [i]")
    case True
    then show ?thesis using q zero[OF j] space_ok_below[OF ok none, of "[j]"] by (simp add: entry_ok_def)
  next
    case False
    then have gq: "G q = Some u" using q by simp
    show ?thesis
    proof (cases "(q, j) = (p, i)")
      case True
      then show ?thesis using gq p link by (auto simp: entry_ok_def table_link_def pte_get_bits)
    next
      case False2: False
      then show ?thesis using old[OF gq j False2] space_okD(5)[OF ok gq j] by (auto simp: entry_ok_def)
    qed
  qed
  have dis: "page t1 \<inter> page u = {}" if "G q = Some u" for q u using space_okD(3)[OF ok that] new(2) by blast
  show "space_ok m' off (B - page t1) ?G"
    unfolding space_ok_def
  proof (intro conjI allI impI)
    fix q u assume "?G q = Some u"
    then show "length q \<le> 3" "unat u + 4096 \<le> 2 ^ 64" "page u \<inter> (B - page t1) = {}"
      using space_okD(1-3)[OF ok, of q u] p(2) new(1) by (auto split: if_splits)
  next
    fix q r u v assume "?G q = Some u" "?G r = Some v" "q \<noteq> r"
    then show "page u \<inter> page v = {}" using space_okD(4)[OF ok, of q u r v] dis[of q u] dis[of r v] by (auto split: if_splits)
  next
    fix q j assume "?G q = None"
    then show "?G (q @ [j]) = None" using space_ok_below[OF ok, of q "[j]"] p(1) by (auto split: if_splits)
  qed (use entries in blast)
qed

lemma hw_leaf_add_table:
  assumes ok: "space_ok m off B G" and root: "G [] = Some root" and ok': "space_ok m' off B' (G(p @ [i] \<mapsto> t1))"
    and p: "length p < 3" and none: "G (p @ [i]) = None"
    and old: "\<And>q u j. G q = Some u \<Longrightarrow> unat j < 512 \<Longrightarrow> (q, j) \<noteq> (p, i) \<Longrightarrow> load64 m' (u + 8 * j) = load64 m (u + 8 * j)"
    and zero: "\<And>j. unat j < 512 \<Longrightarrow> load64 m' (t1 + 8 * j) = 0"
    and is3: "length is = 3" "indices is" and j: "unat j < 512"
  shows "hw_leaf m' off root is j = hw_leaf m off root is j"
proof -
  have "(G(p @ [i] \<mapsto> t1)) [] = Some root" using root by simp
  note new = hw_leaf_tree[OF ok' this is3, of j] and prev = hw_leaf_tree[OF ok root is3, of j]
  show ?thesis
  proof (cases "is = p @ [i]")
    case True
    then show ?thesis unfolding new prev using none zero[OF j] by simp
  next
    case False
    have "is \<noteq> p" using p is3(1) by auto
    then show ?thesis unfolding new prev using False old[of "is" _ j] j by (simp split: option.split)
  qed
qed

section \<open>The state and its steps\<close>

definition vm_holds :: "'a pm_state_scheme \<Rightarrow> (u64 \<times> u64) list \<Rightarrow> u64 \<Rightarrow> (u64 list \<Rightarrow> u64 option) \<Rightarrow> bool" where
  "vm_holds s xs root G \<longleftrightarrow> pm_holds s xs \<and> low_chunks (HigherHalfDirectMapOffset s) xs \<and> G [] = Some root
     \<and> space_ok (mem s) (HigherHalfDirectMapOffset s) (list_bytes 4096 xs) G"

definition vm_leaf :: "'a pm_state_scheme \<Rightarrow> u64 \<Rightarrow> u64 list \<Rightarrow> u64 \<Rightarrow> u64 option" where
  "vm_leaf s root = hw_leaf (mem s) (HigherHalfDirectMapOffset s) root"

text \<open>The bytes of the tables and the free memory, outside of which a step changes nothing.\<close>

definition vm_bytes :: "(u64 \<times> u64) list \<Rightarrow> (u64 list \<Rightarrow> u64 option) \<Rightarrow> nat set" where
  "vm_bytes xs G = list_bytes 4096 xs \<union> (\<Union>t \<in> ran G. page t)"

text \<open>A step makes tables at the paths \<open>D\<close>, where there are none: each costs one free page.\<close>

definition vm_step :: "u64 list set \<Rightarrow> 'a pm_state_scheme \<Rightarrow> (u64 \<times> u64) list \<Rightarrow> (u64 list \<Rightarrow> u64 option)
    \<Rightarrow> 'a pm_state_scheme \<Rightarrow> (u64 \<times> u64) list \<Rightarrow> (u64 list \<Rightarrow> u64 option) \<Rightarrow> bool" where
  "vm_step D s xs G s' xs' G' \<longleftrightarrow> finite D \<and> dom G' = dom G \<union> D \<and> free_pages xs = free_pages xs' + card (D - dom G) \<and> length xs' \<le> length xs
     \<and> pm_same s s' \<and> vm_bytes xs' G' \<subseteq> vm_bytes xs G \<and> (\<forall>x. unat x \<notin> vm_bytes xs G \<longrightarrow> mem s' x = mem s x)"

lemma pm_same_refl [simp]: "pm_same s s"
  by (simp add: pm_same_def)

lemma pm_same_trans: "pm_same s t \<Longrightarrow> pm_same t u \<Longrightarrow> pm_same s u"
  by (auto simp: pm_same_def usingLock_def)

lemma vm_step_refl: "finite D \<Longrightarrow> D \<subseteq> dom G \<Longrightarrow> vm_step D s xs G s xs G"
  by (auto simp: vm_step_def Diff_eq_empty_iff[THEN iffD2])

lemma card_Un_minus:
  assumes "finite A" and "finite B"
  shows "card (A \<union> B - C) = card (A - C) + card (B - (C \<union> A))"
proof -
  have "A \<union> B - C = (A - C) \<union> (B - (C \<union> A))" by blast
  then show ?thesis using assms by (simp add: card_Un_disjoint Int_def)
qed

lemma vm_step_trans: "vm_step D s xs G s1 xs1 G1 \<Longrightarrow> vm_step E s1 xs1 G1 s2 xs2 G2 \<Longrightarrow> vm_step (D \<union> E) s xs G s2 xs2 G2"
  unfolding vm_step_def by (auto intro: pm_same_trans simp: card_Un_minus)

lemma vm_step_budget:
  "vm_step D s xs G s1 xs1 G1 \<Longrightarrow> finite E \<Longrightarrow> card (D \<union> E - dom G) \<le> free_pages xs \<Longrightarrow> card (E - dom G1) \<le> free_pages xs1"
  by (simp add: vm_step_def card_Un_minus)

lemma pm_same_offset: "pm_same s s' \<Longrightarrow> HigherHalfDirectMapOffset s' = HigherHalfDirectMapOffset s"
  by (simp add: pm_same_def)

lemma ensure_table_vm:
  assumes vm: "vm_holds s xs root G" and p: "G p = Some t" "length p < 3" and i: "unat i < 512"
    and free: "card ({p @ [i]} - dom G) \<le> free_pages xs"
  shows "\<exists>s' xs' G' t'. ensure_table (t + 8 * i) s = Inr s' \<and> vm_holds s' xs' root G' \<and> G' (p @ [i]) = Some t'
    \<and> pe2v s' (load64 (mem s') (t + 8 * i)) = t' \<and> vm_step {p @ [i]} s xs G s' xs' G'
    \<and> (\<forall>is j. length is = 3 \<longrightarrow> indices is \<longrightarrow> unat j < 512 \<longrightarrow> vm_leaf s' root is j = vm_leaf s root is j)"
proof -
  let ?off = "HigherHalfDirectMapOffset s" and ?e = "t + 8 * i" and ?B = "list_bytes 4096 xs"
  have h: "pm_holds s xs" and low: "low_chunks ?off xs" and root: "G [] = Some root" and ok: "space_ok (mem s) ?off ?B G"
    using vm by (simp_all add: vm_holds_def)
  note t = space_okD[OF ok p(1)]
  have eo: "entry_ok ?off G p i (load64 (mem s) ?e)" using t(5)[OF i] .
  show ?thesis
  proof (cases "bit (load64 (mem s) ?e) 0")
    case True
    then have link: "table_link (load64 (mem s) ?e)" "G (p @ [i]) = Some (hw_frame (load64 (mem s) ?e) + ?off)"
      using eo p(2) by (auto simp: entry_ok_def)
    then have "pe2v s (load64 (mem s) ?e) = hw_frame (load64 (mem s) ?e) + ?off"
      using address_shifted_iff hw_frame_low by (simp add: table_link_def pe2v_def)
    moreover have "ensure_table ?e s = Inr s" using link(1) by (simp add: table_link_def ensure_table_present)
    moreover have "vm_step {p @ [i]} s xs G s xs G" using link(2) by (intro vm_step_refl) auto
    ultimately show ?thesis using vm link(2) by (intro exI[of _ s] exI[of _ xs] exI[of _ G]) auto
  next
    case False
    then have none: "G (p @ [i]) = None" and absent: "pte_get IsPresent (load64 (mem s) ?e) = 0"
      and res: "pte_get Reserved (load64 (mem s) ?e) = 0" using eo p(2) by (auto simp: entry_ok_def pte_get_bits)
    have wf: "wf_chunks 4096 xs" using h by (simp add: pm_holds_def)
    have one: "{p @ [i]} - dom G = {p @ [i]}" using none by auto
    have ne: "xs \<noteq> []" using free unfolding one by (intro free_pages_ne) simp
    have e: "unat x \<notin> ?B" if "inside ?e 8 x" for x using slot_in_page[OF t(2) i that] t(3) by blast
    obtain s' t1 where s': "ensure_table ?e s = Inr s'" "pm_holds s' (fit_rest 1 xs)" "pm_same s s'"
      "table_link (load64 (mem s') ?e)" "pe2v s' (load64 (mem s') ?e) = t1"
      "hw_frame (load64 (mem s') ?e) + ?off = t1" "unat t1 + 4096 \<le> 2 ^ 64" "page t1 \<subseteq> ?B"
      "list_bytes 4096 (fit_rest 1 xs) = ?B - page t1" "\<And>x. unat x \<in> page t1 \<Longrightarrow> mem s' x = 0"
      "\<And>x. unat x \<notin> ?B \<Longrightarrow> \<not> inside ?e 8 x \<Longrightarrow> mem s' x = mem s x"
      using ensure_table_fresh[OF h ne low refl e absent res] by metis
    note add = space_ok_add_table[OF ok p i none s'(7,8,10,4,6,11)]
    let ?G = "G(p @ [i] \<mapsto> t1)"
    have vm': "vm_holds s' (fit_rest 1 xs) root ?G"
      using s'(2) low_chunks_fit[OF wf low] root add(1) s'(9) pm_same_offset[OF s'(3)] by (simp add: vm_holds_def)
    have ran: "ran ?G = insert t1 (ran G)" using none by (rule ran_map_upd)
    have "mem s' x = mem s x" if "unat x \<notin> vm_bytes xs G" for x
      using that slot_in_page[OF t(2) i, of x] p(1) by (intro s'(11)) (auto simp: vm_bytes_def ran_def)
    then have "vm_step {p @ [i]} s xs G s' (fit_rest 1 xs) ?G"
      using free_pages_fit[OF wf ne] length_fit_rest[of 1 xs] s'(3,8,9) ran unfolding vm_step_def one by (auto simp: vm_bytes_def)
    moreover have "vm_leaf s' root is j = vm_leaf s root is j" if "length is = 3" "indices is" "unat j < 512" for "is" j
      unfolding vm_leaf_def pm_same_offset[OF s'(3)]
      by (rule hw_leaf_add_table[OF ok root add(1) p(2) none add(2,3) that])
    ultimately show ?thesis using s'(1,5) vm' by (intro exI[of _ s'] exI[of _ "fit_rest 1 xs"] exI[of _ ?G] exI[of _ t1]) simp
  qed
qed

section \<open>The entry at the end\<close>

definition frame_of :: "u64 \<Rightarrow> u64" where
  "frame_of pa = push_bit 12 (take_bit 28 (drop_bit 12 pa))"

lemma leaf_entry_vm:
  assumes vm: "vm_holds s xs root G" and p: "G p = Some t" "length p = 3" and i: "unat i < 512"
    and s': "s' = s\<lparr>mem := leaf_entry (t + 8 * i) pa (mem s)\<rparr>"
  shows "vm_holds s' xs root G" and "vm_step {} s xs G s' xs G"
    and "\<And>is j. length is = 3 \<Longrightarrow> indices is \<Longrightarrow> unat j < 512 \<Longrightarrow>
      vm_leaf s' root is j = (if is = p \<and> j = i then Some (frame_of pa) else vm_leaf s root is j)"
proof -
  let ?off = "HigherHalfDirectMapOffset s" and ?e = "t + 8 * i" and ?B = "list_bytes 4096 xs"
  have h: "pm_holds s xs" and low: "low_chunks ?off xs" and root: "G [] = Some root" and ok: "space_ok (mem s) ?off ?B G"
    using vm by (simp_all add: vm_holds_def)
  note t = space_okD[OF ok p(1)]
  have m: "mem s' = leaf_entry ?e pa (mem s)" "HigherHalfDirectMapOffset s' = ?off" by (simp_all add: s')
  have out: "mem s' x = mem s x" if "unat x \<notin> page t" for x
    using that slot_in_page[OF t(2) i, of x] leaf_entry_other[of ?e x pa "mem s"] by (auto simp: m)
  have same: "load64 (mem s') (u + 8 * j) = load64 (mem s) (u + 8 * j)"
    if q: "G q = Some u" "unat j < 512" "(q, j) \<noteq> (p, i)" for q u j
  proof (cases "q = p")
    case True
    then have "apart ?e 8 (u + 8 * j) 8" using slots_apart[OF i q(2), of t] q p(1) by auto
    then have "\<not> inside ?e 8 x" if "inside (u + 8 * j) 8 x" for x using apart_inside[of "u + 8 * j" 8 ?e 8 x] apart_sym that by blast
    then show ?thesis by (intro load64_cong) (simp add: m leaf_entry_other)
  next
    case False
    then show ?thesis using slot_in_page[OF space_okD(2)[OF ok q(1)] q(2)] space_okD(4)[OF ok q(1) p(1)]
      by (intro load64_cong out) blast
  qed
  have "pte_get Reserved (load64 (mem s) ?e) = 0" using t(5)[OF i] by (simp add: entry_ok_def)
  then have raw: "pte_get Reserved (load64 (mem s') ?e) = 0" "bit (load64 (mem s') ?e) 0" "hw_frame (load64 (mem s') ?e) = frame_of pa"
    "bit (load64 (mem s') ?e) 1" "bit (load64 (mem s') ?e) 2"
    using hw_frame_low[of "load64 (mem s') ?e"] pte_get_bits(1,3,4)[of "load64 (mem s') ?e"]
    by (simp_all add: m leaf_entry_members frame_of_def)
  have "entry_ok ?off G q j (load64 (mem s') (u + 8 * j))" if "G q = Some u" "unat j < 512" for q u j
    using same[OF that] space_okD(5)[OF ok that] raw(1,4,5) p that by (cases "(q, j) = (p, i)") (auto simp: entry_ok_def)
  then have ok': "space_ok (mem s') ?off ?B G" using ok unfolding space_ok_def by blast
  have "pm_holds (s\<lparr>mem := mem s'\<rparr>) xs" using out t(3) by (intro pm_holds_frame[OF h]) blast
  then have "pm_holds s' xs" by (simp add: s')
  then show "vm_holds s' xs root G" using low root ok' m(2) by (simp add: vm_holds_def)
  show "vm_step {} s xs G s' xs G" using out p(1) by (auto simp: vm_step_def vm_bytes_def s' pm_same_def ran_def)
  fix "is" and j :: u64 assume is3: "length is = 3" "indices is" and j: "unat j < 512"
  note leafs = hw_leaf_tree[OF ok' root is3, of j] hw_leaf_tree[OF ok root is3, of j]
  show "vm_leaf s' root is j = (if is = p \<and> j = i then Some (frame_of pa) else vm_leaf s root is j)"
  proof (cases "is = p \<and> j = i")
    case True
    then show ?thesis using leafs(1) p(1) raw by (simp add: vm_leaf_def m(2))
  next
    case False
    then show ?thesis using leafs same[of "is" _ j] j by (auto simp: vm_leaf_def m(2) split: option.split)
  qed
qed

section \<open>All levels\<close>

text \<open>The paths of the tables below path \<open>p\<close> on the way through \<open>is\<close>.\<close>

fun tables :: "u64 list \<Rightarrow> u64 list \<Rightarrow> u64 list set" where
  "tables p [] = {}"
| "tables p (i # is) = insert (p @ [i]) (tables (p @ [i]) is)"

lemma finite_tables [simp]: "finite (tables p is)"
  by (induction "is" arbitrary: p) simp_all

lemma descend_vm:
  assumes "vm_holds s xs root G" and "G p = Some t" and "length p + length is = 3" and "\<forall>i \<in> set is. unat i < 512"
    and "card (tables p (map ucast is) - dom G) \<le> free_pages xs"
  shows "\<exists>t' s' xs' G'. descend t is s = Inr (t', s') \<and> vm_holds s' xs' root G' \<and> G' (p @ map ucast is) = Some t'
    \<and> vm_step (tables p (map ucast is)) s xs G s' xs' G'
    \<and> (\<forall>is j. length is = 3 \<longrightarrow> indices is \<longrightarrow> unat j < 512 \<longrightarrow> vm_leaf s' root is j = vm_leaf s root is j)"
  using assms
proof (induction "is" arbitrary: p t s xs G)
  case Nil
  then show ?case by (intro exI[of _ t] exI[of _ s] exI[of _ xs] exI[of _ G]) (simp add: vm_step_refl)
next
  case (Cons i js)
  let ?i = "ucast i :: u64"
  have i: "unat ?i < 512" using Cons.prems(4) by simp
  have e: "entry_at t i = t + 8 * ?i" by (simp add: entry_at_def)
  have "card ({p @ [?i]} - dom G) \<le> card (tables p (map ucast (i # js)) - dom G)" by (intro card_mono) auto
  then have one: "card ({p @ [?i]} - dom G) \<le> free_pages xs" using Cons.prems(5) by linarith
  obtain s1 xs1 G1 t1 where s1: "ensure_table (t + 8 * ?i) s = Inr s1" "vm_holds s1 xs1 root G1" "G1 (p @ [?i]) = Some t1"
    "pe2v s1 (load64 (mem s1) (t + 8 * ?i)) = t1" "vm_step {p @ [?i]} s xs G s1 xs1 G1"
    "\<forall>is j. length is = 3 \<longrightarrow> indices is \<longrightarrow> unat j < 512 \<longrightarrow> vm_leaf s1 root is j = vm_leaf s root is j"
    using ensure_table_vm[OF Cons.prems(1,2) _ i] Cons.prems(3) one by auto
  have "card (tables (p @ [?i]) (map ucast js) - dom G1) \<le> free_pages xs1"
    using Cons.prems(5) by (intro vm_step_budget[OF s1(5)]) simp_all
  then obtain t' s' xs' G' where s': "descend t1 js s1 = Inr (t', s')" "vm_holds s' xs' root G'" "G' ((p @ [?i]) @ map ucast js) = Some t'"
    "vm_step (tables (p @ [?i]) (map ucast js)) s1 xs1 G1 s' xs' G'"
    "\<forall>is j. length is = 3 \<longrightarrow> indices is \<longrightarrow> unat j < 512 \<longrightarrow> vm_leaf s' root is j = vm_leaf s1 root is j"
    using Cons.IH[OF s1(2,3)] Cons.prems(3,4) by auto
  then show ?case
    using s1(1,4,6) vm_step_trans[OF s1(5) s'(4)]
    by (intro exI[of _ t'] exI[of _ s'] exI[of _ xs'] exI[of _ G']) (simp add: e)
qed

section \<open>Mapping a page\<close>

definition vm_translate :: "'a pm_state_scheme \<Rightarrow> u64 \<Rightarrow> u64 \<Rightarrow> u64 option" where
  "vm_translate s root va = hw_translate (mem s) (HigherHalfDirectMapOffset s) root va"

text \<open>Two addresses are in one page when they agree in bits 12 to 47.\<close>

definition same_page :: "u64 \<Rightarrow> u64 \<Rightarrow> bool" where
  "same_page va va' \<longleftrightarrow> take_bit 36 (drop_bit 12 va) = take_bit 36 (drop_bit 12 va')"

lemma hw_index_less: "unat (hw_index sh va) < 512"
  using take_bit_nat_less_exp[of 9 "unat (drop_bit sh va)"] by (simp add: hw_index_def unsigned_take_bit_eq)

lemma level_index_hw:
  assumes "1 \<le> k" and "k \<le> 4"
  shows "ucast (level_index k (drop_bit 12 (va AND 0xFFFFFFFFFFFF))) = hw_index (12 + 9 * (k - 1)) va"
proof -
  have m: "(0xFFFFFFFFFFFF :: u64) = mask 48" by (simp add: mask_eq_exp_minus_1)
  show ?thesis
    unfolding level_index_def hw_index_def and_mask_take_bit m
    by (rule bit_word_eqI) (use assms in \<open>auto simp: bit_simps ac_simps\<close>)
qed

lemma same_page_indices:
  "same_page va va' \<longleftrightarrow> hw_index 39 va = hw_index 39 va' \<and> hw_index 30 va = hw_index 30 va'
     \<and> hw_index 21 va = hw_index 21 va' \<and> hw_index 12 va = hw_index 12 va'"
proof -
  have bb: "(\<forall>n < 64. (n < k \<and> P n) = (n < k \<and> Q n)) \<longleftrightarrow> (\<forall>n < k. P n = Q n)" if "k \<le> (64 :: nat)" for k P Q
    using that by (meson order.strict_trans2)
  have i: "hw_index sh va = hw_index sh va' \<longleftrightarrow> (\<forall>n < 9. bit va (sh + n) = bit va' (sh + n))" for sh
    using bb[of 9] by (simp add: hw_index_def bit_eq_iff bit_simps)
  have "same_page va va' \<longleftrightarrow> (\<forall>n < 36. bit va (12 + n) = bit va' (12 + n))"
    using bb[of 36] by (simp add: same_page_def bit_eq_iff bit_simps)
  also have "\<dots> \<longleftrightarrow> (\<forall>j < 4. hw_index (12 + 9 * j) va = hw_index (12 + 9 * j) va')"
    unfolding i
  proof (rule iffI; intro allI impI)
    fix j n :: nat assume "\<forall>n < 36. bit va (12 + n) = bit va' (12 + n)" "j < 4" "n < 9"
    then have "bit va (12 + (9 * j + n)) = bit va' (12 + (9 * j + n))" by simp
    then show "bit va (12 + 9 * j + n) = bit va' (12 + 9 * j + n)" by (simp only: add.assoc)
  next
    fix n :: nat assume a: "\<forall>j < 4. \<forall>n < 9. bit va (12 + 9 * j + n) = bit va' (12 + 9 * j + n)" "n < 36"
    have eq: "12 + 9 * (n div 9) + n mod 9 = 12 + n" using mult_div_mod_eq[of 9 n] by simp
    have "n div 9 < 4" "n mod 9 < 9" using a(2) by auto
    then show "bit va (12 + n) = bit va' (12 + n)" using a(1) unfolding eq[symmetric] by blast
  qed
  also have "\<dots> \<longleftrightarrow> hw_index 12 va = hw_index 12 va' \<and> hw_index 21 va = hw_index 21 va' \<and> hw_index 30 va = hw_index 30 va'
      \<and> hw_index 39 va = hw_index 39 va'"
    by (auto simp: numeral_eq_Suc All_less_Suc)
  finally show ?thesis by blast
qed

text \<open>The tables that the translation of an address uses, below the root.\<close>

definition table_paths :: "u64 \<Rightarrow> u64 list set" where
  "table_paths va = tables [] [hw_index 39 va, hw_index 30 va, hw_index 21 va]"

text \<open>What it is to map a page, on the function from virtual to physical addresses.\<close>

definition vm_map :: "u64 \<Rightarrow> u64 \<Rightarrow> (u64 \<Rightarrow> u64 option) \<Rightarrow> u64 \<Rightarrow> u64 option" where
  "vm_map va pa f = (\<lambda>va'. if same_page va' va then Some (frame_of pa + take_bit 12 va') else f va')"

lemma map_page_vm:
  assumes vm: "vm_holds s xs root G" and free: "card (table_paths va - dom G) \<le> free_pages xs"
  shows "\<exists>s' xs' G'. map_page root va pa s = Inr s' \<and> vm_holds s' xs' root G' \<and> vm_step (table_paths va) s xs G s' xs' G'
    \<and> vm_translate s' root = vm_map va pa (vm_translate s root)"
proof -
  define p where "p = drop_bit 12 (va AND 0xFFFFFFFFFFFF)"
  let ?is = "[level_index 4 p, level_index 3 p, level_index 2 p]" and ?js = "[hw_index 39 va, hw_index 30 va, hw_index 21 va]"
  have js: "map ucast ?is = ?js" using level_index_hw[of 4 va, folded p_def] level_index_hw[of 3 va, folded p_def] level_index_hw[of 2 va, folded p_def] by simp
  have root: "G [] = Some root" using vm by (simp add: vm_holds_def)
  have len: "length ?is = 3" by simp
  have less: "\<forall>i \<in> set ?is. unat i < 512" using level_index_less by simp
  obtain t s1 xs1 G1 where d: "descend root ?is s = Inr (t, s1)" "vm_holds s1 xs1 root G1" "G1 ?js = Some t"
    "vm_step (table_paths va) s xs G s1 xs1 G1"
    "\<forall>is j. length is = 3 \<longrightarrow> indices is \<longrightarrow> unat j < 512 \<longrightarrow> vm_leaf s1 root is j = vm_leaf s root is j"
    using descend_vm[OF vm root _ less, unfolded len append_Nil js, folded table_paths_def, OF _ free] by auto
  let ?e = "t + 8 * hw_index 12 va" and ?s' = "s1\<lparr>mem := leaf_entry (t + 8 * hw_index 12 va) pa (mem s1)\<rparr>"
  have js3: "length ?js = 3" by simp
  note leaf = leaf_entry_vm[OF d(2,3) js3 hw_index_less[of 12 va] refl[of ?s']]
  have "entry_at t (level_index 1 p) = ?e" using level_index_hw[of 1 va, folded p_def] by (simp add: entry_at_def)
  then have "map_page root va pa s = Inr ?s'" using d(1) unfolding map_page_descend p_def[symmetric] Let_def
    by (simp del: descend.simps)
  moreover have "vm_step (table_paths va) s xs G ?s' xs1 G1" using vm_step_trans[OF d(4) leaf(2)] by simp
  moreover have "vm_translate ?s' root = vm_map va pa (vm_translate s root)"
    unfolding vm_map_def
  proof
    fix va'
    have "indices [hw_index 39 va', hw_index 30 va', hw_index 21 va']" by (simp add: indices_def hw_index_less)
    then show "vm_translate ?s' root va' = (if same_page va' va then Some (frame_of pa + take_bit 12 va') else vm_translate s root va')"
      using leaf(3)[of "[hw_index 39 va', hw_index 30 va', hw_index 21 va']" "hw_index 12 va'"] hw_index_less d(5)
        pm_same_offset[of s ?s']
      unfolding vm_translate_def hw_translate_def same_page_indices vm_leaf_def by auto
  qed
  ultimately show ?thesis using leaf(1) by blast
qed

text \<open>The rights to a page: user mode may write to every address that translates.\<close>

definition vm_user_writes :: "'a pm_state_scheme \<Rightarrow> u64 \<Rightarrow> u64 \<Rightarrow> bool" where
  "vm_user_writes s root va = hw_user_writes (mem s) (HigherHalfDirectMapOffset s) root va"

lemma mapped_user_writes:
  assumes "vm_holds s xs root G" and "vm_translate s root va \<noteq> None"
  shows "vm_user_writes s root va"
proof -
  let ?is = "[hw_index 39 va, hw_index 30 va, hw_index 21 va]"
  have ok: "space_ok (mem s) (HigherHalfDirectMapOffset s) (list_bytes 4096 xs) G" "G [] = Some root" using assms(1) by (simp_all add: vm_holds_def)
  have "hw_leaf (mem s) (HigherHalfDirectMapOffset s) root ?is (hw_index 12 va) \<noteq> None"
    using assms(2) by (simp add: vm_translate_def hw_translate_def)
  then have "hw_allows b (mem s) (HigherHalfDirectMapOffset s) root (?is @ [hw_index 12 va])" if "b \<in> {1, 2}" for b
    using that by (intro hw_allows_tree[OF ok]) (simp_all add: indices_def hw_index_less)
  from this[of 1] this[of 2] show ?thesis by (simp add: vm_user_writes_def hw_user_writes_def Let_def del: hw_allows.simps)
qed

lemma space_ok_root:
  assumes "unat root + 4096 \<le> 2 ^ 64" and "page root \<inter> B = {}" and "\<And>x. unat x \<in> page root \<Longrightarrow> m x = 0"
  shows "space_ok m off B [[] \<mapsto> root]"
proof -
  have "load64 m (root + 8 * i) = 0" if "unat i < 512" for i
  proof -
    have "load_le 8 m (root + 8 * i) = 0" by (rule load_le_zeros) (use assms(3) slot_in_page[OF assms(1) that] in auto)
    then show ?thesis by (simp add: load64_def)
  qed
  then show ?thesis using assms(1,2) by (auto simp: space_ok_def entry_ok_def split: if_splits)
qed

lemma sample_pages_vm: "vm_holds sample_pages [(0x8000, 4)] 0x2000 [[] \<mapsto> 0x2000]"
proof -
  have "mem sample_pages x = 0" if "unat x \<in> page 0x2000" for x
    using that by (simp add: sample_pages_def set_count_def page_def inside_nat frame_simps)
  then show ?thesis
    using sample_pages_holds
    by (auto intro!: space_ok_root exI[of _ 8] simp: vm_holds_def low_chunks_def sample_pages_def page_def list_bytes_def chunk_bytes_def chunk_end_def)
qed

text \<open>
  C7. Mapping a page refines the update of a function. When the page tables are a well-formed
  tree of tables below two gigabytes and the free list has a page for every table that is missing on the way, \<^verbatim>\<open>map\<close> returns, the tables
  are a well-formed tree again, it made exactly the missing tables, wrote nothing outside of the tables
  and the memory that was free, and the processor's translation of every address is what it was, but for the addresses of
  the mapped page, which now translate to the frame at the same offset.
\<close>

theorem map_page_refines:
  assumes "vm_holds s xs root G" and "card (table_paths va - dom G) \<le> free_pages xs"
  shows "\<exists>s' xs' G'. map_page root va pa s = Inr s' \<and> vm_holds s' xs' root G' \<and> vm_step (table_paths va) s xs G s' xs' G'
    \<and> vm_translate s' root = vm_map va pa (vm_translate s root)"
  using assms by (rule map_page_vm)

theorem map_page_refines_witness:
  "\<exists>s'. map_page 0x2000 0xFFFF800000005000 0x5000 sample_pages = Inr s'
     \<and> vm_translate s' 0x2000 0xFFFF800000005678 = Some 0x5678"
proof -
  let ?va = "0xFFFF800000005000 :: u64"
  have "card (table_paths ?va - dom [[] \<mapsto> 0x2000 :: u64]) \<le> free_pages [(0x8000, 4)]"
    by (simp add: table_paths_def free_pages_def card_insert_if)
  from map_page_refines[OF sample_pages_vm this, where pa = "0x5000"] obtain s' where
    s': "map_page 0x2000 ?va 0x5000 sample_pages = Inr s'" "vm_translate s' 0x2000 = vm_map ?va 0x5000 (vm_translate sample_pages 0x2000)"
    by auto
  have "same_page 0xFFFF800000005678 ?va" "frame_of 0x5000 + take_bit 12 0xFFFF800000005678 = 0x5678"
    unfolding same_page_def frame_of_def by code_simp+
  then show ?thesis using s' by (simp add: vm_map_def)
qed

end
