(* ===== verification/Boot_Protocol.thy ===== *)
theory Boot_Protocol
  imports Trap_Gates
begin

text \<open>
  What the boot loader tells the kernel (the structures of \<^verbatim>\<open>src/Kernel/Limine/limine.h\<close> that
  \<^verbatim>\<open>src/Kernel/KernelMain.cpp\<close> requests), and the state of the whole kernel. A response is absent when its
  pointer is null; an array and its count are one list.
\<close>

record limine_memmap_entry =
  me_base :: u64
  me_length :: u64
  me_type :: u64

definition LIMINE_MEMMAP_USABLE :: u64 where "LIMINE_MEMMAP_USABLE = 0"

record limine_kernel_address_response =
  physical_base :: u64
  virtual_base :: u64

record limine_smp_info =
  processor_id :: u32
  lapic_id :: u32
  goto_address :: u64
  extra_argument :: u64

record limine_smp_response =
  bsp_lapic_id :: u32
  cpus :: "limine_smp_info list"

record limine_requests =
  memmap_response :: "limine_memmap_entry list option"
  hhdm_response :: "u64 option"
  kernel_address_response :: "limine_kernel_address_response option"
  smp_response :: "limine_smp_response option"

text \<open>The addresses that the linker script provides.\<close>

record boot_symbols =
  KernelStart :: u64
  KernelEnd :: u64
  OtherProcessorMain_addr :: u64

text \<open>\<open>CPUs_addr\<close> is the pointer \<^verbatim>\<open>CPUs\<close>, \<open>installed\<close> the operands of the segment loads that were made last.\<close>

record boot_state = trap_state +
  requests :: limine_requests
  CPUs_addr :: u64
  installed :: "gdt_install option"

text \<open>What the page allocator leaves alone.\<close>

lemma pm_same_boot:
  assumes "pm_same s s'"
  shows "KernelPageTable s' = KernelPageTable s" "cr3 s' = cr3 s" "requests s' = requests s" "CPUs_addr s' = CPUs_addr s"
    "installed s' = installed s"
  using assms by (cases s; cases s'; simp add: pm_same_def)+

end
