(* ===== verification/Kernel_Space.thy ===== *)
theory Kernel_Space
  imports Address_Space Boot_Protocol
begin

text \<open>
  The address space of the kernel: \<^verbatim>\<open>initializeVirtualMemory\<close> of \<^verbatim>\<open>src/Kernel/KernelMain.cpp\<close>. A locale states
  what a step on the page tables promises and proves once what a run of such steps does;
  mapping a page and making the table of a root entry are its instances. The lemmas show what the
  processor translates after the three loops, and how many tables they make.
\<close>

section \<open>Loops over pages\<close>

text \<open>\<^verbatim>\<open>for (auto i = first; i < stop; i += PageSize)\<close>; the addition wraps, so the loop may run forever.\<close>

partial_function (option) page_loop :: "(u64 \<Rightarrow> 's \<Rightarrow> 's outcome) \<Rightarrow> u64 \<Rightarrow> u64 \<Rightarrow> 's \<Rightarrow> 's outcome option" where
  "page_loop body stop i s =
     (if i < stop then (case body i s of Inl e \<Rightarrow> Some (Inl e) | Inr s1 \<Rightarrow> page_loop body stop (i + PageSize) s1)
      else Some (Inr s))"

definition for_pages :: "u64 \<Rightarrow> u64 \<Rightarrow> (u64 \<Rightarrow> 's \<Rightarrow> 's outcome) \<Rightarrow> 's \<Rightarrow> 's outcome" where
  "for_pages first stop body s = (case page_loop body stop first s of None \<Rightarrow> Inl Diverges | Some r \<Rightarrow> r)"

fun for_each :: "'i list \<Rightarrow> ('i \<Rightarrow> 's \<Rightarrow> 's outcome) \<Rightarrow> 's \<Rightarrow> 's outcome" where
  "for_each [] body s = Inr s"
| "for_each (i # is) body s = obind (body i s) (for_each is body)"

lemma for_each_cong: "(\<And>i. i \<in> set is \<Longrightarrow> f i = g i) \<Longrightarrow> for_each is f s = for_each is g s"
proof (induction "is" arbitrary: s)
  case (Cons i "is")
  then show ?case by (cases "g i s") simp_all
qed simp

definition page_count :: "u64 \<Rightarrow> u64 \<Rightarrow> nat" where
  "page_count first stop = (unat stop - unat first + 4095) div 4096"

definition page_list :: "u64 \<Rightarrow> u64 \<Rightarrow> u64 list" where
  "page_list first stop = map (\<lambda>k. first + of_nat (4096 * k)) [0 ..< page_count first stop]"

lemma page_list_rec:
  assumes "unat stop + 4096 \<le> 2 ^ 64"
  shows "page_list i stop = (if i < stop then i # page_list (i + 4096) stop else [])"
proof (cases "i < stop")
  case True
  then have lt: "unat i < unat stop" by (simp add: word_less_nat_alt)
  then have u: "unat (i + 4096) = unat i + 4096" using assms by (subst unat_add_lem[THEN iffD1]) simp_all
  have "page_count i stop = Suc (page_count (i + 4096) stop)"
    using lt unfolding page_count_def u
    by (cases "unat i + 4096 \<le> unat stop") (simp_all add: le_div_geq)
  then show ?thesis using True by (simp add: page_list_def upt_conv_Cons map_Suc_upt[symmetric] del: upt_Suc map_Suc_upt)
next
  case False
  then show ?thesis by (simp add: page_list_def page_count_def word_less_nat_alt not_less)
qed

lemma page_loop_list:
  assumes stop: "unat stop + 4096 \<le> 2 ^ 64"
  shows "page_loop body stop i s = Some (for_each (page_list i stop) body s)"
proof (induction "page_count i stop" arbitrary: i s rule: less_induct)
  case less
  show ?case
  proof (cases "i < stop")
    case True
    then have pl: "page_list i stop = i # page_list (i + 4096) stop" using page_list_rec[OF stop, of i] by simp
    then have "page_count (i + 4096) stop < page_count i stop" by (metis length_map length_upt minus_nat.diff_0 page_list_def length_Cons lessI)
    then show ?thesis using less True pl by (subst page_loop.simps) (simp split: sum.split)
  next
    case False
    then show ?thesis using page_list_rec[OF stop, of i] by (subst page_loop.simps) simp
  qed
qed

lemma for_pages_list:
  "unat stop + 4096 \<le> 2 ^ 64 \<Longrightarrow> for_pages first stop body s = for_each (page_list first stop) body s"
  by (simp add: for_pages_def page_loop_list)

section \<open>Runs of steps\<close>

text \<open>
  \<open>ready s M D\<close>: the tables \<open>M\<close> are there, and there are free pages for the tables \<open>D\<close>. A step makes the
  tables that it needs and has a known effect on the translation.
\<close>

locale table_steps =
  fixes ready :: "'s \<Rightarrow> 't set \<Rightarrow> 't set \<Rightarrow> bool"
    and trans :: "'s \<Rightarrow> u64 \<Rightarrow> u64 option"
    and step :: "'i \<Rightarrow> 's \<Rightarrow> 's outcome"
    and needs :: "'i \<Rightarrow> 't set"
    and effect :: "'i \<Rightarrow> (u64 \<Rightarrow> u64 option) \<Rightarrow> u64 \<Rightarrow> u64 option"
  assumes step_ok: "ready s M (needs i \<union> D) \<Longrightarrow>
    \<exists>s'. step i s = Inr s' \<and> ready s' (M \<union> needs i) D \<and> trans s' = effect i (trans s)"
begin

lemma steps_ok:
  assumes "ready s M (\<Union> (needs ` set is) \<union> D)"
  shows "\<exists>s'. for_each is step s = Inr s' \<and> ready s' (M \<union> \<Union> (needs ` set is)) D \<and> trans s' = fold effect is (trans s)"
  using assms
proof (induction "is" arbitrary: s M)
  case (Cons i "is")
  have "needs i \<union> (\<Union> (needs ` set is) \<union> D) = \<Union> (needs ` set (i # is)) \<union> D" by auto
  then obtain s1 where s1: "step i s = Inr s1" "ready s1 (M \<union> needs i) (\<Union> (needs ` set is) \<union> D)" "trans s1 = effect i (trans s)"
    using step_ok[of s M i "\<Union> (needs ` set is) \<union> D"] Cons.prems by auto
  then show ?case using Cons.IH[OF s1(2)] by (auto simp: Un_assoc)
qed simp


end

text \<open>
  The state while tables are built: everything since \<open>s0\<close> happened in the bytes \<open>B\<close>, and the free list has at most \<open>k\<close> chunks.
\<close>

definition vm_ready :: "u64 \<Rightarrow> 'a pm_state_scheme \<Rightarrow> nat set \<Rightarrow> nat \<Rightarrow> 'a pm_state_scheme \<Rightarrow> u64 list set \<Rightarrow> u64 list set \<Rightarrow> bool" where
  "vm_ready rt s0 B k s M D \<longleftrightarrow> finite D \<and> pm_same s0 s \<and> (\<forall>x. unat x \<notin> B \<longrightarrow> mem s x = mem s0 x)
     \<and> (\<exists>xs G. vm_holds s xs rt G \<and> M \<subseteq> dom G \<and> card (D - dom G) \<le> free_pages xs \<and> length xs \<le> k \<and> vm_bytes xs G \<subseteq> B)"

lemma vm_ready_step:
  assumes "vm_ready rt s0 B k s M (E \<union> D)"
    and step: "\<And>xs G. vm_holds s xs rt G \<Longrightarrow> card (E - dom G) \<le> free_pages xs \<Longrightarrow>
      \<exists>s' xs' G'. f s = Inr s' \<and> vm_holds s' xs' rt G' \<and> vm_step E s xs G s' xs' G' \<and> Q s'"
  shows "\<exists>s'. f s = Inr s' \<and> vm_ready rt s0 B k s' (M \<union> E) D \<and> Q s'"
proof -
  obtain xs G where g: "vm_holds s xs rt G" "M \<subseteq> dom G" "card (E \<union> D - dom G) \<le> free_pages xs" "vm_bytes xs G \<subseteq> B" "length xs \<le> k"
    and fin: "finite E" "finite D" and s0: "pm_same s0 s" "\<And>x. unat x \<notin> B \<Longrightarrow> mem s x = mem s0 x"
    using assms(1) by (auto simp: vm_ready_def)
  have "card (E - dom G) \<le> card (E \<union> D - dom G)" using fin by (intro card_mono) auto
  then obtain s' xs' G' where s': "f s = Inr s'" "vm_holds s' xs' rt G'" "vm_step E s xs G s' xs' G'" "Q s'"
    using step[OF g(1)] g(3) by fastforce
  then have "vm_ready rt s0 B k s' (M \<union> E) D"
    using g fin s0 vm_step_budget[OF s'(3) fin(2) g(3)] unfolding vm_ready_def
    by (intro conjI exI[of _ xs'] exI[of _ G'] allI impI) (auto simp: vm_step_def intro: pm_same_trans)
  then show ?thesis using s' by blast
qed

text \<open>Making the table of a root entry changes no translation.\<close>

lemma ensure_root_vm:
  assumes vm: "vm_holds s xs rt G" and i: "i < 512" and free: "card ({[of_nat i]} - dom G) \<le> free_pages xs"
  shows "\<exists>s' xs' G'. ensure_table (entry_at rt (of_nat i)) s = Inr s' \<and> vm_holds s' xs' rt G'
    \<and> vm_step {[of_nat i]} s xs G s' xs' G' \<and> vm_translate s' rt = vm_translate s rt"
proof -
  have u: "unat (of_nat i :: u64) < 512" using i by (simp add: unat_of_nat take_bit_nat_eq_self)
  have e: "entry_at rt (of_nat i) = rt + 8 * of_nat i" using index_entry[OF u, of rt] by simp
  have "G [] = Some rt" using vm by (simp add: vm_holds_def)
  then obtain s' xs' G' where s': "ensure_table (rt + 8 * of_nat i) s = Inr s'" "vm_holds s' xs' rt G'"
    "vm_step {[of_nat i]} s xs G s' xs' G'"
    "\<forall>is j. length is = 3 \<longrightarrow> indices is \<longrightarrow> unat j < 512 \<longrightarrow> vm_leaf s' rt is j = vm_leaf s rt is j"
    using ensure_table_vm[OF vm, of "[]" rt "of_nat i"] u free by auto
  have "vm_translate s' rt va = vm_translate s rt va" for va
    using s'(4)[rule_format, of "[hw_index 39 va, hw_index 30 va, hw_index 21 va]" "hw_index 12 va"] hw_index_less
    unfolding vm_translate_def hw_translate_def vm_leaf_def by (simp add: indices_def)
  then show ?thesis using s'(1-3) unfolding e by blast
qed

section \<open>Initialisation\<close>

text \<open>The bodies of the three loops.\<close>

definition direct_body :: "u64 \<Rightarrow> 'a boot_state_scheme \<Rightarrow> 'a boot_state_scheme outcome" where
  "direct_body i s = map_page (KernelPageTable s) (i + HigherHalfDirectMapOffset s) i s"

definition kernel_body :: "u64 \<Rightarrow> 'a boot_state_scheme \<Rightarrow> 'a boot_state_scheme outcome" where
  "kernel_body i s =
     (case kernel_address_response (requests s) of
        None \<Rightarrow> Inl NullDeref
      | Some resp \<Rightarrow> map_page (KernelPageTable s) i (physical_base resp + (i - virtual_base resp)) s)"

definition preallocate_body :: "nat \<Rightarrow> 'a boot_state_scheme \<Rightarrow> 'a boot_state_scheme outcome" where
  "preallocate_body i s = ensure_table (entry_at (KernelPageTable s) (of_nat i)) s"

definition initializeVirtualMemory :: "boot_symbols \<Rightarrow> u64 \<Rightarrow> 'a boot_state_scheme \<Rightarrow> 'a boot_state_scheme outcome" where
  "initializeVirtualMemory sy maxPhysicalMemory s =
     obind (allocateRootPageTable s) (\<lambda>(t, s1).
       let s2 = s1\<lparr>KernelPageTable := t\<rparr>
       in obind (for_pages 0 maxPhysicalMemory direct_body s2) (\<lambda>s3.
          obind (for_pages (KernelStart sy) (KernelEnd sy) kernel_body s3) (\<lambda>s4.
          obind (for_each [256 ..< 512] preallocate_body s4) (\<lambda>s5.
            Inr (s5\<lparr>cr3 := toPhysical s5 (KernelPageTable s5)\<rparr>)))))"

text \<open>The bodies as steps on the tables, from the state \<open>s0\<close> in which the root is set.\<close>

lemma vm_ready_same: "vm_ready rt s0 B k s M D \<Longrightarrow> pm_same s0 s"
  by (simp add: vm_ready_def)

interpretation direct: table_steps "vm_ready (KernelPageTable s0) s0 B k" "\<lambda>s. vm_translate s (KernelPageTable s0)" direct_body
    "\<lambda>i. table_paths (i + HigherHalfDirectMapOffset s0)" "\<lambda>i. vm_map (i + HigherHalfDirectMapOffset s0) i" for s0 B
proof
  fix s M i D assume r: "vm_ready (KernelPageTable s0) s0 B k s M (table_paths (i + HigherHalfDirectMapOffset s0) \<union> D)"
  note same = pm_same_boot[OF vm_ready_same[OF r]] pm_same_offset[OF vm_ready_same[OF r]]
  show "\<exists>s'. direct_body i s = Inr s' \<and> vm_ready (KernelPageTable s0) s0 B k s' (M \<union> table_paths (i + HigherHalfDirectMapOffset s0)) D
      \<and> vm_translate s' (KernelPageTable s0) = vm_map (i + HigherHalfDirectMapOffset s0) i (vm_translate s (KernelPageTable s0))"
    unfolding direct_body_def same using r by (rule vm_ready_step) (use map_page_vm in blast)
qed

definition kernel_frame :: "'a boot_state_scheme \<Rightarrow> u64 \<Rightarrow> u64" where
  "kernel_frame s i = (case kernel_address_response (requests s) of None \<Rightarrow> 0 | Some resp \<Rightarrow> physical_base resp + (i - virtual_base resp))"

interpretation kernel: table_steps
    "\<lambda>s M D. kernel_address_response (requests s0) \<noteq> None \<and> vm_ready (KernelPageTable s0) s0 B k s M D" "\<lambda>s. vm_translate s (KernelPageTable s0)" kernel_body
    table_paths "\<lambda>i. vm_map i (kernel_frame s0 i)" for s0 B
proof
  fix s M i D assume a: "kernel_address_response (requests s0) \<noteq> None \<and> vm_ready (KernelPageTable s0) s0 B k s M (table_paths i \<union> D)"
  then have r: "vm_ready (KernelPageTable s0) s0 B k s M (table_paths i \<union> D)" by simp
  obtain resp where resp: "kernel_address_response (requests s0) = Some resp" using a by blast
  note same = pm_same_boot[OF vm_ready_same[OF r]]
  have "\<exists>s'. kernel_body i s = Inr s' \<and> vm_ready (KernelPageTable s0) s0 B k s' (M \<union> table_paths i) D
      \<and> vm_translate s' (KernelPageTable s0) = vm_map i (kernel_frame s0 i) (vm_translate s (KernelPageTable s0))"
    unfolding kernel_body_def same resp kernel_frame_def option.case using r by (rule vm_ready_step) (use map_page_vm in blast)
  then show "\<exists>s'. kernel_body i s = Inr s' \<and> (kernel_address_response (requests s0) \<noteq> None
      \<and> vm_ready (KernelPageTable s0) s0 B k s' (M \<union> table_paths i) D)
      \<and> vm_translate s' (KernelPageTable s0) = vm_map i (kernel_frame s0 i) (vm_translate s (KernelPageTable s0))"
    using a by blast
qed

text \<open>A root table has 512 entries.\<close>

interpretation preallocate: table_steps "vm_ready (KernelPageTable s0) s0 B k" "\<lambda>s. vm_translate s (KernelPageTable s0)"
    "\<lambda>i s. if i < 512 then preallocate_body i s else Inr s" "\<lambda>i. if i < 512 then {[of_nat i]} else {}" "\<lambda>_ f. f" for s0 B
proof
  fix s M D and i :: nat assume r: "vm_ready (KernelPageTable s0) s0 B k s M ((if i < 512 then {[of_nat i]} else {}) \<union> D)"
  show "\<exists>s'. (if i < 512 then preallocate_body i s else Inr s) = Inr s'
      \<and> vm_ready (KernelPageTable s0) s0 B k s' (M \<union> (if i < 512 then {[of_nat i]} else {})) D
      \<and> vm_translate s' (KernelPageTable s0) = vm_translate s (KernelPageTable s0)"
  proof (cases "i < 512")
    case True
    show ?thesis
      using r True unfolding preallocate_body_def pm_same_boot[OF vm_ready_same[OF r]] if_P[OF True]
      by (intro vm_ready_step ensure_root_vm)
  qed (use r in simp)
qed

section \<open>Ranges of pages\<close>

text \<open>An address in the half of the kernel, and in the half below.\<close>

definition higher_half :: "u64 \<Rightarrow> bool" where
  "higher_half va \<longleftrightarrow> 2 ^ 64 - 2 ^ 47 \<le> unat va"

definition lower_half :: "u64 \<Rightarrow> bool" where
  "lower_half va \<longleftrightarrow> unat va < 2 ^ 47"

lemma same_page_nat: "same_page x y \<longleftrightarrow> unat x div 4096 mod 2 ^ 36 = unat y div 4096 mod 2 ^ 36"
proof -
  have "unat (take_bit 36 (drop_bit 12 w)) = unat w div 4096 mod 2 ^ 36" for w :: u64
    unfolding unsigned_take_bit_eq unat_drop_bit_eq by (simp add: take_bit_eq_mod drop_bit_eq_div)
  then show ?thesis unfolding same_page_def word_unat_eq_iff by (simp only:)
qed

lemma higher_half_top: "higher_half w \<Longrightarrow> (unat w div 4096) div 2 ^ 36 = 2 ^ 16 - 1"
  using unat_lt64'[of w] by (simp add: higher_half_def div_mult2_eq[symmetric] div_nat_eqI)

lemma same_page_higher:
  assumes "higher_half x" and "higher_half y"
  shows "same_page x y \<longleftrightarrow> unat x div 4096 = unat y div 4096"
proof -
  show ?thesis using higher_half_top[OF assms(1)] higher_half_top[OF assms(2)] mult_div_mod_eq[of "2 ^ 36" "unat x div 4096"] mult_div_mod_eq[of "2 ^ 36" "unat y div 4096"]
    unfolding same_page_nat by metis
qed

lemma same_page_lower:
  assumes "lower_half x" and "higher_half y"
  shows "\<not> same_page x y"
proof -
  have "unat x div 4096 < 2 ^ 35" using assms(1) by (simp add: lower_half_def less_mult_imp_div_less)
  moreover have "2 ^ 52 - 2 ^ 35 \<le> unat y div 4096" using assms(2) by (simp add: higher_half_def)
  then have "2 ^ 35 \<le> unat y div 4096 mod 2 ^ 36"
    using higher_half_top[OF assms(2)] by (simp add: minus_mult_div_eq_mod[symmetric])
  ultimately show ?thesis unfolding same_page_nat by simp
qed

lemma same_page_trans: "same_page x y \<Longrightarrow> same_page x z \<Longrightarrow> same_page y z"
  by (simp add: same_page_def)

lemma fold_vm_map_other:
  "(\<And>i. i \<in> set is \<Longrightarrow> \<not> same_page x (va i)) \<Longrightarrow> fold (\<lambda>i. vm_map (va i) (pa i)) is f x = f x"
  by (induction "is" arbitrary: f) (simp_all add: vm_map_def)

lemma fold_vm_map_hit:
  assumes "\<And>i j. i \<in> set is \<Longrightarrow> j \<in> set is \<Longrightarrow> same_page (va i) (va j) \<Longrightarrow> i = j" and "i \<in> set is" and "same_page x (va i)"
  shows "fold (\<lambda>i. vm_map (va i) (pa i)) is f x = Some (frame_of (pa i) + take_bit 12 x)"
  using assms
proof (induction "is" arbitrary: f)
  case (Cons j js)
  show ?case
  proof (cases "i \<in> set js")
    case True
    then show ?thesis using Cons by auto
  next
    case False
    have ne: "\<not> same_page x (va k)" if k: "k \<in> set js" for k
    proof
      assume "same_page x (va k)"
      then have "i = k" using Cons.prems(1)[of i k] Cons.prems(2) k same_page_trans[OF Cons.prems(3)] by simp
      then show False using k False by simp
    qed
    have "i = j" using Cons.prems(2) False by simp
    then show ?thesis using Cons.prems(3) by (simp add: fold_vm_map_other[OF ne]) (simp add: vm_map_def)
  qed
qed simp

lemma unat_add_page:
  fixes a :: u64
  assumes "unat a + 4096 * n \<le> 2 ^ 64" and "k < n"
  shows "unat (a + of_nat (4096 * k)) = unat a + 4096 * k"
proof -
  have k: "4096 * k < 4096 * n" using assms(2) by simp
  then have "unat (of_nat (4096 * k) :: u64) = 4096 * k" using assms(1)
    by (simp add: unat_of_nat take_bit_nat_eq_self del: of_nat_mult)
  then show ?thesis using assms(1) k by (subst unat_add_lem[THEN iffD1]) simp_all
qed

lemma frame_of_aligned:
  assumes "4096 dvd unat pa" and "unat pa < 2 ^ 40"
  shows "frame_of pa = pa"
proof -
  obtain j where j: "unat pa = 4096 * j" using assms(1) by blast
  then have "unat (frame_of pa) = unat pa" using assms(2)
    unfolding frame_of_def unsigned_push_bit_eq unsigned_take_bit_eq unat_drop_bit_eq
    by (simp add: push_bit_eq_mult drop_bit_eq_div take_bit_eq_mod)
  then show ?thesis by (simp add: word_unat_eq_iff)
qed

lemma fold_page_range:
  assumes a: "higher_half a" "4096 dvd unat a" "unat a + 4096 * n \<le> 2 ^ 64" and p: "4096 dvd unat p" "unat p + 4096 * n \<le> 2 ^ 40"
    and x: "higher_half x"
  shows "fold (\<lambda>k. vm_map (a + of_nat (4096 * k)) (p + of_nat (4096 * k))) [0 ..< n] f x
    = (if unat a \<le> unat x \<and> unat x < unat a + 4096 * n then Some (p + (x - a)) else f x)"
proof -
  have va: "unat (a + of_nat (4096 * k)) = unat a + 4096 * k" "unat (p + of_nat (4096 * k)) = unat p + 4096 * k" if "k < n" for k
    using unat_add_page[OF a(3) that] unat_add_page[of p n k] p(2) that by simp_all
  have hi: "higher_half (a + of_nat (4096 * k))" if "k < n" for k using a(1) va(1)[OF that] by (simp add: higher_half_def)
  obtain b where b: "unat a = 4096 * b" using a(2) by blast
  have sp: "same_page x (a + of_nat (4096 * k)) \<longleftrightarrow> unat x div 4096 = b + k" if "k < n" for k
    unfolding same_page_higher[OF x hi[OF that]] va(1)[OF that] b by simp
  show ?thesis
  proof (cases "unat a \<le> unat x \<and> unat x < unat a + 4096 * n")
    case True
    define k where "k = unat x div 4096 - b"
    have k: "k < n" "unat x div 4096 = b + k" using True unfolding b k_def by auto
    have inj: "i = j" if "i < n" "j < n" "same_page (a + of_nat (4096 * i)) (a + of_nat (4096 * j))" for i j
      using that va(1) same_page_higher[OF hi hi] b by simp
    have "4096 dvd unat (p + of_nat (4096 * k))" "unat (p + of_nat (4096 * k)) < 2 ^ 40" using p va(2)[OF k(1)] k(1) by auto
    then have "frame_of (p + of_nat (4096 * k)) = p + of_nat (4096 * k)" by (rule frame_of_aligned)
    moreover have "a + of_nat (4096 * k) + take_bit 12 x = x"
    proof -
      have "unat x = unat a + 4096 * k + unat x mod 4096" using mult_div_mod_eq[of 4096 "unat x"] unfolding k(2) b by simp
      moreover have "unat (take_bit 12 x) = unat x mod 4096" unfolding unsigned_take_bit_eq by (simp add: take_bit_eq_mod)
      ultimately show ?thesis using va(1)[OF k(1)] unat_lt64'[of x]
        by (simp add: word_unat_eq_iff unat_word_ariths(1))
    qed
    then have "x - a = of_nat (4096 * k) + take_bit 12 x" by (metis add.assoc add_diff_cancel_left')
    ultimately show ?thesis
      using True fold_vm_map_hit[of "[0 ..< n]" "\<lambda>k. a + of_nat (4096 * k)" k x "\<lambda>k. p + of_nat (4096 * k)" f] k sp inj by (simp add: add.assoc)
  next
    case False
    then have "\<not> same_page x (a + of_nat (4096 * k))" if "k < n" for k using sp[OF that] that b by auto
    then show ?thesis using False by (subst fold_vm_map_other) auto
  qed
qed

lemma fold_page_range_lower:
  assumes "higher_half a" "unat a + 4096 * n \<le> 2 ^ 64" and "lower_half x"
  shows "fold (\<lambda>k. vm_map (a + of_nat (4096 * k)) (pa k)) [0 ..< n] f x = f x"
proof (rule fold_vm_map_other)
  fix k assume "k \<in> set [0 ..< n]"
  then show "\<not> same_page x (a + of_nat (4096 * k))"
    using same_page_lower[OF assms(3)] unat_add_page[OF assms(2), of k] assms(1) by (simp add: higher_half_def)
qed

section \<open>The number of tables\<close>

text \<open>
  How many regions of \<open>2\<^sup>k\<close> bytes the \<open>n\<close> pages from \<open>a\<close> touch; a page range needs a table for every
  region of a gigabyte and of two megabytes, and the tables of root entries.
\<close>

definition regions :: "nat \<Rightarrow> u64 \<Rightarrow> nat \<Rightarrow> nat" where
  "regions k a n = (if n = 0 then 0 else Suc ((unat a + 4096 * n - 1) div 2 ^ k - unat a div 2 ^ k))"

definition higher_roots :: "u64 list set" where
  "higher_roots = (\<lambda>i. [of_nat i]) ` {256 ..< 512}"

lemma hw_index_nat: "hw_index sh va = of_nat (unat va div 2 ^ sh mod 512)"
proof -
  have "unat (hw_index sh va) = unat va div 2 ^ sh mod 512"
    unfolding hw_index_def unsigned_take_bit_eq unat_drop_bit_eq by (simp add: take_bit_eq_mod drop_bit_eq_div)
  then show ?thesis by (metis of_nat_unat ucast_id)
qed

lemma higher_root: "higher_half va \<Longrightarrow> [hw_index 39 va] \<in> higher_roots"
proof -
  assume "higher_half va"
  then have b: "2 ^ 25 - 2 ^ 8 \<le> unat va div 2 ^ 39" "unat va div 2 ^ 39 < 2 ^ 25"
    using unat_lt64'[of va] by (auto simp: higher_half_def less_mult_imp_div_less)
  then have "unat va div 2 ^ 39 div 512 = 2 ^ 16 - 1" by (simp add: div_nat_eqI)
  then have "256 \<le> unat va div 2 ^ 39 mod 512" using b(1) by (simp add: minus_mult_div_eq_mod[symmetric])
  then show ?thesis by (auto simp: higher_roots_def hw_index_nat)
qed

lemma card_regions:
  assumes "\<And>k. k < n \<Longrightarrow> f (a + of_nat (4096 * k)) = g (unat (a + of_nat (4096 * k)) div 2 ^ r)" and "unat a + 4096 * n \<le> 2 ^ 64"
  shows "card ((\<lambda>k. f (a + of_nat (4096 * k))) ` {..< n}) \<le> regions r a n"
proof (cases "n = 0")
  case False
  let ?J = "{unat a div 2 ^ r .. (unat a + 4096 * n - 1) div 2 ^ r}"
  have "(\<lambda>k. f (a + of_nat (4096 * k))) ` {..< n} \<subseteq> g ` ?J"
  proof
    fix y assume "y \<in> (\<lambda>k. f (a + of_nat (4096 * k))) ` {..< n}"
    then obtain k where k: "k < n" "y = f (a + of_nat (4096 * k))" by auto
    have "unat a + 4096 * k \<le> unat a + 4096 * n - 1" using k(1) by simp
    then show "y \<in> g ` ?J" using assms(1)[OF k(1)] k unat_add_page[OF assms(2) k(1)] by (auto intro!: imageI div_le_mono)
  qed
  then have "card ((\<lambda>k. f (a + of_nat (4096 * k))) ` {..< n}) \<le> card (g ` ?J)" by (intro card_mono) simp_all
  moreover have "card (g ` ?J) \<le> card ?J" by (rule card_image_le) simp
  moreover have "unat a div 2 ^ r \<le> (unat a + 4096 * n - 1) div 2 ^ r" using False by (intro div_le_mono) simp
  ultimately show ?thesis using False by (simp add: regions_def Suc_diff_le)
qed simp

definition range_paths :: "u64 \<Rightarrow> nat \<Rightarrow> u64 list set" where
  "range_paths a n = (\<Union>k < n. table_paths (a + of_nat (4096 * k)))"

lemma range_paths_card:
  assumes "higher_half a" and "unat a + 4096 * n \<le> 2 ^ 64"
  shows "finite (range_paths a n)" "card (range_paths a n - higher_roots) \<le> regions 30 a n + regions 21 a n"
proof -
  let ?va = "\<lambda>k. a + of_nat (4096 * k)"
  let ?P2 = "(\<lambda>k. [hw_index 39 (?va k), hw_index 30 (?va k)]) ` {..< n}"
  let ?P3 = "(\<lambda>k. [hw_index 39 (?va k), hw_index 30 (?va k), hw_index 21 (?va k)]) ` {..< n}"
  have d: "m div 549755813888 = m div 1073741824 div 512" "m div 1073741824 = m div 2097152 div 512" for m :: nat
    by (simp_all add: div_mult2_eq[symmetric])
  have "card ?P2 \<le> regions 30 a n"
    by (rule card_regions[of n "\<lambda>v. [hw_index 39 v, hw_index 30 v]" a "\<lambda>q. [of_nat (q div 512 mod 512), of_nat (q mod 512)]", OF _ assms(2)])
      (simp add: hw_index_nat d(1))
  moreover have "card ?P3 \<le> regions 21 a n"
    by (rule card_regions[of n "\<lambda>v. [hw_index 39 v, hw_index 30 v, hw_index 21 v]" a
          "\<lambda>q. [of_nat (q div 512 div 512 mod 512), of_nat (q div 512 mod 512), of_nat (q mod 512)]", OF _ assms(2)])
      (simp add: hw_index_nat d)
  moreover have "higher_half (?va k)" if "k < n" for k using assms(1) unat_add_page[OF assms(2) that] by (simp add: higher_half_def)
  then have "range_paths a n - higher_roots \<subseteq> ?P2 \<union> ?P3"
    using higher_root by (auto simp: range_paths_def table_paths_def)
  then have "card (range_paths a n - higher_roots) \<le> card (?P2 \<union> ?P3)" by (intro card_mono) simp_all
  moreover have "card (?P2 \<union> ?P3) \<le> card ?P2 + card ?P3" by (rule card_Un_le)
  ultimately show "card (range_paths a n - higher_roots) \<le> regions 30 a n + regions 21 a n" by linarith
  show "finite (range_paths a n)" by (simp add: range_paths_def table_paths_def)
qed

section \<open>The new address space\<close>

lemma allocateRootPageTable_vm:
  assumes h: "pm_holds s xs" and ne: "xs \<noteq> []" and low: "low_chunks (HigherHalfDirectMapOffset s) xs"
  obtains t s1 where "allocateRootPageTable s = Inr (t, s1)" and "vm_holds s1 (fit_rest 1 xs) t [[] \<mapsto> t]" and "pm_same s s1"
    and "vm_bytes (fit_rest 1 xs) [[] \<mapsto> t] \<subseteq> list_bytes 4096 xs" and "\<And>x. unat x \<notin> list_bytes 4096 xs \<Longrightarrow> mem s1 x = mem s x"
proof -
  let ?off = "HigherHalfDirectMapOffset s"
  have wf: "wf_chunks 4096 xs" using h by (simp add: pm_holds_def)
  obtain F t s1 where t: "allocatePage s = Inr (t, s1)" "t \<noteq> 0" "unat t + 4096 \<le> 2 ^ 64" "pm_holds s1 (fit_rest 1 xs)"
    "page t \<subseteq> list_bytes 4096 xs" "list_bytes 4096 (fit_rest 1 xs) = list_bytes 4096 xs - page t"
    "\<And>x. unat x \<notin> list_bytes 4096 xs \<Longrightarrow> mem s1 x = mem s x" "pm_same s s1"
    using allocatePage_low[OF h ne low] by metis
  define m where "m = fst (memset (mem s1) t 0 4096)"
  have m: "m x = (if unat x \<in> page t then 0 else mem s1 x)" for x
    using inside_nat[of t 4096 x] t(3) by (auto simp: m_def memset_closed page_def)
  have "pm_holds (s1\<lparr>mem := m\<rparr>) (fit_rest 1 xs)" using t(4,6) m by (intro pm_holds_frame) auto
  moreover have "space_ok m ?off (list_bytes 4096 (fit_rest 1 xs)) [[] \<mapsto> t]" using t(3,6) m by (intro space_ok_root) auto
  ultimately have "vm_holds (s1\<lparr>mem := m\<rparr>) (fit_rest 1 xs) t [[] \<mapsto> t]"
    using low_chunks_fit[OF wf low] pm_same_offset[OF t(8)] by (simp add: vm_holds_def)
  moreover have "allocateRootPageTable s = Inr (t, s1\<lparr>mem := m\<rparr>)" using t(1,2) by (simp add: allocateRootPageTable_def m_def)
  moreover have "pm_same s (s1\<lparr>mem := m\<rparr>)" using t(8) by (simp add: pm_same_def)
  moreover have "vm_bytes (fit_rest 1 xs) [[] \<mapsto> t] \<subseteq> list_bytes 4096 xs" using t(5,6) by (auto simp: vm_bytes_def)
  moreover have "m x = mem s x" if "unat x \<notin> list_bytes 4096 xs" for x using that t(5,7) m by auto
  ultimately show ?thesis by (intro that[of t "s1\<lparr>mem := m\<rparr>"]) simp_all
qed

lemma vm_translate_empty: "vm_holds s xs t [[] \<mapsto> t] \<Longrightarrow> vm_translate s t va = None"
  using hw_leaf_tree[of "mem s" "HigherHalfDirectMapOffset s" "list_bytes 4096 xs" "[[] \<mapsto> t]" t
      "[hw_index 39 va, hw_index 30 va, hw_index 21 va]" "hw_index 12 va"]
  by (simp add: vm_translate_def hw_translate_def vm_holds_def indices_def hw_index_less)

text \<open>
  What the loader and the linker promise about addresses: everything is page-aligned, the direct map lies
  in the higher half below the kernel, and physical addresses have at most 40 bits.
\<close>

definition boot_layout :: "boot_symbols \<Rightarrow> u64 \<Rightarrow> u64 \<Rightarrow> limine_kernel_address_response \<Rightarrow> bool" where
  "boot_layout sy off maxp ka \<longleftrightarrow>
     higher_half off \<and> 4096 dvd unat off \<and> unat off + 4096 * page_count 0 maxp \<le> unat (KernelStart sy)
     \<and> 4096 * page_count 0 maxp \<le> 2 ^ 40
     \<and> 4096 dvd unat (KernelStart sy) \<and> unat (KernelEnd sy) + 4096 \<le> 2 ^ 64
     \<and> 4096 dvd unat (physical_base ka + (KernelStart sy - virtual_base ka))
     \<and> unat (physical_base ka + (KernelStart sy - virtual_base ka)) + 4096 * page_count (KernelStart sy) (KernelEnd sy) \<le> 2 ^ 40"

text \<open>The address space that the comments of \<^verbatim>\<open>initializeVirtualMemory\<close> describe.\<close>

definition kernel_space :: "boot_symbols \<Rightarrow> u64 \<Rightarrow> u64 \<Rightarrow> limine_kernel_address_response \<Rightarrow> u64 \<Rightarrow> u64 option" where
  "kernel_space sy off maxp ka va =
     (if KernelStart sy \<le> va \<and> unat va < unat (KernelStart sy) + 4096 * page_count (KernelStart sy) (KernelEnd sy)
      then Some (physical_base ka + (va - virtual_base ka))
      else if off \<le> va \<and> unat va < unat off + 4096 * page_count 0 maxp then Some (va - off)
      else None)"

definition boot_tables :: "boot_symbols \<Rightarrow> u64 \<Rightarrow> u64 \<Rightarrow> nat" where
  "boot_tables sy off maxp =
     1 + 256 + (regions 30 off (page_count 0 maxp) + regions 21 off (page_count 0 maxp))
     + (regions 30 (KernelStart sy) (page_count (KernelStart sy) (KernelEnd sy))
        + regions 21 (KernelStart sy) (page_count (KernelStart sy) (KernelEnd sy)))"

lemma page_count_bounds:
  assumes "unat stop + 4096 \<le> 2 ^ 64"
  shows "unat first + 4096 * page_count first stop \<le> 2 ^ 64" "unat stop \<le> unat first + 4096 * page_count first stop"
proof -
  have "4096 * page_count first stop \<le> unat stop - unat first + 4095" by (simp add: page_count_def)
  moreover have "page_count first stop = 0" if "unat stop \<le> unat first" using that by (simp add: page_count_def)
  ultimately show "unat first + 4096 * page_count first stop \<le> 2 ^ 64" using assms unat_lt64'[of first]
    by (cases "unat stop \<le> unat first") auto
  show "unat stop \<le> unat first + 4096 * page_count first stop"
    using mult_div_mod_eq[of 4096 "unat stop - unat first + 4095"] unfolding page_count_def by linarith
qed

lemma boot_layoutD:
  assumes "boot_layout sy off maxp ka"
  shows "higher_half off" "4096 dvd unat off" "unat off + 4096 * page_count 0 maxp \<le> 2 ^ 64"
    "4096 * page_count 0 maxp \<le> 2 ^ 40" "unat maxp + 4096 \<le> 2 ^ 64"
    "higher_half (KernelStart sy)" "4096 dvd unat (KernelStart sy)" "unat (KernelEnd sy) + 4096 \<le> 2 ^ 64"
    "unat (KernelStart sy) + 4096 * page_count (KernelStart sy) (KernelEnd sy) \<le> 2 ^ 64"
    "4096 dvd unat (physical_base ka + (KernelStart sy - virtual_base ka))"
    "unat (physical_base ka + (KernelStart sy - virtual_base ka)) + 4096 * page_count (KernelStart sy) (KernelEnd sy) \<le> 2 ^ 40"
proof -
  have "unat maxp \<le> 4096 * page_count 0 maxp"
    using mult_div_mod_eq[of 4096 "unat maxp + 4095"] unfolding page_count_def by simp
  then show "unat maxp + 4096 \<le> 2 ^ 64" using assms by (simp add: boot_layout_def)
  show "unat (KernelStart sy) + 4096 * page_count (KernelStart sy) (KernelEnd sy) \<le> 2 ^ 64"
    using assms by (intro page_count_bounds(1)) (simp add: boot_layout_def)
qed (use assms unat_lt64'[of "KernelStart sy"] in \<open>auto simp: boot_layout_def higher_half_def\<close>)

lemma page_list_paths:
  "\<Union> ((\<lambda>i. table_paths (i + d)) ` set (page_list first stop)) = range_paths (first + d) (page_count first stop)"
  by (auto simp: page_list_def range_paths_def ac_simps)

lemma fold_page_list: "fold f (page_list first stop) = fold (\<lambda>k. f (first + of_nat (4096 * k))) [0 ..< page_count first stop]"
  by (simp only: page_list_def fold_map comp_def)

lemma boot_folds:
  assumes "boot_layout sy off maxp ka" and ka: "kernel_address_response (requests s) = Some ka"
    and f: "f = fold (\<lambda>i. vm_map i (kernel_frame s i)) (page_list (KernelStart sy) (KernelEnd sy))
        (fold (\<lambda>i. vm_map (i + off) i) (page_list 0 maxp) (\<lambda>_. None))"
  shows "higher_half va \<Longrightarrow> f va = kernel_space sy off maxp ka va" and "lower_half va \<Longrightarrow> f va = None"
proof -
  note L = boot_layoutD[OF assms(1)]
  let ?p = "physical_base ka + (KernelStart sy - virtual_base ka)"
  have k: "kernel_frame s (KernelStart sy + of_nat (4096 * k)) = ?p + of_nat (4096 * k)" for k
    by (simp add: kernel_frame_def ka algebra_simps)
  have d: "fold (\<lambda>i. vm_map (i + off) i) (page_list 0 maxp) = fold (\<lambda>k. vm_map (off + of_nat (4096 * k)) (0 + of_nat (4096 * k))) [0 ..< page_count 0 maxp]"
    by (simp add: fold_page_list add.commute)
  note unf = f fold_page_list[of "\<lambda>i. vm_map i (kernel_frame s i)"] k d
  show "f va = kernel_space sy off maxp ka va" if "higher_half va"
    unfolding unf using fold_page_range[OF L(6,7,9,10,11) that] fold_page_range[OF L(1,2,3) _ _ that, of 0] L(4)
    by (simp add: kernel_space_def word_le_nat_alt)
  show "f va = None" if "lower_half va"
    unfolding unf using fold_page_range_lower[OF L(6,9) that] fold_page_range_lower[OF L(1,3) that] by simp
qed

lemma boot_tables_card:
  assumes "boot_layout sy off maxp ka" and "boot_tables sy off maxp + card E \<le> Suc n" and "finite E"
    and R: "R1 = range_paths off (page_count 0 maxp)" "R2 = range_paths (KernelStart sy) (page_count (KernelStart sy) (KernelEnd sy))"
  shows "finite (R1 \<union> (R2 \<union> (higher_roots \<union> E)))"
    and "card (R1 \<union> (R2 \<union> (higher_roots \<union> E)) - X) \<le> n"
proof -
  note L = boot_layoutD[OF assms(1)]
  note r1 = range_paths_card[OF L(1,3), folded R(1)] and r2 = range_paths_card[OF L(6,9), folded R(2)]
  have h: "finite higher_roots" "card higher_roots \<le> 256" using card_image_le[of "{256 ..< 512 :: nat}" "\<lambda>i. [of_nat i :: u64]"] by (simp_all add: higher_roots_def)
  then show fin: "finite (R1 \<union> (R2 \<union> (higher_roots \<union> E)))" using r1(1) r2(1) assms(3) by simp
  have "card (R1 \<union> (R2 \<union> (higher_roots \<union> E)) - X) \<le> card ((R1 - higher_roots) \<union> ((R2 - higher_roots) \<union> (higher_roots \<union> E)))"
    using fin by (intro card_mono) auto
  also have "\<dots> \<le> card (R1 - higher_roots) + (card (R2 - higher_roots) + (card higher_roots + card E))"
    by (rule order_trans[OF card_Un_le add_left_mono[OF order_trans[OF card_Un_le add_left_mono[OF card_Un_le]]]])
  finally show "card (R1 \<union> (R2 \<union> (higher_roots \<union> E)) - X) \<le> n" using r1(2) r2(2) h(2) assms(2) by (simp add: boot_tables_def)
qed

lemma vm_holds_KernelPageTable: "vm_holds (s\<lparr>KernelPageTable := t\<rparr>) xs rt G = vm_holds s xs rt G"
  by (simp add: vm_holds_def pm_holds_def pm_ready_def usingLock_def thisCPU_def lapicID_def)

text \<open>The three loops, from the state \<open>s0\<close> with an empty root table.\<close>

lemma boot_loops:
  assumes L: "boot_layout sy (HigherHalfDirectMapOffset s0) maxp ka" and ka: "kernel_address_response (requests s0) = Some ka"
    and vm: "vm_holds s0 xs (KernelPageTable s0) [[] \<mapsto> KernelPageTable s0]" and B: "vm_bytes xs [[] \<mapsto> KernelPageTable s0] \<subseteq> B" "length xs \<le> k"
    and free: "boot_tables sy (HigherHalfDirectMapOffset s0) maxp + card E \<le> Suc (free_pages xs)" and E: "finite E"
  shows "\<exists>s3 s4 s5 R. for_pages 0 maxp direct_body s0 = Inr s3 \<and> for_pages (KernelStart sy) (KernelEnd sy) kernel_body s3 = Inr s4
    \<and> for_each [256 ..< 512] preallocate_body s4 = Inr s5 \<and> vm_ready (KernelPageTable s0) s0 B k s5 (R \<union> higher_roots) E
    \<and> (\<forall>va. higher_half va \<longrightarrow> vm_translate s5 (KernelPageTable s0) va = kernel_space sy (HigherHalfDirectMapOffset s0) maxp ka va)
    \<and> (\<forall>va. lower_half va \<longrightarrow> vm_translate s5 (KernelPageTable s0) va = None)"
proof -
  let ?off = "HigherHalfDirectMapOffset s0" and ?t = "KernelPageTable s0"
  define ns where "ns = [256 ..< 512 :: nat]"
  define R1 where "R1 = range_paths ?off (page_count 0 maxp)"
  define R2 where "R2 = range_paths (KernelStart sy) (page_count (KernelStart sy) (KernelEnd sy))"
  note D = boot_layoutD[OF L] and card = boot_tables_card[OF L free E R1_def R2_def]
  have n1: "\<Union> ((\<lambda>i. table_paths (i + ?off)) ` set (page_list 0 maxp)) = R1" by (simp add: page_list_paths R1_def)
  have n2: "\<Union> (table_paths ` set (page_list (KernelStart sy) (KernelEnd sy))) = R2"
    using page_list_paths[of 0] by (simp add: R2_def)
  have n3: "\<Union> ((\<lambda>i. if i < 512 then {[of_nat i]} else {}) ` set ns) = higher_roots"
    unfolding ns_def set_upt higher_roots_def by auto
  have "vm_ready ?t s0 B k s0 {} (R1 \<union> (R2 \<union> (higher_roots \<union> E)))" using vm B card unfolding vm_ready_def by auto
  then obtain s3 where s3: "for_each (page_list 0 maxp) direct_body s0 = Inr s3" "vm_ready ?t s0 B k s3 R1 (R2 \<union> (higher_roots \<union> E))"
    "vm_translate s3 ?t = fold (\<lambda>i. vm_map (i + ?off) i) (page_list 0 maxp) (vm_translate s0 ?t)"
    using direct.steps_ok[of s0 B k s0 "{}" "page_list 0 maxp" "R2 \<union> (higher_roots \<union> E)", unfolded n1] by auto
  then obtain s4 where s4: "for_each (page_list (KernelStart sy) (KernelEnd sy)) kernel_body s3 = Inr s4"
    "vm_ready ?t s0 B k s4 (R1 \<union> R2) (higher_roots \<union> E)"
    "vm_translate s4 ?t = fold (\<lambda>i. vm_map i (kernel_frame s0 i)) (page_list (KernelStart sy) (KernelEnd sy)) (vm_translate s3 ?t)"
    using kernel.steps_ok[of s0 B k s3 R1 "page_list (KernelStart sy) (KernelEnd sy)" "higher_roots \<union> E", unfolded n2] ka by auto
  have "for_each ns preallocate_body s4 = for_each ns (\<lambda>i s. if i < 512 then preallocate_body i s else Inr s) s4"
    by (rule for_each_cong) (unfold ns_def set_upt, auto)
  then obtain s5 where s5: "for_each ns preallocate_body s4 = Inr s5"
    "vm_ready ?t s0 B k s5 (R1 \<union> R2 \<union> higher_roots) E" "vm_translate s5 ?t = fold (\<lambda>_ f. f) ns (vm_translate s4 ?t)"
    using preallocate.steps_ok[of s0 B k s4 "R1 \<union> R2" "ns" E, unfolded n3] s4(2) by auto
  have nop: "fold (\<lambda>_ f. f) ns g = g" for ns :: "nat list" and g :: "u64 \<Rightarrow> u64 option" by (induction ns) simp_all
  have empty: "vm_translate s0 ?t = (\<lambda>_. None)" using vm_translate_empty[OF vm] by blast
  have "for_pages 0 maxp direct_body s0 = Inr s3" "for_pages (KernelStart sy) (KernelEnd sy) kernel_body s3 = Inr s4"
    using s3(1) s4(1) D(5,8) by (simp_all add: for_pages_list)
  then show ?thesis
    using boot_folds[OF L ka s4(3)[unfolded s3(3) empty]] s5 unfolding nop ns_def[symmetric]
    by (intro exI[of _ s3] exI[of _ s4] exI[of _ s5] exI[of _ "R1 \<union> R2"]) simp
qed

lemma higher_roots_present:
  assumes "vm_ready t s0 B k s (R \<union> higher_roots) D" and "256 \<le> i" and "i < 512"
  shows "pte_get IsPresent (load64 (mem s) (entry_at t (of_nat i))) \<noteq> 0"
proof -
  obtain xs G where vm: "vm_holds s xs t G" and r: "R \<union> higher_roots \<subseteq> dom G" using assms(1) by (auto simp: vm_ready_def)
  have u: "unat (of_nat i :: u64) < 512" using assms(3) by (simp add: unat_of_nat take_bit_nat_eq_self)
  have "entry_ok (HigherHalfDirectMapOffset s) G [] (of_nat i) (load64 (mem s) (t + 8 * of_nat i))"
    using vm u by (intro space_okD(5)) (auto simp: vm_holds_def)
  moreover have "[of_nat i] \<in> dom G" using r assms(2,3) by (force simp: higher_roots_def)
  ultimately have "table_link (load64 (mem s) (t + 8 * of_nat i))" by (auto simp: entry_ok_def split: if_splits)
  then show ?thesis using index_entry[OF u, of t] by (simp add: table_link_def)
qed

text \<open>As many paths as wanted that lead to no table: they stand for pages that the tables leave free.\<close>

definition spare_paths :: "nat \<Rightarrow> u64 list set" where
  "spare_paths n = (\<lambda>i. replicate (4 + i) 0) ` {..<n}"

lemma spare_paths: "finite (spare_paths n)" "card (spare_paths n) = n"
  by (auto simp: spare_paths_def card_image inj_on_def dest: arg_cong[of _ _ length])

lemma spare_paths_outside: "vm_holds s xs t G \<Longrightarrow> spare_paths n - dom G = spare_paths n"
  using space_okD(1)[of "mem s" "HigherHalfDirectMapOffset s" "list_bytes 4096 xs" G]
  by (fastforce simp: vm_holds_def spare_paths_def)

lemma initializeVirtualMemory_lemma:
  assumes "pm_holds s xs" and "low_chunks (HigherHalfDirectMapOffset s) xs"
    and "kernel_address_response (requests s) = Some ka"
    and "boot_layout sy (HigherHalfDirectMapOffset s) maxp ka"
    and "boot_tables sy (HigherHalfDirectMapOffset s) maxp + spare \<le> free_pages xs"
  shows "\<exists>s'. initializeVirtualMemory sy maxp s = Inr s' \<and> cr3 s' = KernelPageTable s' - HigherHalfDirectMapOffset s
    \<and> (\<forall>va. higher_half va \<longrightarrow> vm_translate s' (KernelPageTable s') va = kernel_space sy (HigherHalfDirectMapOffset s) maxp ka va)
    \<and> (\<forall>va. lower_half va \<longrightarrow> vm_translate s' (KernelPageTable s') va = None)
    \<and> (\<forall>i \<in> {256 ..< 512}. pte_get IsPresent (load64 (mem s') (entry_at (KernelPageTable s') (of_nat i))) \<noteq> 0)
    \<and> (\<forall>x. unat x \<notin> list_bytes 4096 xs \<longrightarrow> mem s' x = mem s x)
    \<and> pm_same s (s'\<lparr>KernelPageTable := KernelPageTable s, cr3 := cr3 s\<rparr>)
    \<and> (\<exists>ys G. vm_holds s' ys (KernelPageTable s') G \<and> vm_bytes ys G \<subseteq> list_bytes 4096 xs \<and> spare \<le> free_pages ys
        \<and> length ys \<le> length xs)"
proof -
  let ?off = "HigherHalfDirectMapOffset s"
  have wf: "wf_chunks 4096 xs" using assms(1) by (simp add: pm_holds_def)
  have ne: "xs \<noteq> []" using assms(5) by (intro free_pages_ne) (simp add: boot_tables_def)
  obtain t s1 where s1: "allocateRootPageTable s = Inr (t, s1)" "vm_holds s1 (fit_rest 1 xs) t [[] \<mapsto> t]" "pm_same s s1"
    "vm_bytes (fit_rest 1 xs) [[] \<mapsto> t] \<subseteq> list_bytes 4096 xs" "\<And>x. unat x \<notin> list_bytes 4096 xs \<Longrightarrow> mem s1 x = mem s x"
    using allocateRootPageTable_vm[OF assms(1) ne assms(2)] by metis
  define s2 where "s2 = s1\<lparr>KernelPageTable := t\<rparr>"
  have s2: "HigherHalfDirectMapOffset s2 = ?off" "KernelPageTable s2 = t" "requests s2 = requests s" "mem s2 = mem s1"
    using pm_same_offset[OF s1(3)] pm_same_boot(3)[OF s1(3)] by (simp_all add: s2_def)
  have vm2: "vm_holds s2 (fit_rest 1 xs) (KernelPageTable s2) [[] \<mapsto> KernelPageTable s2]"
    using s1(2) by (simp add: s2_def vm_holds_KernelPageTable)
  define E where "E = spare_paths spare"
  have E: "finite E" "card E = spare" by (simp_all add: E_def spare_paths)
  have "boot_tables sy ?off maxp + card E \<le> Suc (free_pages (fit_rest 1 xs))" using assms(5) free_pages_fit[OF wf ne] E(2) by simp
  then obtain s3 s4 s5 R where l: "for_pages 0 maxp direct_body s2 = Inr s3" "for_pages (KernelStart sy) (KernelEnd sy) kernel_body s3 = Inr s4"
    "for_each [256 ..< 512] preallocate_body s4 = Inr s5" "vm_ready t s2 (list_bytes 4096 xs) (length xs) s5 (R \<union> higher_roots) E"
    "\<forall>va. higher_half va \<longrightarrow> vm_translate s5 t va = kernel_space sy ?off maxp ka va" "\<forall>va. lower_half va \<longrightarrow> vm_translate s5 t va = None"
    using boot_loops[of sy s2 maxp ka "fit_rest 1 xs" "list_bytes 4096 xs" "length xs" E, unfolded s2(1,3), OF assms(4,3) vm2] s1(4) E(1) length_fit_rest[of 1 xs] unfolding s2(2) by blast
  note same = pm_same_boot[OF vm_ready_same[OF l(4)]] pm_same_offset[OF vm_ready_same[OF l(4)]]
  define s' where "s' = s5\<lparr>cr3 := toPhysical s5 (KernelPageTable s5)\<rparr>"
  have "initializeVirtualMemory sy maxp s = Inr s'"
    unfolding initializeVirtualMemory_def s1(1) obind.simps prod.case Let_def s2_def[symmetric] l(1-3) s'_def ..
  moreover have "KernelPageTable s' = t" "mem s' = mem s5" "HigherHalfDirectMapOffset s' = ?off"
    using same s2 by (simp_all add: s'_def)
  moreover have "cr3 s' = t - ?off" using same s2 by (simp add: s'_def toPhysical_def)
  moreover have "vm_translate s' t va = vm_translate s5 t va" for va by (simp add: vm_translate_def s'_def)
  moreover have "\<forall>x. unat x \<notin> list_bytes 4096 xs \<longrightarrow> mem s5 x = mem s x" using l(4) s1(5) s2(4) by (auto simp: vm_ready_def)
  moreover have "pm_same s (s'\<lparr>KernelPageTable := KernelPageTable s, cr3 := cr3 s\<rparr>)"
  proof -
    have "pm_same s2 s5" by (rule vm_ready_same[OF l(4)])
    then show ?thesis using s1(3) by (cases s; cases s1; cases s5) (simp add: s'_def s2_def pm_same_def usingLock_def thisCPU_def lapicID_def)
  qed
  moreover obtain ys G where v: "vm_holds s5 ys t G" "vm_bytes ys G \<subseteq> list_bytes 4096 xs" "card (E - dom G) \<le> free_pages ys" "length ys \<le> length xs"
    using l(4) by (auto simp: vm_ready_def)
  moreover have "vm_holds s' ys t G = vm_holds s5 ys t G"
    by (simp add: s'_def vm_holds_def pm_holds_def pm_ready_def usingLock_def thisCPU_def lapicID_def)
  moreover have "E - dom G = E" using spare_paths_outside[OF v(1)] by (simp add: E_def)
  ultimately show ?thesis using l(5,6) higher_roots_present[OF l(4)] E(2) by (intro exI[of _ s']) auto
qed

text \<open>
  C8. The address space after \<^verbatim>\<open>initializeVirtualMemory\<close>. Given the free pages that the tables need, the
  function returns; the processor is pointed at the new root table, which translates every address of
  the higher half as planned: the kernel's pages to where the loader put them, the
  direct map to the physical memory from zero, and nothing else. The lower half is empty, all
  higher root entries have their table, and memory outside of what was free is untouched.
\<close>

theorem initializeVirtualMemory_space:
  assumes "pm_holds s xs" and "low_chunks (HigherHalfDirectMapOffset s) xs"
    and "kernel_address_response (requests s) = Some ka"
    and "boot_layout sy (HigherHalfDirectMapOffset s) maxp ka"
    and "boot_tables sy (HigherHalfDirectMapOffset s) maxp \<le> free_pages xs"
  shows "\<exists>s'. initializeVirtualMemory sy maxp s = Inr s' \<and> cr3 s' = KernelPageTable s' - HigherHalfDirectMapOffset s
    \<and> (\<forall>va. higher_half va \<longrightarrow> vm_translate s' (KernelPageTable s') va = kernel_space sy (HigherHalfDirectMapOffset s) maxp ka va)
    \<and> (\<forall>va. lower_half va \<longrightarrow> vm_translate s' (KernelPageTable s') va = None)
    \<and> (\<forall>i \<in> {256 ..< 512}. pte_get IsPresent (load64 (mem s') (entry_at (KernelPageTable s') (of_nat i))) \<noteq> 0)
    \<and> (\<forall>x. unat x \<notin> list_bytes 4096 xs \<longrightarrow> mem s' x = mem s x)"
  using initializeVirtualMemory_lemma[OF assms(1-4), of 0] assms(5) by auto

definition sample_symbols :: boot_symbols where
  "sample_symbols = \<lparr>KernelStart = 0xFFFFFFFF80000000, KernelEnd = 0xFFFFFFFF80001800, OtherProcessorMain_addr = 0xFFFFFFFF80000100\<rparr>"

definition sample_address :: limine_kernel_address_response where
  "sample_address = \<lparr>physical_base = 0x200000, virtual_base = 0xFFFFFFFF80000000\<rparr>"

definition sample_boot :: boot_state where
  "sample_boot = \<lparr>mem = set_count (\<lambda>_. 0) 0xFFFF800000008000 1000, CPUs = [], lapicIDReg = 0, rflags = 0, outb_log = [],
     pm_lockword = 0, pm_freeList = 0xFFFF800000008000, HigherHalfDirectMapOffset = 0xFFFF800000000000, logLock = 0, msrs = \<lambda>_. 0, lapic = 0,
     lapic_writes = [], lapic_reads = 0, KernelPageTable = 0, cr3 = 0,
     ctx = \<lparr>c_rbx = 0, c_rbp = 0, c_r12 = 0, c_r13 = 0, c_r14 = 0, c_r15 = 0, c_rsp = 0x1000, c_rip = 0\<rparr>,
     ProcessTable = replicate 64 unused_process, ProcessTableSpinlock = 0, ProcessTable_addr = 0x100000,
     IDTEntries = [], IDTEntries_addr = 0, idtr_limit = 0, idtr_base = 0,
     requests = \<lparr>memmap_response = Some [\<lparr>me_base = 0x8000, me_length = 0x3E8000, me_type = 0\<rparr>], hhdm_response = Some 0xFFFF800000000000,
       kernel_address_response = Some sample_address,
       smp_response = Some \<lparr>bsp_lapic_id = 0, cpus = [\<lparr>processor_id = 0, lapic_id = 0, goto_address = 0, extra_argument = 0\<rparr>]\<rparr>\<rparr>,
     CPUs_addr = 0, installed = None\<rparr>"

lemma sample_boot_facts:
  "pm_holds sample_boot [(0xFFFF800000008000, 1000)]" "low_chunks (HigherHalfDirectMapOffset sample_boot) [(0xFFFF800000008000, 1000)]"
  "kernel_address_response (requests sample_boot) = Some sample_address" "HigherHalfDirectMapOffset sample_boot = 0xFFFF800000000000"
proof -
  have "chunk_next (\<lambda>_. 0) 0xFFFF800000008000 = 0" "chunk_prev (\<lambda>_. 0) 0xFFFF800000008000 = 0"
    by (simp_all add: chunk_defs load64_zero)
  then show "pm_holds sample_boot [(0xFFFF800000008000, 1000)]"
    by (simp add: pm_holds_def pm_ready_def usingLock_def sample_boot_def dll_def wf_chunks_Cons chunk_end_def)
  show "low_chunks (HigherHalfDirectMapOffset sample_boot) [(0xFFFF800000008000, 1000)]"
    by (auto intro!: exI[of _ 8] simp: low_chunks_def sample_boot_def)
qed (simp_all add: sample_boot_def)

lemma boot_sample_layout:
  "boot_layout sample_symbols 0xFFFF800000000000 0x3000 sample_address"
  "boot_tables sample_symbols 0xFFFF800000000000 0x3000 \<le> free_pages [(0xFFFF800000008000, 1000)]"
  by (simp_all add: boot_layout_def boot_tables_def regions_def free_pages_def sample_symbols_def sample_address_def higher_half_def
      page_count_def dvd_eq_mod_eq_0)

theorem initializeVirtualMemory_space_witness:
  "\<exists>s'. initializeVirtualMemory sample_symbols 0x3000 sample_boot = Inr s'
     \<and> vm_translate s' (KernelPageTable s') 0xFFFF800000002345 = Some 0x2345
     \<and> vm_translate s' (KernelPageTable s') 0xFFFFFFFF80001234 = Some 0x201234
     \<and> vm_translate s' (KernelPageTable s') 0xFFFF800000003000 = None \<and> vm_translate s' (KernelPageTable s') 0x2345 = None"
proof -
  show ?thesis
    using boot_sample_layout initializeVirtualMemory_space[of sample_boot "[(0xFFFF800000008000, 1000)]" sample_address sample_symbols "0x3000",
        OF sample_boot_facts(1,2,3), unfolded sample_boot_facts(4)]
    by (auto simp: kernel_space_def sample_symbols_def sample_address_def higher_half_def lower_half_def page_count_def word_le_nat_alt)
qed

text \<open>
  C19. The kernel is open to user mode. \<^verbatim>\<open>map\<close> and \<^verbatim>\<open>allocatePageForTableEntry\<close> mark every entry writable and accessible to user mode, with no
  argument to say otherwise, so that after \<^verbatim>\<open>initializeVirtualMemory\<close> the rights of the processor's walk let user mode write to
  every page of the kernel's image and, through the direct map, to every byte of physical memory.
\<close>

theorem kernel_open_to_users:
  assumes "pm_holds s xs" and "low_chunks (HigherHalfDirectMapOffset s) xs"
    and "kernel_address_response (requests s) = Some ka"
    and "boot_layout sy (HigherHalfDirectMapOffset s) maxp ka"
    and "boot_tables sy (HigherHalfDirectMapOffset s) maxp \<le> free_pages xs"
  shows "\<exists>s'. initializeVirtualMemory sy maxp s = Inr s'
    \<and> (\<forall>va. higher_half va \<longrightarrow> kernel_space sy (HigherHalfDirectMapOffset s) maxp ka va \<noteq> None \<longrightarrow> vm_user_writes s' (KernelPageTable s') va)"
proof -
  obtain s' ys G where s': "initializeVirtualMemory sy maxp s = Inr s'" "vm_holds s' ys (KernelPageTable s') G"
    "\<forall>va. higher_half va \<longrightarrow> vm_translate s' (KernelPageTable s') va = kernel_space sy (HigherHalfDirectMapOffset s) maxp ka va"
    using initializeVirtualMemory_lemma[OF assms(1-4), of 0] assms(5) by auto
  then show ?thesis using mapped_user_writes[OF s'(2)] by auto
qed

theorem kernel_open_to_users_witness:
  "\<exists>s'. initializeVirtualMemory sample_symbols 0x3000 sample_boot = Inr s'
     \<and> vm_user_writes s' (KernelPageTable s') 0xFFFFFFFF80001234 \<and> vm_user_writes s' (KernelPageTable s') 0xFFFF800000002345"
  using kernel_open_to_users[OF sample_boot_facts(1,2,3), unfolded sample_boot_facts(4), OF boot_sample_layout]
  by (auto simp: kernel_space_def sample_symbols_def sample_address_def higher_half_def page_count_def word_le_nat_alt)

end
