(* ===== verification/Pci_Bus.thy ===== *)
theory Pci_Bus
  imports Kernel_Prelude
begin

text \<open>
  PCI configuration access and bus enumeration (\<^verbatim>\<open>src/Kernel/PCI.h\<close>, \<^verbatim>\<open>PCI.cpp\<close>). The configuration
  space is hardware: a function \<open>cfg\<close> from the value in the address port to the dword that the value
  port then shows. The enumeration calls itself through bridges, so it carries a bound on the
  depth. The lemmas show that the address encoding loses nothing, that a scan is the callback applied
  to the matching devices in order, and that it ends when every bridge leads to a higher bus, but
  not when a bridge leads back to its own.
\<close>

section \<open>Addresses\<close>

datatype Field = VendorID | DeviceID | Command | Status | RevisionID | ProgIF | Subclass | Class
  | CacheLineSize | LatencyTimer | HeaderType | Bist | Bar0 | Bar1 | Bar2 | Bar3 | Bar4 | Bar5
  | InterruptLine | InterruptPin | SecondaryBus

fun field_value :: "Field \<Rightarrow> u32" where
  "field_value VendorID = 0x00" | "field_value DeviceID = 0x02" | "field_value Command = 0x04"
| "field_value Status = 0x06" | "field_value RevisionID = 0x08" | "field_value ProgIF = 0x09"
| "field_value Subclass = 0x0A" | "field_value Class = 0x0B" | "field_value CacheLineSize = 0x0C"
| "field_value LatencyTimer = 0x0D" | "field_value HeaderType = 0x0E" | "field_value Bist = 0x0F"
| "field_value Bar0 = 0x10" | "field_value Bar1 = 0x14" | "field_value Bar2 = 0x18"
| "field_value Bar3 = 0x1C" | "field_value Bar4 = 0x20" | "field_value Bar5 = 0x24"
| "field_value InterruptLine = 0x3C" | "field_value InterruptPin = 0x3D" | "field_value SecondaryBus = 0x19"

definition Bridge :: u32 where "Bridge = 0x604"
definition PCINull :: u32 where "PCINull = 0xFFFF"
definition AddressPort :: u16 where "AddressPort = 0xCF8"
definition ValuePort :: u16 where "ValuePort = 0xCFC"

definition busOf :: "u32 \<Rightarrow> u32" where "busOf device = ucast (ucast (drop_bit 16 device) :: u8)"
definition slotOf :: "u32 \<Rightarrow> u32" where "slotOf device = ucast (ucast (drop_bit 8 device) :: u8)"
definition funcOf :: "u32 \<Rightarrow> u32" where "funcOf device = ucast (ucast device :: u8)"

definition addressOf :: "u32 \<Rightarrow> u32 \<Rightarrow> u32" where
  "addressOf device field = 0x80000000 OR push_bit 16 (busOf device) OR push_bit 11 (slotOf device)
     OR push_bit 8 (funcOf device) OR (field AND 0xFC)"

definition box :: "u32 \<Rightarrow> u32 \<Rightarrow> u32 \<Rightarrow> u32" where
  "box bus slot func = push_bit 16 bus OR push_bit 8 slot OR func"

section \<open>Ports\<close>

text \<open>
  \<open>pci_address\<close> is what was last written to the address port, \<open>pci_written\<close> the dwords written
  through the value port with their addresses, \<open>pci_context\<close> the context of the scan callback.
\<close>

record 'c pci_state =
  pci_address :: u32
  pci_written :: "(u32 \<times> u32) list"
  pci_context :: 'c

definition outl :: "u16 \<Rightarrow> u32 \<Rightarrow> 'c pci_state \<Rightarrow> 'c pci_state" where
  "outl port val s =
     (if port = AddressPort then s\<lparr>pci_address := val\<rparr>
      else if port = ValuePort then s\<lparr>pci_written := pci_written s @ [(pci_address s, val)]\<rparr> else s)"

type_synonym config_space = "u32 \<Rightarrow> u32"

definition inl :: "config_space \<Rightarrow> u16 \<Rightarrow> 'c pci_state \<Rightarrow> u32" where
  "inl cfg port s = drop_bit (8 * unat (port - ValuePort)) (cfg (pci_address s))"

definition ins :: "config_space \<Rightarrow> u16 \<Rightarrow> 'c pci_state \<Rightarrow> u16" where
  "ins cfg port s = ucast (drop_bit (8 * unat (port - ValuePort)) (cfg (pci_address s)))"

definition inb :: "config_space \<Rightarrow> u16 \<Rightarrow> 'c pci_state \<Rightarrow> u8" where
  "inb cfg port s = ucast (drop_bit (8 * unat (port - ValuePort)) (cfg (pci_address s)))"

definition writeField :: "u32 \<Rightarrow> u32 \<Rightarrow> nat \<Rightarrow> u32 \<Rightarrow> 'c pci_state \<Rightarrow> 'c pci_state" where
  "writeField device field sz val s = outl ValuePort val (outl AddressPort (addressOf device field) s)"

text \<open>The template argument of \<^verbatim>\<open>readField\<close> is an ordinary argument.\<close>

definition readField :: "config_space \<Rightarrow> nat \<Rightarrow> u32 \<Rightarrow> u32 \<Rightarrow> 'c pci_state \<Rightarrow> u32 \<times> 'c pci_state" where
  "readField cfg sz device field s =
     (let s1 = outl AddressPort (addressOf device field) s
      in (if sz = 1 then ucast (inb cfg (ValuePort + ucast (field AND 3)) s1)
          else if sz = 2 then ucast (ins cfg (ValuePort + ucast (field AND 2)) s1)
          else if sz = 4 then inl cfg ValuePort s1
          else 0xFFFF, s1))"

section \<open>Enumeration\<close>

definition findType :: "config_space \<Rightarrow> u32 \<Rightarrow> 'c pci_state \<Rightarrow> u16 \<times> 'c pci_state" where
  "findType cfg dev s =
     (let (c, s1) = readField cfg 1 dev (field_value Class) s;
          (b, s2) = readField cfg 1 dev (field_value Subclass) s1
      in (ucast (push_bit 8 c OR b), s2))"

type_synonym 'c scan_callback = "u32 \<Rightarrow> u16 \<Rightarrow> u16 \<Rightarrow> 'c \<Rightarrow> 'c"

definition scanHit :: "config_space \<Rightarrow> 'c scan_callback \<Rightarrow> u32 \<Rightarrow> 'c pci_state \<Rightarrow> 'c pci_state" where
  "scanHit cfg f dev s =
     (let (vid, s1) = readField cfg 2 dev (field_value VendorID) s;
          (did, s2) = readField cfg 2 dev (field_value DeviceID) s1
      in s2\<lparr>pci_context := f dev (ucast vid) (ucast did) (pci_context s2)\<rparr>)"

text \<open>
  \<open>bus_scan\<close> stands for the call of \<^verbatim>\<open>scanBus\<close> on the bus behind a bridge; \<open>ty\<close> is the \<^verbatim>\<open>int type\<close>,
  with \<open>-1\<close> for any.
\<close>

definition scanFunc :: "(u32 \<Rightarrow> 'c pci_state \<Rightarrow> 'c pci_state option) \<Rightarrow> config_space \<Rightarrow> 'c scan_callback \<Rightarrow> int
    \<Rightarrow> u32 \<Rightarrow> u32 \<Rightarrow> u32 \<Rightarrow> 'c pci_state \<Rightarrow> 'c pci_state option" where
  "scanFunc bus_scan cfg f ty bus slot func s =
     (let dev = box bus slot func;
          s1 = (if ty = - 1 then scanHit cfg f dev s
                else let (t, s') = findType cfg dev s in if ty = uint t then scanHit cfg f dev s' else s');
          (t, s2) = findType cfg dev s1
      in if ucast t = Bridge then
           let (sec, s3) = readField cfg 1 dev (field_value SecondaryBus) s2 in bus_scan sec s3
         else Some s2)"

fun scanFuncs :: "(u32 \<Rightarrow> 'c pci_state \<Rightarrow> 'c pci_state option) \<Rightarrow> config_space \<Rightarrow> 'c scan_callback \<Rightarrow> int
    \<Rightarrow> u32 \<Rightarrow> u32 \<Rightarrow> nat list \<Rightarrow> 'c pci_state \<Rightarrow> 'c pci_state option" where
  "scanFuncs bus_scan cfg f ty bus slot [] s = Some s"
| "scanFuncs bus_scan cfg f ty bus slot (func # funcs) s =
     (let (v, s1) = readField cfg 2 (box bus slot (of_nat func)) (field_value VendorID) s
      in Option.bind (if v \<noteq> PCINull then scanFunc bus_scan cfg f ty bus slot (of_nat func) s1 else Some s1)
           (scanFuncs bus_scan cfg f ty bus slot funcs))"

definition scanSlot :: "(u32 \<Rightarrow> 'c pci_state \<Rightarrow> 'c pci_state option) \<Rightarrow> config_space \<Rightarrow> 'c scan_callback \<Rightarrow> int
    \<Rightarrow> u32 \<Rightarrow> u32 \<Rightarrow> 'c pci_state \<Rightarrow> 'c pci_state option" where
  "scanSlot bus_scan cfg f ty bus slot s =
     (let dev = box bus slot 0; (v, s1) = readField cfg 2 dev (field_value VendorID) s
      in if v = PCINull then Some s1
         else Option.bind (scanFunc bus_scan cfg f ty bus slot 0 s1) (\<lambda>s2.
                let (h, s3) = readField cfg 1 dev (field_value HeaderType) s2
                in if h = 0 then Some s3 else scanFuncs bus_scan cfg f ty bus slot [1 ..< 8] s3))"

fun scanSlots :: "(u32 \<Rightarrow> 'c pci_state \<Rightarrow> 'c pci_state option) \<Rightarrow> config_space \<Rightarrow> 'c scan_callback \<Rightarrow> int
    \<Rightarrow> u32 \<Rightarrow> nat list \<Rightarrow> 'c pci_state \<Rightarrow> 'c pci_state option" where
  "scanSlots bus_scan cfg f ty bus [] s = Some s"
| "scanSlots bus_scan cfg f ty bus (slot # slots) s =
     Option.bind (scanSlot bus_scan cfg f ty bus (of_nat slot) s) (scanSlots bus_scan cfg f ty bus slots)"

fun scanBus :: "nat \<Rightarrow> config_space \<Rightarrow> 'c scan_callback \<Rightarrow> int \<Rightarrow> u32 \<Rightarrow> 'c pci_state \<Rightarrow> 'c pci_state option" where
  "scanBus 0 cfg f ty bus s = None"
| "scanBus (Suc n) cfg f ty bus s = scanSlots (scanBus n cfg f ty) cfg f ty bus [0 ..< 32] s"

text \<open>The loop over the functions of device zero, which are the host bridges of as many buses.\<close>

fun scanHosts :: "nat \<Rightarrow> config_space \<Rightarrow> 'c scan_callback \<Rightarrow> int \<Rightarrow> nat list \<Rightarrow> bool \<Rightarrow> 'c pci_state
    \<Rightarrow> (bool \<times> 'c pci_state) option" where
  "scanHosts n cfg f ty [] hit s = Some (hit, s)"
| "scanHosts n cfg f ty (func # funcs) hit s =
     (let (v, s1) = readField cfg 2 (box 0 0 (of_nat func)) (field_value VendorID) s
      in if v \<noteq> PCINull
         then Option.bind (scanBus n cfg f ty (of_nat func) s1) (scanHosts n cfg f ty funcs True)
         else Some (hit, s1))"

fun scanAll :: "nat \<Rightarrow> config_space \<Rightarrow> 'c scan_callback \<Rightarrow> int \<Rightarrow> nat list \<Rightarrow> 'c pci_state \<Rightarrow> 'c pci_state option" where
  "scanAll n cfg f ty [] s = Some s"
| "scanAll n cfg f ty (bus # buses) s =
     Option.bind (scanSlots (scanBus n cfg f ty) cfg f ty (of_nat bus) [0 ..< 32] s) (scanAll n cfg f ty buses)"

definition scan :: "nat \<Rightarrow> config_space \<Rightarrow> 'c scan_callback \<Rightarrow> int \<Rightarrow> 'c pci_state \<Rightarrow> 'c pci_state option" where
  "scan n cfg f ty s =
     (let (h, s1) = readField cfg 1 0 (field_value HeaderType) s
      in if h AND 0x80 = 0 then scanBus n cfg f ty 0 s1
         else Option.bind (scanHosts n cfg f ty [0 ..< 8] False s1) (\<lambda>(hit, s2).
                if \<not> hit then scanAll n cfg f ty [0 ..< 256] s2 else Some s2))"

section \<open>Reading the configuration space\<close>

text \<open>The value that \<^verbatim>\<open>readField\<close> returns, which depends on the configuration space alone.\<close>

definition peek :: "config_space \<Rightarrow> nat \<Rightarrow> u32 \<Rightarrow> u32 \<Rightarrow> u32" where
  "peek cfg sz dev field =
     (let d = cfg (addressOf dev field)
      in if sz = 1 then take_bit 8 (drop_bit (8 * unat (field AND 3)) d)
         else if sz = 2 then take_bit 16 (drop_bit (8 * unat (field AND 2)) d)
         else if sz = 4 then d else 0xFFFF)"

lemma and_small_take_bit:
  fixes field :: u32
  shows "take_bit 16 (unat (field AND 3)) = unat (field AND 3)" "take_bit 16 (unat (field AND 2)) = unat (field AND 2)"
proof -
  have "take_bit 16 (field AND 3) = field AND 3" "take_bit 16 (field AND 2) = field AND 2"
    by (simp_all add: take_bit_and) (rule bit_word_eqI; auto simp: bit_simps bit_2_iff bit_numeral_rec split: nat.splits)+
  then show "take_bit 16 (unat (field AND 3)) = unat (field AND 3)" "take_bit 16 (unat (field AND 2)) = unat (field AND 2)"
    by (metis unsigned_take_bit_eq)+
qed

lemma readField_peek: "readField cfg sz dev field s = (peek cfg sz dev field, s\<lparr>pci_address := addressOf dev field\<rparr>)"
  by (auto simp: readField_def peek_def outl_def inb_def ins_def inl_def Let_def and_small_take_bit
      AddressPort_def ValuePort_def unsigned_ucast_eq)

lemma box_parts:
  assumes "bus < 2 ^ 8" and "slot < 2 ^ 8" and "func < 2 ^ 8"
  shows "busOf (box bus slot func) = bus" "slotOf (box bus slot func) = slot" "funcOf (box bus slot func) = func"
proof -
  have b: "\<not> bit bus n" "\<not> bit slot n" "\<not> bit func n" if "8 \<le> n" for n
    using that assms by (simp_all add: word_lt_iff_bits[of 8, simplified])
  show "busOf (box bus slot func) = bus" "slotOf (box bus slot func) = slot" "funcOf (box bus slot func) = func"
    by (rule bit_word_eqI; use b in \<open>auto simp: busOf_def slotOf_def funcOf_def box_def bit_simps not_le intro: ccontr\<close>)+
qed

lemma address_parts:
  assumes "bus < 2 ^ 8" and "slot < 2 ^ 5" and "func < 2 ^ 3" and "field < 2 ^ 8"
  shows "take_bit 8 (drop_bit 16 (addressOf (box bus slot func) field)) = bus"
    "take_bit 5 (drop_bit 11 (addressOf (box bus slot func) field)) = slot"
    "take_bit 3 (drop_bit 8 (addressOf (box bus slot func) field)) = func"
    "take_bit 8 (addressOf (box bus slot func) field) = field AND 0xFC"
proof -
  let ?d = "box bus slot func"
  have b: "\<not> bit bus n" if "8 \<le> n" for n using that assms(1) by (simp add: word_lt_iff_bits[of 8, simplified])
  have sl: "\<not> bit slot n" if "5 \<le> n" for n using that assms(2) by (simp add: word_lt_iff_bits[of 5, simplified])
  have fu: "\<not> bit func n" if "3 \<le> n" for n using that assms(3) by (simp add: word_lt_iff_bits[of 3, simplified])
  have fi: "\<not> bit field n" if "8 \<le> n" for n using that assms(4) by (simp add: word_lt_iff_bits[of 8, simplified])
  have lt: "slot < 2 ^ 8" "func < 2 ^ 8" using assms by (auto simp: word_less_nat_alt)
  have "(0x80000000 :: u32) = push_bit 31 1" by simp
  then have hi: "bit (0x80000000 :: u32) n \<longleftrightarrow> n = 31" for n
    by (simp only: bit_push_bit_iff) (auto simp: bit_1_iff)
  have a: "addressOf ?d field = 0x80000000 OR push_bit 16 bus OR push_bit 11 slot OR push_bit 8 func OR (field AND 0xFC)"
    by (simp add: addressOf_def box_parts[OF assms(1) lt])
  show "take_bit 8 (drop_bit 16 (addressOf ?d field)) = bus"
    "take_bit 5 (drop_bit 11 (addressOf ?d field)) = slot"
    "take_bit 3 (drop_bit 8 (addressOf ?d field)) = func"
    "take_bit 8 (addressOf ?d field) = field AND 0xFC"
    unfolding a
    by (rule bit_word_eqI; use b sl fu fi in \<open>auto simp: bit_simps hi not_le intro: ccontr\<close>)+
qed

text \<open>
  PCI addressing is lossless: the bus, slot and function packed by \<^verbatim>\<open>box\<close> are read back by
  \<^verbatim>\<open>busOf\<close>, \<^verbatim>\<open>slotOf\<close> and \<^verbatim>\<open>funcOf\<close>, the configuration address has them in bits 16, 11 and 8 with the
  dword offset below and the enable bit above, so that devices never share an address, and \<^verbatim>\<open>readField\<close>
  returns the bytes of the configuration dword that the field names.
\<close>

theorem pci_addressing:
  assumes "bus < 2 ^ 8" and "slot < 2 ^ 5" and "func < 2 ^ 3" and "field < 2 ^ 8"
  shows "busOf (box bus slot func) = bus \<and> slotOf (box bus slot func) = slot \<and> funcOf (box bus slot func) = func
    \<and> take_bit 8 (drop_bit 16 (addressOf (box bus slot func) field)) = bus
    \<and> take_bit 5 (drop_bit 11 (addressOf (box bus slot func) field)) = slot
    \<and> take_bit 3 (drop_bit 8 (addressOf (box bus slot func) field)) = func
    \<and> take_bit 8 (addressOf (box bus slot func) field) = field AND 0xFC
    \<and> fst (readField cfg 1 (box bus slot func) field s)
        = take_bit 8 (drop_bit (8 * unat (field AND 3)) (cfg (addressOf (box bus slot func) field)))"
proof -
  have "slot < 2 ^ 8" "func < 2 ^ 8" using assms by (auto simp: word_less_nat_alt)
  then show ?thesis
    using box_parts[OF assms(1)] address_parts[OF assms] by (simp add: readField_peek peek_def)
qed

theorem pci_addressing_witness:
  "busOf (box 3 31 7) = 3 \<and> slotOf (box 3 31 7) = 31 \<and> funcOf (box 3 31 7) = 7
    \<and> take_bit 8 (drop_bit 16 (addressOf (box 3 31 7) 0x0B)) = 3
    \<and> fst (readField (\<lambda>_. 0x06040000) 1 (box 3 31 7) 0x0B \<lparr>pci_address = 0, pci_written = [], pci_context = ()\<rparr>) = 6"
  using pci_addressing[of 3 31 7 "0x0B" "\<lambda>_. 0x06040000" "\<lparr>pci_address = 0, pci_written = [], pci_context = ()\<rparr>"]
  by (simp add: take_bit_eq_mod drop_bit_eq_div)

section \<open>What a scan visits\<close>

text \<open>
  The reference: the functions of a bus that answer, in order, and the walk through the bridges below
  it. The walk knows neither ports nor callbacks.
\<close>

definition present :: "config_space \<Rightarrow> u32 \<Rightarrow> bool" where
  "present cfg dev \<longleftrightarrow> peek cfg 2 dev (field_value VendorID) \<noteq> PCINull"

definition type_of :: "config_space \<Rightarrow> u32 \<Rightarrow> u16" where
  "type_of cfg dev = ucast (push_bit 8 (peek cfg 1 dev (field_value Class)) OR peek cfg 1 dev (field_value Subclass))"

definition is_bridge :: "config_space \<Rightarrow> u32 \<Rightarrow> bool" where
  "is_bridge cfg dev \<longleftrightarrow> ucast (type_of cfg dev) = Bridge"

definition secondary :: "config_space \<Rightarrow> u32 \<Rightarrow> u32" where
  "secondary cfg dev = peek cfg 1 dev (field_value SecondaryBus)"

definition slot_devices :: "config_space \<Rightarrow> u32 \<Rightarrow> u32 \<Rightarrow> u32 list" where
  "slot_devices cfg bus slot =
     (if \<not> present cfg (box bus slot 0) then []
      else box bus slot 0 #
        (if peek cfg 1 (box bus slot 0) (field_value HeaderType) = 0 then []
         else List.filter (present cfg) (List.map (\<lambda>func. box bus slot (of_nat func)) [1 ..< 8])))"

definition bus_devices :: "config_space \<Rightarrow> u32 \<Rightarrow> u32 list" where
  "bus_devices cfg bus = concat (List.map (\<lambda>slot. slot_devices cfg bus (of_nat slot)) [0 ..< 32])"

fun walk_devices :: "(u32 \<Rightarrow> u32 list option) \<Rightarrow> config_space \<Rightarrow> u32 list \<Rightarrow> u32 list option" where
  "walk_devices below cfg [] = Some []"
| "walk_devices below cfg (dev # devs) =
     Option.bind (if is_bridge cfg dev then below (secondary cfg dev) else Some []) (\<lambda>vs.
       map_option (\<lambda>ws. dev # vs @ ws) (walk_devices below cfg devs))"

fun walk_bus :: "nat \<Rightarrow> config_space \<Rightarrow> u32 \<Rightarrow> u32 list option" where
  "walk_bus 0 cfg bus = None"
| "walk_bus (Suc n) cfg bus = walk_devices (walk_bus n cfg) cfg (bus_devices cfg bus)"

definition visit :: "config_space \<Rightarrow> 'c scan_callback \<Rightarrow> int \<Rightarrow> u32 \<Rightarrow> 'c \<Rightarrow> 'c" where
  "visit cfg f ty dev c =
     (if ty = - 1 \<or> ty = uint (type_of cfg dev)
      then f dev (ucast (peek cfg 2 dev (field_value VendorID))) (ucast (peek cfg 2 dev (field_value DeviceID))) c
      else c)"

text \<open>\<open>walks\<close> says that a piece of the scan calls back on just the devices of a list, and returns if there is one.\<close>

definition walks :: "config_space \<Rightarrow> 'c scan_callback \<Rightarrow> int \<Rightarrow> ('c pci_state \<Rightarrow> 'c pci_state option) \<Rightarrow> u32 list option \<Rightarrow> bool" where
  "walks cfg f ty g ov \<longleftrightarrow> (\<forall>s. case ov of
      None \<Rightarrow> g s = None
    | Some vs \<Rightarrow> \<exists>a. g s = Some (s\<lparr>pci_address := a, pci_context := fold (visit cfg f ty) vs (pci_context s)\<rparr>))"

lemma walks_skip: "walks cfg f ty (\<lambda>s. Some (s\<lparr>pci_address := a\<rparr>)) (Some [])"
  by (auto simp: walks_def)

lemma walks_nil:
  fixes f :: "'c scan_callback"
  shows "walks cfg f ty Some (Some [])"
proof -
  have "\<exists>a. s = s\<lparr>pci_address := a, pci_context := pci_context s\<rparr>" for s :: "'c pci_state"
    by (intro exI[of _ "pci_address s"]) simp
  then show ?thesis by (simp add: walks_def)
qed

lemma walks_bind:
  assumes "walks cfg f ty g ov" and "walks cfg f ty h ow"
  shows "walks cfg f ty (\<lambda>s. Option.bind (g s) h) (Option.bind ov (\<lambda>vs. map_option ((@) vs) ow))"
  unfolding walks_def
proof
  fix s
  show "case Option.bind ov (\<lambda>vs. map_option ((@) vs) ow) of None \<Rightarrow> Option.bind (g s) h = None
    | Some vs \<Rightarrow> \<exists>a. Option.bind (g s) h = Some (s\<lparr>pci_address := a, pci_context := fold (visit cfg f ty) vs (pci_context s)\<rparr>)"
  proof (cases ov)
    case None
    then show ?thesis using assms(1) by (simp add: walks_def)
  next
    case (Some vs)
    then obtain a where g: "g s = Some (s\<lparr>pci_address := a, pci_context := fold (visit cfg f ty) vs (pci_context s)\<rparr>)"
      using assms(1) by (fastforce simp: walks_def)
    show ?thesis
      using assms(2)[unfolded walks_def, rule_format, of "s\<lparr>pci_address := a, pci_context := fold (visit cfg f ty) vs (pci_context s)\<rparr>"]
      by (auto simp: Some g split: option.splits)
  qed
qed

lemma walks_Some_bind:
  "walks cfg f ty h ow \<Longrightarrow> walks cfg f ty (\<lambda>s. h (s\<lparr>pci_address := a\<rparr>)) ow"
  using walks_bind[OF walks_skip, of cfg f ty h ow a] by (simp add: option.map_id0[unfolded id_def] comp_def map_option_case split: option.splits)

lemma walk_devices_append:
  "walk_devices below cfg (xs @ ys)
     = Option.bind (walk_devices below cfg xs) (\<lambda>vs. map_option ((@) vs) (walk_devices below cfg ys))"
  by (induction xs) (auto simp: bind_eq_None_conv map_option_case split: option.splits bind_splits if_splits)

lemma walk_devices_Cons:
  "walk_devices below cfg (dev # devs)
     = Option.bind (walk_devices below cfg [dev]) (\<lambda>vs. map_option ((@) vs) (walk_devices below cfg devs))"
  using walk_devices_append[of below cfg "[dev]" devs] by simp

lemma findType_peek:
  "findType cfg dev s = (type_of cfg dev, s\<lparr>pci_address := addressOf dev (field_value Subclass)\<rparr>)"
  by (simp add: findType_def readField_peek type_of_def)

lemma scanHit_visit:
  "ty = - 1 \<or> ty = uint (type_of cfg dev)
     \<Longrightarrow> \<exists>a. scanHit cfg f dev s = s\<lparr>pci_address := a, pci_context := visit cfg f ty dev (pci_context s)\<rparr>"
  by (auto simp: scanHit_def readField_peek visit_def)

lemma pci_update_commute: "s\<lparr>pci_context := c, pci_address := a\<rparr> = s\<lparr>pci_address := a, pci_context := c\<rparr>"
  by simp

lemma scanFunc_visit:
  assumes "dev = box bus slot func"
  shows "\<exists>a. scanFunc bus_scan cfg f ty bus slot func s
     = (let s' = s\<lparr>pci_address := a, pci_context := visit cfg f ty dev (pci_context s)\<rparr>
        in if is_bridge cfg dev then bus_scan (secondary cfg dev) s' else Some s')"
proof (cases "ty = - 1 \<or> ty = uint (type_of cfg dev)")
  case True
  define s0 where "s0 = (if ty = - 1 then s else s\<lparr>pci_address := addressOf dev (field_value Subclass)\<rparr>)"
  obtain a where h: "scanHit cfg f dev s0 = s0\<lparr>pci_address := a, pci_context := visit cfg f ty dev (pci_context s0)\<rparr>"
    using scanHit_visit[OF True] by blast
  have "(if ty = - 1 then scanHit cfg f dev s
         else let (t, s') = findType cfg dev s in if ty = uint t then scanHit cfg f dev s' else s') = scanHit cfg f dev s0"
    using True by (auto simp: s0_def findType_peek)
  also have "\<dots> = s\<lparr>pci_address := a, pci_context := visit cfg f ty dev (pci_context s)\<rparr>"
    unfolding h by (simp add: s0_def)
  finally show ?thesis
    by (simp add: scanFunc_def flip: assms)
       (auto simp: findType_peek readField_peek is_bridge_def secondary_def Let_def pci_update_commute)
next
  case False
  then show ?thesis
    by (auto simp: scanFunc_def assms findType_peek readField_peek is_bridge_def secondary_def Let_def visit_def)
qed

lemma walks_scanFunc:
  assumes "\<forall>b. walks cfg f ty (bus_scan b) (below b)"
  shows "walks cfg f ty (scanFunc bus_scan cfg f ty bus slot func) (walk_devices below cfg [box bus slot func])"
  unfolding walks_def
proof
  fix s
  let ?d = "box bus slot func"
  obtain a where e: "scanFunc bus_scan cfg f ty bus slot func s
     = (let s' = s\<lparr>pci_address := a, pci_context := visit cfg f ty ?d (pci_context s)\<rparr>
        in if is_bridge cfg ?d then bus_scan (secondary cfg ?d) s' else Some s')"
    using scanFunc_visit[OF refl] by blast
  show "case walk_devices below cfg [?d] of None \<Rightarrow> scanFunc bus_scan cfg f ty bus slot func s = None
    | Some vs \<Rightarrow> \<exists>a. scanFunc bus_scan cfg f ty bus slot func s
        = Some (s\<lparr>pci_address := a, pci_context := fold (visit cfg f ty) vs (pci_context s)\<rparr>)"
    using assms[THEN spec, of "secondary cfg ?d", unfolded walks_def, rule_format,
        of "s\<lparr>pci_address := a, pci_context := visit cfg f ty ?d (pci_context s)\<rparr>"]
    by (auto simp: e Let_def split: option.splits)
qed

lemma walks_scanFuncs:
  assumes "\<forall>b. walks cfg f ty (bus_scan b) (below b)"
  shows "walks cfg f ty (scanFuncs bus_scan cfg f ty bus slot funcs)
    (walk_devices below cfg (List.filter (present cfg) (List.map (\<lambda>func. box bus slot (of_nat func)) funcs)))"
proof (induction funcs)
  case Nil
  show ?case using walks_nil by (simp add: walks_def)
next
  case (Cons func funcs)
  let ?d = "box bus slot (of_nat func)" and ?a = "addressOf (box bus slot (of_nat func)) (field_value VendorID)"
  show ?case
  proof (cases "present cfg ?d")
    case True
    have "scanFuncs bus_scan cfg f ty bus slot (func # funcs)
      = (\<lambda>s. Option.bind (scanFunc bus_scan cfg f ty bus slot (of_nat func) (s\<lparr>pci_address := ?a\<rparr>))
               (scanFuncs bus_scan cfg f ty bus slot funcs))"
      using True by (simp add: fun_eq_iff readField_peek present_def)
    then show ?thesis
      using walks_Some_bind[OF walks_bind[OF walks_scanFunc[OF assms] Cons.IH], where a = ?a] True
      unfolding list.map filter.simps if_P[OF True] by (subst walk_devices_Cons) simp
  next
    case False
    have "scanFuncs bus_scan cfg f ty bus slot (func # funcs)
      = (\<lambda>s. scanFuncs bus_scan cfg f ty bus slot funcs (s\<lparr>pci_address := ?a\<rparr>))"
      using False by (simp add: fun_eq_iff readField_peek present_def)
    then show ?thesis using walks_Some_bind[OF Cons.IH] False by simp
  qed
qed

lemma walks_scanSlot:
  assumes "\<forall>b. walks cfg f ty (bus_scan b) (below b)"
  shows "walks cfg f ty (scanSlot bus_scan cfg f ty bus slot) (walk_devices below cfg (slot_devices cfg bus slot))"
proof (cases "present cfg (box bus slot 0)")
  case False
  then have "scanSlot bus_scan cfg f ty bus slot = (\<lambda>s. Some (s\<lparr>pci_address := addressOf (box bus slot 0) (field_value VendorID)\<rparr>))"
    by (simp add: scanSlot_def fun_eq_iff readField_peek present_def)
  then show ?thesis using False walks_skip by (simp add: slot_devices_def)
next
  case True
  let ?d = "box bus slot 0" and ?h = "peek cfg 1 (box bus slot 0) (field_value HeaderType)"
  let ?rest = "if ?h = 0 then [] else List.filter (present cfg) (List.map (\<lambda>func. box bus slot (of_nat func)) [1 ..< 8])"
  define g where "g s = (let (h, s3) = readField cfg 1 ?d (field_value HeaderType) s
    in if h = 0 then Some s3 else scanFuncs bus_scan cfg f ty bus slot [1 ..< 8] s3)" for s
  have "walks cfg f ty g (walk_devices below cfg ?rest)"
    using walks_Some_bind[OF walks_scanFuncs[OF assms, where bus = bus and slot = slot and funcs = "[1 ..< 8]"]] walks_skip
    by (cases "?h = 0") (simp_all only: g_def[abs_def] readField_peek Let_def prod.case if_True if_False simp_thms walk_devices.simps)
  from walks_Some_bind[OF walks_bind[OF walks_scanFunc[OF assms, where bus = bus and slot = slot and func = 0] this]]
  have "walks cfg f ty (\<lambda>s. Option.bind (scanFunc bus_scan cfg f ty bus slot 0 (s\<lparr>pci_address := addressOf ?d (field_value VendorID)\<rparr>)) g)
     (walk_devices below cfg (?d # ?rest))"
    by (subst walk_devices_Cons) blast
  moreover have "scanSlot bus_scan cfg f ty bus slot
     = (\<lambda>s. Option.bind (scanFunc bus_scan cfg f ty bus slot 0 (s\<lparr>pci_address := addressOf ?d (field_value VendorID)\<rparr>)) g)"
    using True by (simp add: scanSlot_def g_def[abs_def] fun_eq_iff readField_peek present_def Let_def)
  ultimately show ?thesis using True by (simp only: slot_devices_def not_True_eq_False if_False)
qed

lemma walks_scanSlots:
  assumes "\<forall>b. walks cfg f ty (bus_scan b) (below b)"
  shows "walks cfg f ty (scanSlots bus_scan cfg f ty bus slots)
    (walk_devices below cfg (concat (List.map (\<lambda>slot. slot_devices cfg bus (of_nat slot)) slots)))"
proof (induction slots)
  case Nil
  show ?case using walks_nil by (simp add: walks_def)
next
  case (Cons slot slots)
  from walks_bind[OF walks_scanSlot[OF assms] this]
  have "walks cfg f ty (\<lambda>s. Option.bind (scanSlot bus_scan cfg f ty bus (of_nat slot) s) (scanSlots bus_scan cfg f ty bus slots))
    (walk_devices below cfg (concat (List.map (\<lambda>slot. slot_devices cfg bus (of_nat slot)) (slot # slots))))"
    by (simp add: walk_devices_append)
  then show ?case by (simp add: walks_def)
qed

lemma walks_scanBus: "walks cfg f ty (scanBus n cfg f ty bus) (walk_bus n cfg bus)"
proof (induction n arbitrary: bus)
  case 0
  then show ?case by (simp add: walks_def)
next
  case (Suc n)
  have "\<forall>b. walks cfg f ty (scanBus n cfg f ty b) (walk_bus n cfg b)" using Suc.IH by blast
  from walks_scanSlots[OF this, where bus = bus and slots = "[0 ..< 32]"] show ?case
    by (simp only: walks_def scanBus.simps walk_bus.simps bus_devices_def simp_thms)
qed

section \<open>When a scan ends\<close>

definition bridges_lead_down :: "config_space \<Rightarrow> bool" where
  "bridges_lead_down cfg \<longleftrightarrow> (\<forall>bus \<in> set [0 ..< 256]. \<forall>dev \<in> set (bus_devices cfg (of_nat bus)).
     is_bridge cfg dev \<longrightarrow> bus < unat (secondary cfg dev))"

definition scan_roots :: "config_space \<Rightarrow> nat list" where
  "scan_roots cfg =
     (if peek cfg 1 0 (field_value HeaderType) AND 0x80 = 0 then [0]
      else let fs = takeWhile (\<lambda>func. present cfg (box 0 0 (of_nat func))) [0 ..< 8]
           in if fs = [] then [0 ..< 256] else fs)"

fun walk_buses :: "nat \<Rightarrow> config_space \<Rightarrow> nat list \<Rightarrow> u32 list option" where
  "walk_buses n cfg [] = Some []"
| "walk_buses n cfg (bus # buses) =
     Option.bind (walk_bus n cfg (of_nat bus)) (\<lambda>vs. map_option ((@) vs) (walk_buses n cfg buses))"

lemma secondary_lt: "unat (secondary cfg dev) < 256"
  by (simp add: secondary_def peek_def Let_def unsigned_take_bit_eq) (simp add: take_bit_eq_mod)

lemma walk_devices_total:
  "(\<And>dev. dev \<in> set devs \<Longrightarrow> is_bridge cfg dev \<Longrightarrow> \<exists>vs. below (secondary cfg dev) = Some vs)
     \<Longrightarrow> \<exists>vs. walk_devices below cfg devs = Some vs"
  by (induction devs) fastforce+

lemma walk_devices_None:
  "dev \<in> set devs \<Longrightarrow> is_bridge cfg dev \<Longrightarrow> below (secondary cfg dev) = None \<Longrightarrow> walk_devices below cfg devs = None"
  by (induction devs) (auto simp: bind_eq_None_conv)

lemma walk_devices_mono:
  "(\<And>b v. below b = Some v \<Longrightarrow> below' b = Some v) \<Longrightarrow> walk_devices below cfg devs = Some vs
     \<Longrightarrow> walk_devices below' cfg devs = Some vs"
  by (induction devs arbitrary: vs) (fastforce simp: bind_eq_Some_conv split: if_splits)+

lemma walk_bus_Suc: "walk_bus n cfg bus = Some vs \<Longrightarrow> walk_bus (Suc n) cfg bus = Some vs"
proof (induction n arbitrary: bus vs)
  case (Suc n)
  have "walk_devices (walk_bus (Suc n) cfg) cfg (bus_devices cfg bus) = Some vs"
    by (rule walk_devices_mono[of "walk_bus n cfg"]) (use Suc in simp_all)
  then show ?case by (simp only: walk_bus.simps)
qed simp

lemma walk_bus_total:
  assumes "bridges_lead_down cfg" and "bus < 256" and "256 \<le> n + bus"
  shows "\<exists>vs. walk_bus n cfg (of_nat bus) = Some vs"
  using assms(2,3)
proof (induction n arbitrary: bus)
  case (Suc n)
  have "\<exists>vs. walk_bus n cfg (secondary cfg dev) = Some vs"
    if "dev \<in> set (bus_devices cfg (of_nat bus))" "is_bridge cfg dev" for dev
  proof -
    have "bus < unat (secondary cfg dev)" using that assms(1) Suc.prems(1) by (auto simp: bridges_lead_down_def)
    then show ?thesis using Suc.IH[of "unat (secondary cfg dev)"] secondary_lt[of cfg dev] Suc.prems by simp
  qed
  then show ?case by (simp add: walk_devices_total)
qed simp

lemma walk_bus_loop:
  assumes "dev \<in> set (bus_devices cfg bus)" and "is_bridge cfg dev" and "secondary cfg dev = bus"
  shows "walk_bus n cfg bus = None"
  by (induction n) (use assms in \<open>auto intro: walk_devices_None\<close>)

lemma walk_buses_total:
  assumes "bridges_lead_down cfg" and "\<forall>bus \<in> set buses. bus < 256"
  shows "\<exists>vs. walk_buses 256 cfg buses = Some vs"
  using assms(2) by (induction buses) (use walk_bus_total[OF assms(1), of _ 256] in fastforce)+

lemma scanBus_walk:
  assumes "walk_bus n cfg bus = Some us"
  shows "\<exists>a. scanBus n cfg f ty bus (s\<lparr>pci_address := b\<rparr>)
    = Some (s\<lparr>pci_address := a, pci_context := fold (visit cfg f ty) us (pci_context s)\<rparr>)"
  using walks_scanBus[of cfg f ty n bus, unfolded walks_def assms, simplified, rule_format, of "s\<lparr>pci_address := b\<rparr>"] by simp

lemma scanHosts_walks:
  assumes "walk_buses n cfg (takeWhile (\<lambda>func. present cfg (box 0 0 (of_nat func))) funcs) = Some vs"
  shows "\<exists>a. scanHosts n cfg f ty funcs hit s
    = Some (hit \<or> takeWhile (\<lambda>func. present cfg (box 0 0 (of_nat func))) funcs \<noteq> [],
            s\<lparr>pci_address := a, pci_context := fold (visit cfg f ty) vs (pci_context s)\<rparr>)"
  using assms
proof (induction funcs arbitrary: hit s vs)
  case Nil
  then show ?case by (auto intro: exI[of _ "pci_address s"])
next
  case (Cons func funcs)
  show ?case
  proof (cases "present cfg (box 0 0 (of_nat func))")
    case True
    then obtain us ws where w: "walk_bus n cfg (of_nat func) = Some us" "vs = us @ ws"
        "walk_buses n cfg (takeWhile (\<lambda>func. present cfg (box 0 0 (of_nat func))) funcs) = Some ws"
      using Cons.prems by (auto simp: bind_eq_Some_conv)
    obtain a where "scanBus n cfg f ty (of_nat func) (s\<lparr>pci_address := addressOf (box 0 0 (of_nat func)) (field_value VendorID)\<rparr>)
        = Some (s\<lparr>pci_address := a, pci_context := fold (visit cfg f ty) us (pci_context s)\<rparr>)"
      using scanBus_walk[OF w(1)] by blast
    then show ?thesis
      using Cons.IH[OF w(3), of True "s\<lparr>pci_address := a, pci_context := fold (visit cfg f ty) us (pci_context s)\<rparr>"] True w(2)
      by (simp add: readField_peek present_def)
  next
    case False
    then show ?thesis using Cons.prems by (auto simp: readField_peek present_def)
  qed
qed

lemma scanAll_walks:
  assumes "walk_buses n cfg buses = Some vs"
  shows "\<exists>a. scanAll n cfg f ty buses s
    = Some (s\<lparr>pci_address := a, pci_context := fold (visit cfg f ty) vs (pci_context s)\<rparr>)"
  using assms
proof (induction buses arbitrary: s vs)
  case Nil
  then show ?case by (auto intro: exI[of _ "pci_address s"])
next
  case (Cons bus buses)
  then obtain us ws where w: "walk_bus n cfg (of_nat bus) = Some us" "vs = us @ ws" "walk_buses n cfg buses = Some ws"
    by (auto simp: bind_eq_Some_conv)
  obtain a where "scanBus (Suc n) cfg f ty (of_nat bus) s
      = Some (s\<lparr>pci_address := a, pci_context := fold (visit cfg f ty) us (pci_context s)\<rparr>)"
    using walks_scanBus[of cfg f ty "Suc n" "of_nat bus"] walk_bus_Suc[OF w(1)] by (fastforce simp: walks_def)
  then show ?case
    using Cons.IH[OF w(3), of "s\<lparr>pci_address := a, pci_context := fold (visit cfg f ty) us (pci_context s)\<rparr>"] w(2) by simp
qed

lemma scan_roots_lt: "bus \<in> set (scan_roots cfg) \<Longrightarrow> bus < 256"
  by (auto simp: scan_roots_def Let_def split: if_splits dest!: set_takeWhileD)

lemma scan_walks:
  assumes "walk_buses n cfg (scan_roots cfg) = Some vs"
  shows "\<exists>a. scan n cfg f ty s = Some (s\<lparr>pci_address := a, pci_context := fold (visit cfg f ty) vs (pci_context s)\<rparr>)"
proof (cases "peek cfg 1 0 (field_value HeaderType) AND 0x80 = 0")
  case True
  then have "walk_bus n cfg 0 = Some vs"
    using assms by (auto simp: scan_roots_def bind_eq_Some_conv)
  from scanBus_walk[OF this] True show ?thesis by (simp add: scan_def readField_peek)
next
  case False
  let ?fs = "takeWhile (\<lambda>func. present cfg (box 0 0 (of_nat func))) [0 ..< 8]"
  let ?s = "s\<lparr>pci_address := addressOf 0 (field_value HeaderType)\<rparr>"
  have e: "scan n cfg f ty s = Option.bind (scanHosts n cfg f ty [0 ..< 8] False ?s) (\<lambda>(hit, s2).
                if \<not> hit then scanAll n cfg f ty [0 ..< 256] s2 else Some s2)"
    using False by (simp only: scan_def readField_peek Let_def prod.case if_False)
  show ?thesis
  proof (cases "?fs = []")
    case True
    then have "walk_buses n cfg [0 ..< 256] = Some vs" "walk_buses n cfg ?fs = Some []"
      using assms False by (simp_all only: scan_roots_def Let_def if_False if_True simp_thms takeWhile.simps walk_buses.simps)
    obtain a where "scanHosts n cfg f ty [0 ..< 8] False ?s = Some (False, s\<lparr>pci_address := a\<rparr>)"
      using scanHosts_walks[OF \<open>walk_buses n cfg ?fs = Some []\<close>, of f ty False ?s] True by auto
    with scanAll_walks[OF \<open>walk_buses n cfg [0 ..< 256] = Some vs\<close>, of f ty "s\<lparr>pci_address := a\<rparr>"]
    show ?thesis by (simp add: e)
  next
    case False2: False
    then have "walk_buses n cfg ?fs = Some vs"
      using assms False by (simp only: scan_roots_def Let_def if_False)
    from scanHosts_walks[OF this, of f ty False ?s] show ?thesis unfolding e using False2 by fastforce
  qed
qed

text \<open>
  C39. The enumeration of the PCI buses ends and is complete, when every bridge on a bus leads to a
  bus with a higher number (as firmware configures them): with recursion no deeper than the 256
  buses there are, it returns, and what it did is to call back once for each function that the
  reference walk finds, in the order of that walk, skipping those of another type; it writes nothing
  to the configuration space. This holds for any callback and on all three paths of \<^verbatim>\<open>scan\<close>: one host
  bridge, several, and none that answers.
\<close>

theorem scan_visits_every_device:
  assumes "bridges_lead_down cfg"
  shows "\<exists>vs a. walk_buses 256 cfg (scan_roots cfg) = Some vs
    \<and> scan 256 cfg f ty s = Some (s\<lparr>pci_address := a, pci_context := fold (visit cfg f ty) vs (pci_context s)\<rparr>)"
proof -
  obtain vs where "walk_buses 256 cfg (scan_roots cfg) = Some vs"
    using walk_buses_total[OF assms] scan_roots_lt by blast
  with scan_walks[OF this] show ?thesis by blast
qed

text \<open>Two devices on bus 0, the second a bridge to bus 1, which has one.\<close>

definition two_buses :: config_space where
  "two_buses a =
     (if a = 0x80000808 then 0x06040000 else if a = 0x80000818 then 0x100
      else if a \<in> {0x80000000, 0x80000800, 0x80010000} then 0x12378086
      else if a AND 0xFF = 0 then 0xFFFFFFFF else 0)"

lemma bus_devices_box:
  "dev \<in> set (bus_devices cfg bus) \<Longrightarrow> \<exists>slot < 2 ^ 5. \<exists>func < 2 ^ 3. dev = box bus slot func"
proof -
  assume "dev \<in> set (bus_devices cfg bus)"
  then obtain i where "i < 32" "dev \<in> set (slot_devices cfg bus (of_nat i))"
    by (auto simp: bus_devices_def)
  moreover from this(2) obtain j where "j < 8" "dev = box bus (of_nat i) (of_nat j)"
    by (auto simp: slot_devices_def split: if_splits intro: that[of 0])
  ultimately show ?thesis
    by (intro exI[of _ "of_nat i"] exI[of _ "of_nat j"] conjI) (simp_all add: word_less_nat_alt unat_of_nat)
qed

lemma two_buses_bridge:
  assumes "dev \<in> set (bus_devices two_buses (of_nat bus))" and "bus < 256" and "is_bridge two_buses dev"
  shows "bus = 0 \<and> dev = 0x100"
proof -
  obtain slot func where d: "slot < 2 ^ 5" "func < 2 ^ 3" "dev = box (of_nat bus) slot func"
    using bus_devices_box[OF assms(1)] by blast
  have b: "of_nat bus < (2 :: u32) ^ 8" using assms(2) by (simp add: word_less_nat_alt unat_of_nat)
  let ?a = "addressOf dev 0x0B"
  have a: "addressOf dev 0x0A = ?a" by (simp add: addressOf_def)
  note p = address_parts[OF b d(1,2), of "0x0B", folded d(3), simplified]
  have "?a AND 0xFF = 8" using p(4) by (simp add: take_bit_eq_mask mask_eq_exp_minus_1)
  then have "two_buses ?a = (if ?a = 0x80000808 then 0x06040000 else 0)" by (auto simp: two_buses_def)
  then have "?a = 0x80000808"
    using assms(3) by (auto simp: is_bridge_def type_of_def peek_def a Bridge_def split: if_splits)
  then have "of_nat bus = (0 :: u32)" "slot = 1" "func = 0"
    using p(1-3) by (simp_all add: take_bit_eq_mod drop_bit_eq_div)
  moreover from this(1) have "bus = 0" using assms(2) by (auto simp: word_of_nat_eq_0_iff dest: dvd_imp_le)
  ultimately show ?thesis using d(3) by (simp add: box_def)
qed

lemma two_buses_lead_down: "bridges_lead_down two_buses"
proof -
  have "unat (secondary two_buses 0x100) = 1" by code_simp
  then show ?thesis using two_buses_bridge by (fastforce simp: bridges_lead_down_def)
qed

lemma two_buses_devices: "bus_devices two_buses 0 = [0, 0x100]" "bus_devices two_buses 1 = [0x10000]"
  by code_simp+

lemma two_buses_walk: "walk_buses 256 two_buses (scan_roots two_buses) = Some [0, 0x100, 0x10000]"
proof -
  have t: "is_bridge two_buses 0 = False" "is_bridge two_buses 0x100" "secondary two_buses 0x100 = 1"
    "is_bridge two_buses 0x10000 = False" "scan_roots two_buses = [0]" by code_simp+
  have "walk_bus (Suc (Suc 254)) two_buses 0 = Some [0, 0x100, 0x10000]"
    unfolding walk_bus.simps two_buses_devices by (simp add: t two_buses_devices)
  then show ?thesis by (simp add: t)
qed

theorem scan_visits_every_device_witness:
  "\<exists>a. scan 256 two_buses (\<lambda>dev vid did c. c @ [(dev, vid, did)]) (- 1) \<lparr>pci_address = 0, pci_written = [], pci_context = []\<rparr>
     = Some \<lparr>pci_address = a, pci_written = [],
         pci_context = [(0, 0x8086, 0x1237), (0x100, 0x8086, 0x1237), (0x10000, 0x8086, 0x1237)]\<rparr>"
proof -
  have v: "peek two_buses 2 d 0 = 0x8086" "peek two_buses 2 d 2 = 0x1237" if "d \<in> {0, 0x100, 0x10000}" for d
    using that by (elim insertE emptyE; simp; code_simp)+
  show ?thesis
    using scan_visits_every_device[OF two_buses_lead_down, of "\<lambda>dev vid did c. c @ [(dev, vid, did)]" "- 1"
        "\<lparr>pci_address = 0, pci_written = [], pci_context = []\<rparr>"] v
    by (auto simp: two_buses_walk visit_def)
qed

text \<open>
  A bridge that leads back to its own bus makes the enumeration run forever: no depth of recursion
  is enough, whatever the callback. The code compares the number of the secondary bus with nothing,
  and an unconfigured bridge on bus 0 has secondary bus 0.
\<close>

theorem scan_loops_through_bridge:
  assumes "peek cfg 1 0 (field_value HeaderType) AND 0x80 = 0"
    and "dev \<in> set (bus_devices cfg 0)" and "is_bridge cfg dev" and "secondary cfg dev = 0"
  shows "scan n cfg f ty s = None"
  using walks_scanBus[of cfg f ty n 0] walk_bus_loop[OF assms(2-4), of n] assms(1)
  by (simp add: scan_def readField_peek walks_def)

text \<open>The bridge is the only device, and its secondary bus was never set.\<close>

theorem scan_loops_through_bridge_witness:
  "scan 1000 (\<lambda>a. if a = 0x80000000 then 0x12378086 else if a = 0x80000008 then 0x06040000
      else if a AND 0xFF = 0 then 0xFFFFFFFF else 0) (\<lambda>dev vid did c. c + 1) (- 1)
    \<lparr>pci_address = 0, pci_written = [], pci_context = (0 :: nat)\<rparr> = None"
proof -
  let ?c = "\<lambda>a :: u32. if a = 0x80000000 then 0x12378086 else if a = 0x80000008 then 0x06040000
      else if a AND 0xFF = 0 then 0xFFFFFFFF else 0 :: u32"
  have "peek ?c 1 0 (field_value HeaderType) AND 0x80 = 0" "0 \<in> set (bus_devices ?c 0)" "is_bridge ?c 0" "secondary ?c 0 = 0"
    by code_simp+
  from scan_loops_through_bridge[OF this] show ?thesis by blast
qed

end
