(* ===== verification/Framebuffer.thy ===== *)
theory Framebuffer
  imports Physical_Memory Pci_Bus
begin

text \<open>
  The display device of \<^verbatim>\<open>src/Kernel/Graphics.h\<close> and \<^verbatim>\<open>Graphics.cpp\<close>, and the loop of \<^verbatim>\<open>SharedMain\<close> that paints
  its framebuffer. The registers of the device are bytes of memory, found through the base address
  registers in the configuration space. The lemmas show where these addresses lie, that registers
  are read back as written, and that the loop paints every pixel and nothing else.
\<close>

section \<open>The device\<close>

datatype DispiIndex = DispiID | XRes | YRes | BPP | Enable | Bank | VirtWidth | VirtHeight | XOffset | YOffset | VideoMemory64k

fun dispi_index :: "DispiIndex \<Rightarrow> u32" where
  "dispi_index DispiID = 0x0" | "dispi_index XRes = 0x1" | "dispi_index YRes = 0x2" | "dispi_index BPP = 0x3"
| "dispi_index Enable = 0x4" | "dispi_index Bank = 0x5" | "dispi_index VirtWidth = 0x6" | "dispi_index VirtHeight = 0x7"
| "dispi_index XOffset = 0x8" | "dispi_index YOffset = 0x9" | "dispi_index VideoMemory64k = 0xA"

record BochsDisplayDevice =
  m_pciID :: u32

definition physicalToVirtual :: "'a pm_state_scheme \<Rightarrow> u64 \<Rightarrow> u64" where
  "physicalToVirtual s addr = addr + HigherHalfDirectMapOffset s"

definition virtualToPhysical :: "'a pm_state_scheme \<Rightarrow> u64 \<Rightarrow> u64" where
  "virtualToPhysical s addr = addr - HigherHalfDirectMapOffset s"

definition load16 :: "memory \<Rightarrow> u64 \<Rightarrow> u16" where
  "load16 m a = of_nat (load_le 2 m a)"

definition store16 :: "memory \<Rightarrow> u64 \<Rightarrow> u16 \<Rightarrow> memory" where
  "store16 m a v = store_le 2 m a (unat v)"

text \<open>
  The accesses to the configuration ports thread their state \<open>p\<close>; every access writes the address port before
  it uses the value port, so nothing else depends on it.
\<close>

definition addrOf :: "config_space \<Rightarrow> u32 \<Rightarrow> DispiIndex \<Rightarrow> 'a pm_state_scheme \<Rightarrow> 'c pci_state \<Rightarrow> u64 \<times> 'c pci_state" where
  "addrOf cfg dev idx s p =
     (let (mmioField, p1) = readField cfg 4 dev (field_value Bar2) p;
          mmioAddr = physicalToVirtual s (ucast mmioField);
          bochsAddr = mmioAddr + 0x500
      in (bochsAddr + ucast (push_bit 1 (dispi_index idx)), p1))"

definition framebufferAddress :: "config_space \<Rightarrow> BochsDisplayDevice \<Rightarrow> 'a pm_state_scheme \<Rightarrow> 'c pci_state \<Rightarrow> u64 \<times> 'c pci_state" where
  "framebufferAddress cfg d s p =
     (let (bar, p1) = readField cfg 4 (m_pciID d) (field_value Bar0) p in (physicalToVirtual s (ucast bar), p1))"

definition dispi_read :: "config_space \<Rightarrow> BochsDisplayDevice \<Rightarrow> DispiIndex \<Rightarrow> 'a pm_state_scheme \<Rightarrow> 'c pci_state \<Rightarrow> u16 \<times> 'c pci_state" where
  "dispi_read cfg d idx s p = (let (a, p1) = addrOf cfg (m_pciID d) idx s p in (load16 (mem s) a, p1))"

definition dispi_write :: "config_space \<Rightarrow> BochsDisplayDevice \<Rightarrow> DispiIndex \<Rightarrow> u16 \<Rightarrow> 'a pm_state_scheme \<Rightarrow> 'c pci_state
    \<Rightarrow> 'a pm_state_scheme \<times> 'c pci_state" where
  "dispi_write cfg d idx val s p =
     (let (a, p1) = addrOf cfg (m_pciID d) idx s p in (s\<lparr>mem := store16 (mem s) a val\<rparr>, p1))"

section \<open>Painting\<close>

text \<open>The index \<^verbatim>\<open>x + y*xres\<close> is computed as an \<^verbatim>\<open>int\<close>.\<close>

definition pixel :: "u64 \<Rightarrow> u16 \<Rightarrow> nat \<Rightarrow> nat \<Rightarrow> u64" where
  "pixel pix xres x y = pix + 4 * scast (of_nat x + of_nat y * ucast xres :: u32)"

definition paint_row :: "u64 \<Rightarrow> u16 \<Rightarrow> nat \<Rightarrow> memory \<Rightarrow> memory" where
  "paint_row pix xres y m = fold (\<lambda>x m. store32 m (pixel pix xres x y) 0x3DAEE9) [0 ..< unat xres] m"

definition paint :: "u64 \<Rightarrow> u16 \<Rightarrow> u16 \<Rightarrow> memory \<Rightarrow> memory" where
  "paint pix xres yres m = fold (paint_row pix xres) [0 ..< unat yres] m"

section \<open>Registers\<close>

lemma load16_store16: "load16 (store16 m a v) a = v"
  using unsigned_less[of v, where ?'a = nat] by (simp add: load16_def store16_def load_le_store_le_same)

lemma load16_other: "apart a 2 b 2 \<Longrightarrow> load16 (store16 m a v) b = load16 m b"
  by (simp add: load16_def store16_def load_le_store_le_apart)

lemma addrOf_value:
  "addrOf cfg dev idx s p = (HigherHalfDirectMapOffset s + ucast (peek cfg 4 dev (field_value Bar2)) + 0x500 + of_nat (2 * unat (dispi_index idx)),
     p\<lparr>pci_address := addressOf dev (field_value Bar2)\<rparr>)"
  by (cases idx) (simp_all add: addrOf_def readField_peek physicalToVirtual_def)

lemma dispi_index_inj: "dispi_index i = dispi_index j \<longleftrightarrow> i = j"
  by (cases i; cases j; simp)

lemma dispi_index_less: "unat (dispi_index i) < 11"
  by (cases i) simp_all

lemma addrOf_apart:
  assumes "i \<noteq> j"
  shows "apart (fst (addrOf cfg dev i s p)) 2 (fst (addrOf cfg dev j s p)) 2"
proof -
  have "unat (dispi_index i) \<noteq> unat (dispi_index j)" using assms by (simp add: dispi_index_inj word_unat_eq_iff[symmetric])
  then show ?thesis
    using apart_slots[of "2 * unat (dispi_index i)" 2 "2 * unat (dispi_index j)" 2] apart_slots[of "2 * unat (dispi_index j)" 2 "2 * unat (dispi_index i)" 2]
      dispi_index_less[of i] dispi_index_less[of j]
    unfolding addrOf_value fst_conv by (cases "unat (dispi_index i) < unat (dispi_index j)") (auto simp: apart_sym)
qed

text \<open>A register of the display reads back as it was written, and writing it changes no other register.\<close>

lemma dispi_registers:
  "dispi_write cfg d idx v s p = (s', p') \<Longrightarrow> fst (dispi_read cfg d idx s' p') = v"
  "dispi_write cfg d idx v s p = (s', p') \<Longrightarrow> j \<noteq> idx \<Longrightarrow> fst (dispi_read cfg d j s' p') = fst (dispi_read cfg d j s p)"
  using addrOf_apart[of idx j cfg "m_pciID d" s p]
  by (auto simp: dispi_write_def dispi_read_def addrOf_value load16_store16 load16_other split_beta)

text \<open>
  The low four bits of a base address register are flags of the region and no part of the
  address, but they are not masked: the pointer to the framebuffer is off by their value, which is 8 for
  prefetchable memory.
\<close>

theorem framebuffer_flags_in_address:
  assumes "cfg (addressOf (m_pciID d) (field_value Bar0)) = base OR flags" and "base AND 0xF = 0" and "flags < 16"
  shows "fst (framebufferAddress cfg d s p) = physicalToVirtual s (ucast base) + ucast flags"
proof -
  have f: "\<not> bit flags n" if "4 \<le> n" for n using that assms(3) word_lt_iff_bits[of 4 flags] by simp
  have m: "(0xF :: u32) = mask 4" by (simp add: mask_eq_exp_minus_1)
  have "\<not> bit base n" if "n < 4" for n
  proof -
    have "\<not> bit (base AND 0xF) n" unfolding assms(2) by simp
    then show ?thesis unfolding m using that by (simp add: bit_simps)
  qed
  then have "base AND flags = 0" using f by (intro bit_word_eqI) (auto simp: bit_simps not_le[symmetric])
  moreover have "(ucast (base OR flags) :: u64) = ucast base OR ucast flags" by (rule bit_word_eqI) (auto simp: bit_simps)
  moreover have "(ucast base :: u64) AND ucast flags = ucast (base AND flags)" by (rule bit_word_eqI) (auto simp: bit_simps)
  ultimately have "(ucast (base OR flags) :: u64) = ucast base + ucast flags" by (simp add: disjunctive_add_eq_or)
  then show ?thesis
    using assms(1) by (simp add: framebufferAddress_def readField_peek peek_def physicalToVirtual_def algebra_simps)
qed

theorem framebuffer_flags_in_address_witness:
  "\<forall>s p. fst (framebufferAddress (\<lambda>_. 0xFD000008) \<lparr>m_pciID = 0x1000\<rparr> s p) = physicalToVirtual s 0xFD000000 + 8"
proof -
  have "(0xFD000008 :: u32) = 0xFD000000 OR 8" "(0xFD000000 :: u32) AND 0xF = 0" by simp_all
  then show ?thesis
    using framebuffer_flags_in_address[of "\<lambda>_. 0xFD000008" "\<lparr>m_pciID = 0x1000\<rparr>" "0xFD000000" 8] by auto
qed

section \<open>The picture\<close>

lemma load32_other: "apart a 4 b 4 \<Longrightarrow> load32 (store32 m a v) b = load32 m b"
  by (simp add: load32_def store32_def load_le_store_le_apart)

lemma store32_other: "\<not> inside a 4 x \<Longrightarrow> store32 m a v x = m x"
  by (simp add: store32_def store_le_other)

lemma fold_stores_other:
  fixes pix :: u64
  assumes "\<And>i. i \<in> set is \<Longrightarrow> i < n" and "\<not> inside pix (4 * n) x"
  shows "fold (\<lambda>i m. store32 m (pix + of_nat (4 * i)) c) is m x = m x"
  using assms(1)
proof (induction "is" arbitrary: m)
  case (Cons j js)
  have "\<not> inside (pix + of_nat (4 * j)) 4 x" using inside_shift[of "4 * j" 4 "4 * n" pix x] Cons.prems[of j] assms(2) by auto
  then show ?case using Cons store32_other[of "pix + of_nat (4 * j)" x m c] by (simp del: of_nat_mult)
qed simp

lemma store32_slot:
  fixes pix :: u64
  assumes "i < 2 ^ 31" and "j < 2 ^ 31"
  shows "load32 (store32 m (pix + of_nat (4 * j)) c) (pix + of_nat (4 * i)) = (if i = j then c else load32 m (pix + of_nat (4 * i)))"
proof (cases "i = j")
  case False
  then have "apart (pix + of_nat (4 * j)) 4 (pix + of_nat (4 * i)) 4"
    using apart_slots[of "4 * i" 4 "4 * j" 4 pix] apart_slots[of "4 * j" 4 "4 * i" 4 pix] assms apart_sym
    by (cases "i < j") (auto simp del: of_nat_mult)
  then show ?thesis using False by (simp add: load32_other del: of_nat_mult)
qed (simp del: of_nat_mult)

lemma fold_stores:
  fixes pix :: u64
  assumes "\<And>i. i \<in> set is \<Longrightarrow> i < 2 ^ 31" and "i < 2 ^ 31"
  shows "load32 (fold (\<lambda>i m. store32 m (pix + of_nat (4 * i)) c) is m) (pix + of_nat (4 * i))
    = (if i \<in> set is then c else load32 m (pix + of_nat (4 * i)))"
  using assms(1)
proof (induction "is" arbitrary: m)
  case (Cons j js)
  then show ?case using store32_slot[OF assms(2), of j m pix c] by (simp del: of_nat_mult)
qed simp

definition pixel_list :: "nat \<Rightarrow> nat \<Rightarrow> nat list" where
  "pixel_list w h = concat (map (\<lambda>y. map (\<lambda>x. x + y * w) [0 ..< w]) [0 ..< h])"

lemma fold_concat: "fold f (concat xss) = fold (fold f) xss"
  by (induction xss) simp_all

lemma pixel_small:
  assumes "x + y * unat xres < 2 ^ 31"
  shows "pixel pix xres x y = pix + of_nat (4 * (x + y * unat xres))"
proof -
  have i: "(of_nat x + of_nat y * ucast xres :: u32) = of_nat (x + y * unat xres)" by simp
  have "scast (of_nat n :: u32) = (of_nat n :: u64)" if "n < 2 ^ 31" for n
  proof -
    have "sint (of_nat n :: u32) = int n" using that by (simp add: sint_uint uint_nat unat_of_nat signed_take_bit_int_eq_self)
    then show ?thesis by (simp add: scast_eq)
  qed
  from this[OF assms] show ?thesis unfolding pixel_def i by (simp only: of_nat_mult of_nat_numeral)
qed

lemma paint_list:
  assumes "unat xres * unat yres \<le> 2 ^ 31"
  shows "paint pix xres yres m = fold (\<lambda>i m. store32 m (pix + of_nat (4 * i)) 0x3DAEE9) (pixel_list (unat xres) (unat yres)) m"
proof -
  have "x + y * unat xres < 2 ^ 31" if "x < unat xres" "y < unat yres" for x y
  proof -
    have "Suc y * unat xres \<le> unat yres * unat xres" using that(2) by (intro mult_right_mono) simp_all
    then show ?thesis using that(1) assms by (simp add: mult.commute)
  qed
  then show ?thesis
    unfolding paint_def pixel_list_def fold_concat fold_map comp_def
    by (intro fold_cong) (auto simp: paint_row_def pixel_small fold_map comp_def fun_eq_iff simp del: of_nat_mult of_nat_add
        intro!: fold_cong[THEN fun_cong])
qed

text \<open>
  C23. The loop paints the picture: when its pixels can be indexed by an \<^verbatim>\<open>int\<close>, every
  pixel has the colour afterwards, and no byte outside of the framebuffer changes.
\<close>

theorem paint_fills_screen:
  assumes "unat xres * unat yres \<le> 2 ^ 31"
  shows "(\<forall>x y. x < unat xres \<longrightarrow> y < unat yres \<longrightarrow> load32 (paint pix xres yres m) (pix + of_nat (4 * (x + y * unat xres))) = 0x3DAEE9)
    \<and> (\<forall>a. \<not> inside pix (4 * (unat xres * unat yres)) a \<longrightarrow> paint pix xres yres m a = m a)"
proof -
  let ?w = "unat xres" and ?h = "unat yres"
  have less: "x + y * ?w < ?w * ?h" if "x < ?w" "y < ?h" for x y
  proof -
    have "Suc y * ?w \<le> ?h * ?w" using that(2) by (intro mult_right_mono) simp_all
    then show ?thesis using that(1) by (simp add: mult.commute)
  qed
  have mem: "x + y * ?w \<in> set (pixel_list ?w ?h)" if "x < ?w" "y < ?h" for x y
    using that by (auto simp: pixel_list_def intro!: bexI[of _ y])
  have bound: "i < ?w * ?h" if i: "i \<in> set (pixel_list ?w ?h)" for i
  proof -
    obtain y where "y < ?h" "y * ?w \<le> i" "i < ?w + y * ?w" using i by (auto simp: pixel_list_def)
    then show ?thesis using less[of "i - y * ?w" y] by simp
  qed
  have "i < 2 ^ 31" if "i < ?w * ?h" for i using that assms by simp
  note small = this[OF bound]
  show ?thesis
    unfolding paint_list[OF assms]
  proof (intro conjI allI impI)
    fix x y assume "x < ?w" "y < ?h"
    then have m: "x + y * ?w \<in> set (pixel_list ?w ?h)" by (rule mem)
    show "load32 (fold (\<lambda>i m. store32 m (pix + of_nat (4 * i)) 0x3DAEE9) (pixel_list ?w ?h) m) (pix + of_nat (4 * (x + y * ?w))) = 0x3DAEE9"
      by (rule trans[OF fold_stores[of "pixel_list ?w ?h" "x + y * ?w" pix] if_P[OF m]]) (use small m in blast)+
  qed (rule fold_stores_other[OF bound])
qed

theorem paint_fills_screen_witness: "\<forall>m. load32 (paint 0xFD000000 640 480 m) (0xFD000000 + of_nat (4 * (639 + 479 * 640))) = 0x3DAEE9"
proof
  fix m
  have "(639 :: nat) < unat (640 :: u16)" "(479 :: nat) < unat (480 :: u16)" "unat (640 :: u16) = 640" by simp_all
  then show "load32 (paint 0xFD000000 640 480 m) (0xFD000000 + of_nat (4 * (639 + 479 * 640))) = 0x3DAEE9"
    using conjunct1[OF paint_fills_screen[of 640 480 "0xFD000000" m], rule_format, of 639 479] by simp
qed

end
