(* ===== verification/Boot.thy ===== *)
theory Boot
  imports Kernel_Space Framebuffer
begin

text \<open>
  The boot sequence of \<^verbatim>\<open>src/Kernel/KernelMain.cpp\<close>: the check of the loader's responses, the free list from the
  memory map, the processors, and what every processor does until it schedules. The lemmas show
  that the usable memory of the map becomes the free list, what the processor table holds and how many
  processors fit into it, and where the stack for interrupts points.
\<close>

section \<open>Memory\<close>

definition checkThatLimineGaveUsEverythingWeNeed :: "'a boot_state_scheme \<Rightarrow> unit outcome" where
  "checkThatLimineGaveUsEverythingWeNeed s =
     (if (case memmap_response (requests s) of None \<Rightarrow> True | Some entries \<Rightarrow> length entries < 1) then Inl Halted
      else if hhdm_response (requests s) = None then Inl Halted
      else if kernel_address_response (requests s) = None then Inl Halted
      else if smp_response (requests s) = None then Inl Halted
      else Inr ())"

fun memmap_loop :: "limine_memmap_entry list \<Rightarrow> u64 \<Rightarrow> 'a pm_state_scheme \<Rightarrow> (u64 \<times> 'a pm_state_scheme) outcome" where
  "memmap_loop [] maxPhysicalMemory s = Inr (maxPhysicalMemory, s)"
| "memmap_loop (entry # entries) maxPhysicalMemory s =
     (let m = (if me_base entry + me_length entry > maxPhysicalMemory then me_base entry + me_length entry else maxPhysicalMemory)
      in obind (if me_type entry = LIMINE_MEMMAP_USABLE
                then freeRange (me_base entry + HigherHalfDirectMapOffset s) (me_base entry + me_length entry + HigherHalfDirectMapOffset s) s
                else Inr s)
           (memmap_loop entries m))"

definition initByAddingUsablePagesToMemoryManagement :: "'a boot_state_scheme \<Rightarrow> (u64 \<times> 'a boot_state_scheme) outcome" where
  "initByAddingUsablePagesToMemoryManagement s =
     obind (of_option NullDeref (hhdm_response (requests s))) (\<lambda>offset.
       let s1 = pm_init (s\<lparr>HigherHalfDirectMapOffset := offset\<rparr>)
       in obind (of_option NullDeref (memmap_response (requests s1))) (\<lambda>entries. memmap_loop entries 0 s1))"

section \<open>Processors\<close>

text \<open>The members of \<^verbatim>\<open>CPUState\<close>, with the padding behind the flag, and the aligned descriptor table.\<close>

definition offsetof_table :: u64 where "offsetof_table = 4 + 4 + 8 + 8 + 8"
definition sizeof_CPUState :: u64 where "sizeof_CPUState = offsetof_table + 176 + 8 + 8"

definition startProcessor :: "boot_symbols \<Rightarrow> limine_smp_response \<Rightarrow> nat \<Rightarrow> 'a boot_state_scheme \<Rightarrow> 'a boot_state_scheme outcome" where
  "startProcessor sy resp i s =
     (if PageSize < sizeof_CPUState * (of_nat i + 1) then Inl OutOfBounds
      else
        let info = cpus resp ! i;
            s1 = s\<lparr>CPUs := (CPUs s)[i := (CPUs s ! i)\<lparr>apicID := lapic_id info, cliCount := 1, currentProcess := 0\<rparr>]\<rparr>
        in if lapic_id info = bsp_lapic_id resp then Inr s1
           else Inr (s1\<lparr>requests := (requests s1)\<lparr>smp_response :=
                  map_option (\<lambda>r. r\<lparr>cpus := (cpus r)[i := (cpus r ! i)\<lparr>goto_address := OtherProcessorMain_addr sy\<rparr>]\<rparr>) (smp_response (requests s1))\<rparr>\<rparr>))"

definition initializeProcessors :: "boot_symbols \<Rightarrow> 'a boot_state_scheme \<Rightarrow> 'a boot_state_scheme outcome" where
  "initializeProcessors sy s =
     obind (of_option NullDeref (smp_response (requests s))) (\<lambda>resp.
     obind (allocatePage s) (\<lambda>(p, s1).
       if p = 0 then Inl NullDeref
       else
         let CPUCount = take_bit 32 (length (cpus resp));
             s2 = s1\<lparr>CPUs_addr := p, CPUs := replicate CPUCount zero_CPUState, mem := fst (memset (mem s1) p 0 PageSize)\<rparr>;
             s3 = thereIsNowMoreThanOneProcessor s2
         in for_each [0 ..< length (cpus resp)] (startProcessor sy resp) s3))"

definition disableAllLegacyInterrupts :: "'a machine_scheme \<Rightarrow> 'a machine_scheme" where
  "disableAllLegacyInterrupts s = outb (0xA0 + 1) 0xFF (outb (0x20 + 1) 0xFF s)"

section \<open>Every processor\<close>

text \<open>
  The callback of the PCI scan. A 32-bit argument that \<^verbatim>\<open>%llx\<close> reads comes zero-extended; the configuration
  ports start from any state \<open>p\<close>.
\<close>

definition displayFound :: "config_space \<Rightarrow> 'c pci_state \<Rightarrow> u32 \<Rightarrow> 'a boot_state_scheme \<Rightarrow> 'a boot_state_scheme outcome" where
  "displayFound cfg p dev s =
     obind (log_line (''That'' @ [CHR 0x27] @ ''s a qemu!\<newline>'') [] s) (\<lambda>s1.
       let ddev = \<lparr>m_pciID = dev\<rparr>;
           (fb, p1) = framebufferAddress cfg ddev s1 p;
           (xres, p2) = dispi_read cfg ddev XRes s1 p1;
           (yres, p3) = dispi_read cfg ddev YRes s1 p2;
           (bpp, p4) = dispi_read cfg ddev BPP s1 p3;
           s2 = s1\<lparr>mem := paint fb xres yres (mem s1)\<rparr>
       in obind (log_line ''The framebuffer is at 0x%llx\<newline>'' [ArgLong fb] s2)
            (log_line ''The resolution is %d x %d (bpp %d)\<newline>'' [ArgInt (ucast xres), ArgInt (ucast yres), ArgInt (ucast bpp)]))"

definition deviceFound :: "config_space \<Rightarrow> 'c pci_state \<Rightarrow> u32 \<Rightarrow> u16 \<Rightarrow> u16 \<Rightarrow> 'a boot_state_scheme outcome \<Rightarrow> 'a boot_state_scheme outcome" where
  "deviceFound cfg p dev vid did r =
     obind r (\<lambda>s.
     obind (log_line ''Addr %llx, Vendor %llx, Device %llx\<newline>'' [ArgLong (ucast dev), ArgLong (ucast vid), ArgLong (ucast did)] s) (\<lambda>s1.
       if vid = 0x1234 \<and> did = 0x1111 then displayFound cfg p dev s1 else Inr s1))"

text \<open>A scan that nests deeper than the 256 buses has come back to a bus and does not end.\<close>

definition scanDevices :: "config_space \<Rightarrow> u32 \<Rightarrow> 'a boot_state_scheme \<Rightarrow> 'a boot_state_scheme outcome" where
  "scanDevices cfg port s =
     (let p = \<lparr>pci_address = port, pci_written = [], pci_context = Inr s\<rparr>
      in obind (of_option Diverges (scan 256 cfg (deviceFound cfg p) (- 1) p)) pci_context)"

text \<open>From the new stack to the system call registers.\<close>

definition setupProcessor :: "symbols \<Rightarrow> nat \<Rightarrow> u64 \<Rightarrow> 'a boot_state_scheme \<Rightarrow> 'a boot_state_scheme" where
  "setupProcessor sy c stack s =
     (let cpu = CPUs_addr s + sizeof_CPUState * of_nat c;
          tab = cpu + offsetof_table;
          s1 = s\<lparr>CPUs := (CPUs s)[c := (CPUs s ! c)\<lparr>table := Table_init tab stack (table (CPUs s ! c))\<rparr>]\<rparr>;
          s2 = s1\<lparr>installed := Some (Table_install tab)\<rparr>
      in setStarRegister (setSyscallRIP sy (setKernelGSBase cpu s2)))"

definition SharedMain :: "symbols \<Rightarrow> config_space \<Rightarrow> u32 \<Rightarrow> 'a boot_state_scheme \<Rightarrow> (sched_pc \<times> 'a boot_state_scheme) outcome" where
  "SharedMain sy cfg port s =
     obind (log_line ''Booting processor %d!\<newline>'' [ArgInt (lapicID s)] s) (\<lambda>s1.
     obind (allocatePages (StackSize div PageSize) s1) (\<lambda>(stack, s2).
     obind (of_option NullDeref (thisCPU s2)) (\<lambda>c.
       let s3 = s2\<lparr>CPUs := (CPUs s2)[c := (CPUs s2 ! c)\<lparr>interruptStack := stack\<rparr>]\<rparr>
       in if stack = 0 then obind (log_line ''failed to allocate a stack\<newline>'' [] s3) (\<lambda>_. Inl Halted)
          else
            let s4 = loadIDTTable (setupProcessor sy c stack s3)
            in obind (popCLI s4) (\<lambda>s5.
               obind (scanDevices cfg port s5) (\<lambda>s6.
               obind (log_line ''Processor %d is now going to schedule processes!\<newline>'' [ArgInt (lapicID s6)] s6) (\<lambda>s7.
                 Inr (schedule_start c s7)))))))"

definition OtherProcessorMain :: "symbols \<Rightarrow> lapic_hw \<Rightarrow> config_space \<Rightarrow> u32 \<Rightarrow> 'a boot_state_scheme \<Rightarrow> (sched_pc \<times> 'a boot_state_scheme) outcome" where
  "OtherProcessorMain sy hw cfg port s =
     (let s1 = setAPICBase defaultAPICBase (s\<lparr>cr3 := toPhysical s (KernelPageTable s)\<rparr>)
      in obind (initLAPIC hw s1) (SharedMain sy cfg port))"

definition KernelMain :: "boot_symbols \<Rightarrow> symbols \<Rightarrow> stubs \<Rightarrow> lapic_hw \<Rightarrow> config_space \<Rightarrow> u32 \<Rightarrow> 'a boot_state_scheme
    \<Rightarrow> (sched_pc \<times> 'a boot_state_scheme) outcome" where
  "KernelMain bs sy st hw cfg port s =
     obind (checkThatLimineGaveUsEverythingWeNeed s) (\<lambda>_.
     obind (initByAddingUsablePagesToMemoryManagement s) (\<lambda>(maxPhysicalAddress, s1).
     obind (initializeVirtualMemory bs maxPhysicalAddress s1) (\<lambda>s2.
       let s3 = setupIDTTable st (setLAPICAddress (setAPICBase defaultAPICBase (initLogLock s2)))
       in obind (initializeProcessors bs s3) (\<lambda>s4.
          obind (initLAPIC hw (disableAllLegacyInterrupts s4)) (\<lambda>s5.
          obind (createFirstProcess sy s5) (SharedMain sy cfg port))))))"

section \<open>Dumping page tables\<close>

text \<open>
  \<^verbatim>\<open>dumpPageTable\<close> at a level with \<open>n\<close> levels below. The shifted member is an \<^verbatim>\<open>int\<close>, of which \<^verbatim>\<open>%llx\<close> sees 32 bits.
\<close>

definition spaces :: "nat \<Rightarrow> 'a machine_scheme \<Rightarrow> 'a machine_scheme" where
  "spaces n s = (putchar (CHR '' '') ^^ n) s"

definition dump_entry :: "(u64 \<Rightarrow> 'a boot_state_scheme \<Rightarrow> 'a boot_state_scheme outcome) \<Rightarrow> nat \<Rightarrow> u64 \<Rightarrow> nat \<Rightarrow> 'a boot_state_scheme
    \<Rightarrow> 'a boot_state_scheme outcome" where
  "dump_entry below level t i s =
     (let raw = load64 (mem s) (entry_at t (of_nat i))
      in if pte_get IsPresent raw = 0 then Inr s
         else obind (log_line ''%d to %llx\<newline>'' [ArgInt (of_nat i), ArgLong (take_bit 32 (address_shifted raw))] (spaces level s)) (\<lambda>s1.
                if level < 4 then below (pe2v s1 (load64 (mem s1) (entry_at t (of_nat i)))) s1 else Inr s1))"

primrec dump_table :: "nat \<Rightarrow> nat \<Rightarrow> u64 \<Rightarrow> 'a boot_state_scheme \<Rightarrow> 'a boot_state_scheme outcome" where
  "dump_table 0 level t s = Inr s"
| "dump_table (Suc n) level t s =
     obind (log_line ''level %d\<newline>'' [ArgInt (of_nat level)] (spaces (level - 1) s))
       (for_each [0 ..< 512] (dump_entry (dump_table n (level + 1)) level t))"

definition dumpPageTable :: "u64 \<Rightarrow> 'a boot_state_scheme \<Rightarrow> 'a boot_state_scheme outcome" where
  "dumpPageTable t s = dump_table 4 1 t s"

section \<open>The free list\<close>

text \<open>The usable entries of a memory map as chunks of pages in the direct map.\<close>

definition usable_chunks :: "u64 \<Rightarrow> limine_memmap_entry list \<Rightarrow> (u64 \<times> u64) list" where
  "usable_chunks off es = map (\<lambda>e. (me_base e + off, me_length e div 4096)) (filter (\<lambda>e. me_type e = LIMINE_MEMMAP_USABLE) es)"

lemma usable_chunks_Cons:
  "usable_chunks off (e # es) = (if me_type e = LIMINE_MEMMAP_USABLE then [(me_base e + off, me_length e div 4096)] else []) @ usable_chunks off es"
  by (simp add: usable_chunks_def)

text \<open>No usable entry touches the next one.\<close>

definition gaps :: "(u64 \<times> u64) list \<Rightarrow> bool" where
  "gaps xs \<longleftrightarrow> sorted_wrt (\<lambda>c d. chunk_end 4096 c < unat (fst d)) xs"

definition top_address :: "limine_memmap_entry list \<Rightarrow> u64" where
  "top_address es = fold (\<lambda>e m. max m (me_base e + me_length e)) es 0"

lemma freeRange_appends:
  assumes "pm_holds s ys" and "wf_chunks 4096 (ys @ [(b + off, l div 4096)])" and "gaps (ys @ [(b + off, l div 4096)])" and "b + off \<noteq> 0"
  shows "\<exists>s'. freeRange (b + off) (b + l + off) s = Inr s' \<and> pm_holds s' (ys @ [(b + off, l div 4096)]) \<and> pm_same s s'"
proof -
  have "chunk_end 4096 (last ys) < unat (b + off)" if "ys \<noteq> []" using assms(3) that by (auto simp: gaps_def sorted_wrt_append)
  then show ?thesis
    using freePages_inserts_lemma[of s ys "[]" "b + off" "l div 4096"] assms by (auto simp: freeRange_def algebra_simps)
qed

lemma memmap_loop_free_list:
  assumes "pm_holds s ys" and "HigherHalfDirectMapOffset s = off"
    and "wf_chunks 4096 (ys @ usable_chunks off es)" and "gaps (ys @ usable_chunks off es)"
    and "\<forall>c \<in> set (usable_chunks off es). fst c \<noteq> 0"
  shows "\<exists>s'. memmap_loop es m s = Inr (fold (\<lambda>e m. max m (me_base e + me_length e)) es m, s')
    \<and> pm_holds s' (ys @ usable_chunks off es) \<and> pm_same s s'"
  using assms
proof (induction es arbitrary: s ys m)
  case (Cons e es)
  let ?m = "max m (me_base e + me_length e)" and ?c = "(me_base e + off, me_length e div 4096)"
  have m: "(if me_base e + me_length e > m then me_base e + me_length e else m) = ?m" by (auto simp: max_def)
  show ?case
  proof (cases "me_type e = LIMINE_MEMMAP_USABLE")
    case True
    then have uc: "ys @ usable_chunks off (e # es) = (ys @ [?c]) @ usable_chunks off es" by (simp add: usable_chunks_Cons)
    have "wf_chunks 4096 (ys @ [?c])" "gaps (ys @ [?c])"
      using Cons.prems(3,4) unfolding uc gaps_def wf_chunks_append sorted_wrt_append by blast+
    then obtain s1 where s1: "freeRange (me_base e + off) (me_base e + me_length e + off) s = Inr s1" "pm_holds s1 (ys @ [?c])" "pm_same s s1"
      using freeRange_appends[OF Cons.prems(1), of "me_base e" off "me_length e"] Cons.prems(5) True by (auto simp: usable_chunks_Cons)
    then obtain s' where "memmap_loop es ?m s1 = Inr (fold (\<lambda>e m. max m (me_base e + me_length e)) es ?m, s')"
      "pm_holds s' ((ys @ [?c]) @ usable_chunks off es)" "pm_same s1 s'"
      using Cons.IH[OF s1(2), of ?m] Cons.prems pm_same_offset[OF s1(3)] unfolding uc by (auto simp: usable_chunks_Cons)
    then show ?thesis using s1 True m Cons.prems(2) pm_same_trans unfolding uc by (auto simp: Let_def)
  next
    case False
    then show ?thesis using Cons.IH[OF Cons.prems(1,2), of ?m] Cons.prems m by (simp add: usable_chunks_Cons Let_def)
  qed
qed (simp add: usable_chunks_def)

lemma set_usingLock_off: "\<not> usingLock (s\<lparr>pm_lockword := set_usingLock False w\<rparr>)"
proof -
  have k: "(0xFF00FFFF :: u32) = NOT (push_bit 16 (mask 8))" by (simp add: mask_eq_exp_minus_1 push_bit_eq_mult)
  have "(ucast (drop_bit 16 (set_usingLock False w)) :: u8) = 0"
    unfolding set_usingLock_def k by (rule bit_word_eqI) (auto simp: bit_simps)
  then show ?thesis by (simp add: usingLock_def)
qed

lemma pm_init_holds: "pm_holds (pm_init s) [] \<and> HigherHalfDirectMapOffset (pm_init s) = HigherHalfDirectMapOffset s"
  using set_usingLock_off[of _ s] by (simp add: pm_holds_def pm_init_def pm_ready_def dll_def usingLock_def)

lemma initByAdding_lemma:
  assumes "hhdm_response (requests s) = Some off" and "memmap_response (requests s) = Some es"
    and "wf_chunks 4096 (usable_chunks off es)" and "gaps (usable_chunks off es)" and "\<forall>c \<in> set (usable_chunks off es). fst c \<noteq> 0"
  shows "\<exists>s'. initByAddingUsablePagesToMemoryManagement s = Inr (top_address es, s') \<and> pm_holds s' (usable_chunks off es)
    \<and> HigherHalfDirectMapOffset s' = off \<and> requests s' = requests s \<and> pm_same (pm_init (s\<lparr>HigherHalfDirectMapOffset := off\<rparr>)) s'"
proof -
  let ?s = "pm_init (s\<lparr>HigherHalfDirectMapOffset := off\<rparr>)"
  have h: "pm_holds ?s []" "HigherHalfDirectMapOffset ?s = off" using pm_init_holds[of "s\<lparr>HigherHalfDirectMapOffset := off\<rparr>"] by simp_all
  have r: "requests ?s = requests s" by (simp add: pm_init_def)
  obtain s' where "memmap_loop es 0 ?s = Inr (top_address es, s')" "pm_holds s' (usable_chunks off es)" "pm_same ?s s'"
    using memmap_loop_free_list[OF h, of es 0] assms(3-) by (auto simp: top_address_def)
  then show ?thesis
    using assms(1,2) r h(2) pm_same_offset[of ?s s'] pm_same_boot(3)[of ?s s']
    by (simp add: initByAddingUsablePagesToMemoryManagement_def Let_def)
qed

lemma top_address_le: "e \<in> set es \<Longrightarrow> me_base e + me_length e \<le> top_address es"
proof -
  have mono: "m \<le> fold (\<lambda>e m. max m (me_base e + me_length e)) es m" for m :: u64 and es
    by (induction es arbitrary: m) (auto intro: order_trans[OF max.cobounded1])
  have "e \<in> set es \<Longrightarrow> me_base e + me_length e \<le> fold (\<lambda>e m. max m (me_base e + me_length e)) es m" for m
  proof (induction es arbitrary: m)
    case (Cons a es)
    then show ?case using order_trans[OF max.cobounded2 mono] by auto
  qed simp
  then show "e \<in> set es \<Longrightarrow> me_base e + me_length e \<le> top_address es" by (simp add: top_address_def)
qed

section \<open>The processor table\<close>

lemma for_each_append: "for_each (xs @ ys) f s = obind (for_each xs f s) (for_each ys f)"
proof (induction xs arbitrary: s)
  case (Cons x xs)
  then show ?case by (cases "f x s") simp_all
qed simp

definition started :: "limine_smp_info \<Rightarrow> CPUState" where
  "started info = zero_CPUState\<lparr>apicID := lapic_id info, cliCount := 1, currentProcess := 0\<rparr>"

definition sent :: "boot_symbols \<Rightarrow> limine_smp_response \<Rightarrow> limine_smp_info \<Rightarrow> limine_smp_info" where
  "sent sy resp info = (if lapic_id info = bsp_lapic_id resp then info else info\<lparr>goto_address := OtherProcessorMain_addr sy\<rparr>)"

lemma startProcessor_bound: "i < 2 ^ 32 \<Longrightarrow> (PageSize < sizeof_CPUState * (of_nat i + 1)) = (18 \<le> i)"
proof -
  assume i: "i < 2 ^ 32"
  have "sizeof_CPUState * (of_nat i + 1) = of_nat (224 * (i + 1))" by (simp add: sizeof_CPUState_def offsetof_table_def)
  moreover have "unat (of_nat (224 * (i + 1)) :: u64) = 224 * (i + 1)" using i by (intro unat_of_nat64) simp
  ultimately show ?thesis unfolding word_less_nat_alt by simp linarith
qed

definition after_start :: "boot_symbols \<Rightarrow> limine_smp_response \<Rightarrow> nat \<Rightarrow> 'a boot_state_scheme \<Rightarrow> 'a boot_state_scheme" where
  "after_start sy resp k s = s\<lparr>CPUs := map started (take k (cpus resp)) @ drop k (CPUs s),
     requests := (requests s)\<lparr>smp_response := Some (resp\<lparr>cpus := map (sent sy resp) (take k (cpus resp)) @ drop k (cpus resp)\<rparr>)\<rparr>\<rparr>"

lemma list_update_middle: "k < length xs \<Longrightarrow> length ys = k \<Longrightarrow> (ys @ drop k xs)[k := v] = ys @ v # drop (Suc k) xs"
  by (simp add: list_update_append Cons_nth_drop_Suc[symmetric])

lemma start_processors:
  assumes resp: "smp_response (requests s) = Some resp" and cpus: "CPUs s = replicate (length (cpus resp)) zero_CPUState"
    and k: "k \<le> length (cpus resp)" "k \<le> 18"
  shows "for_each [0 ..< k] (startProcessor sy resp) s = Inr (after_start sy resp k s)"
  using k
proof (induction k)
  case 0
  show ?case using resp by (simp add: after_start_def)
next
  case (Suc k)
  let ?info = "cpus resp ! k" and ?t = "after_start sy resp k s"
  have len: "length (cpus resp) = length (CPUs s)" using cpus by simp
  have nth: "CPUs ?t ! k = zero_CPUState" using Suc.prems cpus by (simp add: after_start_def nth_append)
  have upd: "(CPUs ?t)[k := v] = map started (take k (cpus resp)) @ v # drop (Suc k) (CPUs s)" for v
    using Suc.prems len by (simp add: after_start_def list_update_middle)
  have C: "map started (take (Suc k) (cpus resp)) = map started (take k (cpus resp)) @ [started ?info]"
    "map (sent sy resp) (take (Suc k) (cpus resp)) = map (sent sy resp) (take k (cpus resp)) @ [sent sy resp ?info]"
    using Suc.prems by (simp_all add: take_Suc_conv_app_nth)
  have D: "drop k (cpus resp) = ?info # drop (Suc k) (cpus resp)" using Suc.prems by (simp add: Cons_nth_drop_Suc)
  have "startProcessor sy resp k ?t = Inr (after_start sy resp (Suc k) s)"
    using Suc.prems startProcessor_bound[of k]
    by (simp add: startProcessor_def Let_def nth upd) (simp add: after_start_def C D started_def sent_def list_update_append nth_append)
  then show ?case using Suc by (simp add: for_each_append)
qed

lemma initializeProcessors_unfold:
  assumes h: "pm_holds s xs" "xs \<noteq> []" and resp: "smp_response (requests s) = Some resp" "length (cpus resp) < 2 ^ 32"
  obtains s1 s3 where "initializeProcessors sy s = for_each [0 ..< length (cpus resp)] (startProcessor sy resp) s3"
    and "smp_response (requests s3) = Some resp" and "CPUs s3 = replicate (length (cpus resp)) zero_CPUState"
    and "CPUs_addr s3 = fit_addr 4096 1 xs" and "allocatePage s = Inr (fit_addr 4096 1 xs, s1)"
    and "s3 = thereIsNowMoreThanOneProcessor (s1\<lparr>CPUs_addr := fit_addr 4096 1 xs,
      CPUs := replicate (length (cpus resp)) zero_CPUState, mem := fst (memset (mem s1) (fit_addr 4096 1 xs) 0 PageSize)\<rparr>)"
proof -
  obtain s1 where s1: "allocatePage s = Inr (fit_addr 4096 1 xs, s1)" "fit_addr 4096 1 xs \<noteq> 0" "pm_same s s1"
    using allocatePage_free[OF h] by metis
  define s3 where "s3 = thereIsNowMoreThanOneProcessor (s1\<lparr>CPUs_addr := fit_addr 4096 1 xs,
    CPUs := replicate (take_bit 32 (length (cpus resp))) zero_CPUState, mem := fst (memset (mem s1) (fit_addr 4096 1 xs) 0 PageSize)\<rparr>)"
  have len: "take_bit 32 (length (cpus resp)) = length (cpus resp)" using resp(2) by (simp add: take_bit_nat_eq_self)
  have "initializeProcessors sy s = for_each [0 ..< length (cpus resp)] (startProcessor sy resp) s3"
    using s1 resp(1) by (simp add: initializeProcessors_def s3_def Let_def)
  then show ?thesis
    using resp(1) pm_same_boot(3)[OF s1(3)] len s1(1) by (intro that[of s3 s1]) (simp_all add: s3_def thereIsNowMoreThanOneProcessor_def)
qed

lemma thisCPU_distinct:
  assumes "distinct (map apicID cs)" and "i < length cs" and "apicID (cs ! i) = ident"
  shows "thisCPU_from 0 cs ident = Some i"
proof (cases "thisCPU_from 0 cs ident")
  case None
  then show ?thesis using assms(2,3) thisCPU_from_None[of 0 cs ident] by auto
next
  case (Some j)
  then have "j < length cs" "apicID (cs ! j) = ident" using thisCPU_from_Some[OF Some] by auto
  then show ?thesis using assms Some by (auto simp: distinct_conv_nth)
qed

text \<open>
  C18. The table of processors. Up to 18 processors get their entry, with the APIC id that the
  loader reports, no process, and interrupts disabled once; each of them finds its own entry when the
  ids differ; and all but the boot processor are sent to \<^verbatim>\<open>OtherProcessorMain\<close>. The page that holds
  the table has no room for a nineteenth entry: with more processors the loop writes behind it.
\<close>

theorem initializeProcessors_table:
  assumes "pm_holds s xs" and "xs \<noteq> []" and "smp_response (requests s) = Some resp" and "length (cpus resp) < 2 ^ 32"
  shows "(length (cpus resp) \<le> 18 \<longrightarrow> (\<exists>s'. initializeProcessors sy s = Inr s' \<and> CPUs s' = map started (cpus resp)
      \<and> CPUs_addr s' = fit_addr 4096 1 xs
      \<and> smp_response (requests s') = Some (resp\<lparr>cpus := map (sent sy resp) (cpus resp)\<rparr>)
      \<and> (\<forall>i reg. distinct (map lapic_id (cpus resp)) \<longrightarrow> i < length (cpus resp) \<longrightarrow> drop_bit 24 reg = lapic_id (cpus resp ! i) \<longrightarrow>
            thisCPU (s'\<lparr>lapicIDReg := reg\<rparr>) = Some i)))
    \<and> (18 < length (cpus resp) \<longrightarrow> initializeProcessors sy s = Inl OutOfBounds)"
proof -
  obtain s3 where s3: "initializeProcessors sy s = for_each [0 ..< length (cpus resp)] (startProcessor sy resp) s3"
    "smp_response (requests s3) = Some resp" "CPUs s3 = replicate (length (cpus resp)) zero_CPUState" "CPUs_addr s3 = fit_addr 4096 1 xs"
    using initializeProcessors_unfold[OF assms] by metis
  note run = start_processors[OF s3(2,3)]
  show ?thesis
  proof (intro conjI impI)
    assume n: "length (cpus resp) \<le> 18"
    let ?s' = "after_start sy resp (length (cpus resp)) s3"
    have "CPUs ?s' = map started (cpus resp)" using s3(3) by (simp add: after_start_def)
    then have "thisCPU (?s'\<lparr>lapicIDReg := reg\<rparr>) = Some i"
      if "distinct (map lapic_id (cpus resp))" "i < length (cpus resp)" "drop_bit 24 reg = lapic_id (cpus resp ! i)" for i reg
      using thisCPU_distinct[of "map started (cpus resp)" i "drop_bit 24 reg"] that by (simp add: thisCPU_def lapicID_def comp_def started_def)
    then show "\<exists>s'. initializeProcessors sy s = Inr s' \<and> CPUs s' = map started (cpus resp) \<and> CPUs_addr s' = fit_addr 4096 1 xs
      \<and> smp_response (requests s') = Some (resp\<lparr>cpus := map (sent sy resp) (cpus resp)\<rparr>)
      \<and> (\<forall>i reg. distinct (map lapic_id (cpus resp)) \<longrightarrow> i < length (cpus resp) \<longrightarrow> drop_bit 24 reg = lapic_id (cpus resp ! i) \<longrightarrow>
            thisCPU (s'\<lparr>lapicIDReg := reg\<rparr>) = Some i)"
      using run[OF order_refl n] s3 by (intro exI[of _ ?s']) (simp add: after_start_def)
  next
    assume n: "18 < length (cpus resp)"
    have "startProcessor sy resp 18 (after_start sy resp 18 s3) = Inl OutOfBounds" using startProcessor_bound[of 18] by (simp add: startProcessor_def)
    moreover have "[0 ..< length (cpus resp)] = [0 ..< 18] @ 18 # [19 ..< length (cpus resp)]"
      using n upt_add_eq_append[of 0 18 "length (cpus resp) - 18"] by (simp add: upt_conv_Cons)
    ultimately show "initializeProcessors sy s = Inl OutOfBounds" using run[of 18] n unfolding s3(1) by (simp add: for_each_append)
  qed
qed

theorem initializeProcessors_table_witness:
  "\<exists>s'. initializeProcessors sample_symbols sample_boot = Inr s' \<and> map apicID (CPUs s') = [0]"
  using initializeProcessors_table[OF sample_boot_facts(1), of "\<lparr>bsp_lapic_id = 0, cpus = [\<lparr>processor_id = 0, lapic_id = 0, goto_address = 0, extra_argument = 0\<rparr>]\<rparr>" sample_symbols]
  by (auto simp: sample_boot_def started_def)

section \<open>The stack for interrupts\<close>

lemma setupProcessor_stack:
  assumes "c < length (CPUs s)" and "ts_stackPointers (theTSSEntryItself (table (CPUs s ! c))) \<noteq> []"
  shows "ts_stackPointers (theTSSEntryItself (table (CPUs (setupProcessor sy c stack s) ! c))) ! 0 = stack"
  using assms
  by (simp add: setupProcessor_def Let_def setStarRegister_def setSyscallRIP_def setKernelGSBase_def cpuSetMSR_def swapgs_def split_beta
      Table_init_def)

text \<open>
  C22. The stack pointer for interrupts from user mode is the lowest address of the new stack and not its end. The
  first word that the processor pushes lies outside of the stack, in memory that is still free
  when the stack was cut off from a larger chunk.
\<close>

theorem interrupt_stack_below_block:
  assumes "pm_holds s xs" and "List.find (\<lambda>x. 16 \<le> snd x) xs = Some (a, n)" and "16 < n"
    and "c < length (CPUs t)" and "ts_stackPointers (theTSSEntryItself (table (CPUs t ! c))) \<noteq> []"
  shows "\<exists>stack s'. allocatePages (StackSize div PageSize) s = Inr (stack, s') \<and> pm_holds s' (fit_rest 16 xs)
    \<and> block 4096 stack 16 \<subseteq> list_bytes 4096 xs
    \<and> (let rsp0 = ts_stackPointers (theTSSEntryItself (table (CPUs (setupProcessor sy c stack t) ! c))) ! 0
       in unat (rsp0 - 8) \<notin> block 4096 stack 16 \<and> unat (rsp0 - 8) \<in> list_bytes 4096 (fit_rest 16 xs))"
proof -
  let ?r = "fit_addr 4096 16 xs"
  have k: "StackSize div PageSize = 16" by (simp add: StackSize_def)
  have wf: "wf_chunks 4096 xs" using assms(1) by (simp add: pm_holds_def)
  note fit = fit_bytes[OF wf _ _ assms(2), of 4096, simplified]
  obtain s' where s': "allocatePages 16 s = Inr (?r, s')" "pm_holds s' (fit_rest 16 xs)" using allocatePages_holds[OF assms(1), of 16] by blast
  have n: "16 < unat n" using assms(3) by (simp add: word_less_nat_alt)
  have r: "unat ?r = unat a + 4096 * (unat n - 16)" using fit(1) by simp
  then have "8 \<le> ?r" using n by (simp add: word_le_nat_alt)
  then have r8: "unat (?r - 8) = unat ?r - 8" by (simp add: unat_sub)
  have "(a, n) \<in> set xs" using find_split[OF assms(2)] by auto
  then have "unat ?r - 8 \<in> list_bytes 4096 xs" using r n by (auto simp: list_bytes_def chunk_bytes_def chunk_end_def intro!: bexI[of _ "(a, n)"])
  then have "unat (?r - 8) \<in> list_bytes 4096 (fit_rest 16 xs)" unfolding fit(3) r8 using n r by auto
  moreover have "block 4096 ?r 16 \<subseteq> list_bytes 4096 xs" "unat (?r - 8) \<notin> block 4096 ?r 16" using fit(2) n r r8 by (auto simp: block_def)
  ultimately show ?thesis using s' setupProcessor_stack[OF assms(4,5), of sy ?r] unfolding k Let_def
    by (intro exI[of _ ?r] exI[of _ s']) simp
qed

theorem interrupt_stack_below_block_witness:
  "\<exists>stack s'. allocatePages 16 sample_boot = Inr (stack, s')
     \<and> (let rsp0 = ts_stackPointers (theTSSEntryItself (table (CPUs (setupProcessor
            \<lparr>TrapRet = 0, ProcessEntryPoint_addr = 0, SyscallHandler = 0, MyFirstUserspace = 0, MyFirstUserspaceEnd = 0\<rparr>
            0 stack (sample_boot\<lparr>CPUs := [zero_CPUState]\<rparr>)) ! 0))) ! 0
        in unat (rsp0 - 8) \<in> list_bytes 4096 [(0xFFFF800000008000, 984)])"
proof -
  have "fit_rest 16 [(0xFFFF800000008000, 1000)] = [(0xFFFF800000008000, 984)]" by (simp add: word_le_nat_alt)
  moreover have "StackSize div PageSize = 16" by (simp add: StackSize_def)
  ultimately show ?thesis
    using interrupt_stack_below_block[OF sample_boot_facts(1), of "0xFFFF800000008000" 1000 0 "sample_boot\<lparr>CPUs := [zero_CPUState]\<rparr>"
        "\<lparr>TrapRet = 0, ProcessEntryPoint_addr = 0, SyscallHandler = 0, MyFirstUserspace = 0, MyFirstUserspaceEnd = 0\<rparr>"]
    by (auto simp: word_le_nat_alt word_less_nat_alt zero_CPUState_def zero_Table_def Let_def)
qed

end
