(* ===== verification/Boot_Run.thy ===== *)
theory Boot_Run
  imports Boot
begin

text \<open>
  A processor reaches its scheduler: \<^verbatim>\<open>SharedMain\<close> of \<^verbatim>\<open>src/Kernel/KernelMain.cpp\<close> as a whole. The lemmas follow the
  log messages, whose formats fit their arguments, the stack, and the scan of the PCI buses with its callback.
\<close>

section \<open>Messages\<close>

definition prints :: "string \<Rightarrow> printf_arg list \<Rightarrow> bool" where
  "prints fmt va \<longleftrightarrow> (\<exists>cs. render fmt va = Inr cs)"

lemma prints_Nil [simp]: "prints [] va"
  by (subst prints_def, subst render.simps) (simp add: deref_def)

lemma prints_text [simp]: "c \<noteq> CHR 0x00 \<Longrightarrow> c \<noteq> CHR ''%'' \<Longrightarrow> prints (c # fmt) va = prints fmt va"
  by (cases "render fmt va") (simp_all add: prints_def render_Cons_text)

lemma prints_int: "convert_chars d = Inr (fmt', va', cs) \<Longrightarrow> parse_directive fmt va = Inr d \<Longrightarrow> prints (CHR ''%'' # fmt) va = prints fmt' va'"
  by (cases "render fmt' va'") (simp_all add: prints_def render_Cons_directive)

lemma prints_d [simp]: "prints (CHR ''%'' # CHR ''d'' # fmt) (ArgInt v # va) = prints fmt va"
proof -
  have "parse_directive (CHR ''d'' # fmt) (ArgInt v # va) =
      Inr \<lparr>d_flags = 0, d_width = 0, d_precision = 0, d_format = CHR ''d'' # fmt, d_va = ArgInt v # va\<rparr>"
    by (rule parse_plain) (simp add: plain_conv_def is_digit_def)
  then show ?thesis
    by (rule prints_int[rotated]) (simp add: convert_chars_def deref_def is_int_conv_def int_argument_def int_flags_def int_base_def Let_def)
qed

lemma prints_llx [simp]: "prints (CHR ''%'' # CHR ''l'' # CHR ''l'' # CHR ''x'' # fmt) (ArgLong v # va) = prints fmt va"
proof -
  let ?f = "FLAGS_LONG OR FLAGS_LONG_LONG"
  have "parse_directive (CHR ''l'' # CHR ''l'' # CHR ''x'' # fmt) (ArgLong v # va) =
      Inr \<lparr>d_flags = ?f, d_width = 0, d_precision = 0, d_format = CHR ''x'' # fmt, d_va = ArgLong v # va\<rparr>"
    by (simp add: parse_directive_def parse_width_def parse_precision_def parse_length_def deref_def is_digit_def)
  moreover have "has (int_flags (CHR ''x'') ?f) FLAGS_LONG"
    by (simp add: int_flags_def int_base_def has_def FLAGS_LONG_def FLAGS_LONG_LONG_def FLAGS_PLUS_def FLAGS_SPACE_def FLAGS_PRECISION_def Let_def)
  ultimately show ?thesis
    by (intro prints_int) (simp_all add: convert_chars_def deref_def is_int_conv_def int_argument_def Let_def)
qed

text \<open>The text of \<^verbatim>\<open>%llx\<close>: the hexadecimal digits of its argument.\<close>

lemma render_llx:
  obtains digits where "\<And>fmt va. render (''%llx'' @ fmt) (ArgLong v # va) = obind (render fmt va) (\<lambda>ds. Inr (digits @ ds))"
    and "numeral_val 16 (map char_digit (rev digits)) = unat v" and "digits \<noteq> []" and "v \<noteq> 0 \<Longrightarrow> char_digit (hd digits) \<noteq> 0"
proof -
  let ?f = "FLAGS_LONG OR FLAGS_LONG_LONG" and ?ds = "ntoa_digits v 16 (FLAGS_LONG OR FLAGS_LONG_LONG)"
  have flags: "int_flags (CHR ''x'') ?f = ?f" "\<not> has ?f FLAGS_HASH" "\<not> has ?f FLAGS_PRECISION" "has ?f FLAGS_LONG" "sign_chars False ?f = []"
    "\<not> has ?f FLAGS_LEFT"
    by (simp_all add: int_flags_def int_base_def has_def FLAGS_defs sign_chars_def Let_def)
  have lt: "unat v < unat (16 :: u64) ^ 31" using unat_lt64'[of v] by simp
  note digits = ntoa_digits_numeral[OF _ _ flags(3) lt]
  have "parse_directive (CHR ''l'' # CHR ''l'' # CHR ''x'' # fmt) va =
      Inr \<lparr>d_flags = ?f, d_width = 0, d_precision = 0, d_format = CHR ''x'' # fmt, d_va = va\<rparr>" for fmt va
    by (simp add: parse_directive_def parse_width_def parse_precision_def parse_length_def deref_def is_digit_def)
  moreover have "ntoa_chars v False 16 0 0 ?f = rev ?ds"
    using numeral_field_plain[of ?f 0 v 16 False] digits(1) flags by (simp add: number_field_def)
  ultimately have "render (''%llx'' @ fmt) (ArgLong v # va) = obind (render fmt va) (\<lambda>ds. Inr (rev ?ds @ ds))" for fmt va
    using flags by (simp add: render_Cons_directive convert_chars_def deref_def is_int_conv_def int_base_def int_argument_def)
  then show ?thesis using digits by (intro that[of "rev ?ds"]) (simp_all add: hd_rev)
qed

text \<open>
  The processor finds its entry and the log is free; from then on the extension of the state does not change.
\<close>

definition run_same :: "'a log_state_scheme \<Rightarrow> 'a log_state_scheme \<Rightarrow> bool" where
  "run_same s s' \<longleftrightarrow> thisCPU s \<noteq> None \<and> thisCPU s' = thisCPU s \<and> lock_held (logLock s') = 0 \<and> log_state.more s' = log_state.more s"

lemma run_same_trans: "run_same s t \<Longrightarrow> run_same t u \<Longrightarrow> run_same s u"
  by (simp add: run_same_def)

lemma log_line_text:
  assumes "run_same s0 s" and cs: "render fmt va = Inr cs"
  shows "log_line fmt va s = Inr ((cli_neutral ((cli_neutral s)\<lparr>logLock := lock_set_held 1 (logLock s),
      outb_log := outb_log s @ concat (map serial cs)\<rparr>))\<lparr>logLock := 0\<rparr>)"
proof -
  obtain i where i: "thisCPU s = Some i" using assms(1) by (auto simp: run_same_def)
  let ?s1 = "(cli_neutral s)\<lparr>logLock := lock_set_held 1 (logLock s)\<rparr>"
  have "lock_held (logLock s) = 0" using assms(1) by (simp add: run_same_def)
  then have lock: "lockLog s = Inr ?s1" using i by (simp add: lockLog_def kernel_simps)
  have un: "unlockLog t = Inr ((cli_neutral t)\<lparr>logLock := 0\<rparr>)" if "thisCPU t = Some i" for t :: "'a proc_state_scheme"
    using that by (simp add: unlockLog_def kernel_simps)
  let ?t = "?s1\<lparr>outb_log := outb_log s @ concat (map serial cs)\<rparr>"
  show "log_line fmt va s = Inr ((cli_neutral ?t)\<lparr>logLock := 0\<rparr>)"
    using i un[of ?t] by (simp add: log_line_def logfn_def logfn_via_def lock vsnprintf_out_char cs)
qed

lemma log_line_eq:
  assumes "run_same s0 s" and "prints fmt va"
  obtains out where "log_line fmt va s =
    Inr ((cli_neutral ((cli_neutral s)\<lparr>logLock := lock_set_held 1 (logLock s), outb_log := out\<rparr>))\<lparr>logLock := 0\<rparr>)"
proof -
  obtain cs where cs: "render fmt va = Inr cs" using assms(2) by (auto simp: prints_def)
  show ?thesis by (rule that) (rule log_line_text[OF assms(1) cs])
qed

lemma log_line_ok:
  assumes "run_same s0 s" and "prints fmt va"
  obtains s' where "log_line fmt va s = Inr s'" and "run_same s0 s'" and "mem s' = mem s" and "pm_lockword s' = pm_lockword s"
    and "pm_freeList s' = pm_freeList s" and "HigherHalfDirectMapOffset s' = HigherHalfDirectMapOffset s"
proof -
  obtain out where o: "log_line fmt va s =
      Inr ((cli_neutral ((cli_neutral s)\<lparr>logLock := lock_set_held 1 (logLock s), outb_log := out\<rparr>))\<lparr>logLock := 0\<rparr>)"
    by (rule log_line_eq[OF assms])
  show ?thesis by (rule that[OF o]) (use assms(1) in \<open>simp_all add: run_same_def lock_held_def\<close>)
qed

lemma log_line_run: "run_same s0 s \<Longrightarrow> prints fmt va \<Longrightarrow> \<exists>s'. log_line fmt va s = Inr s' \<and> run_same s0 s'"
  using log_line_ok by blast

section \<open>Devices\<close>

lemma deviceFound_ok:
  assumes "run_same s0 s"
  shows "\<exists>s'. deviceFound cfg p dev vid did (Inr s) = Inr s' \<and> run_same s0 s'"
proof -
  obtain s1 where s1: "log_line ''Addr %llx, Vendor %llx, Device %llx\<newline>'' [ArgLong (ucast dev), ArgLong (ucast vid), ArgLong (ucast did)] s = Inr s1"
    "run_same s0 s1"
    by (atomize_elim, rule log_line_run[OF assms]) simp
  show ?thesis
  proof (cases "vid = 0x1234 \<and> did = 0x1111")
    case True
    obtain s2 where s2: "log_line (''That'' @ [CHR 0x27] @ ''s a qemu!\<newline>'') [] s1 = Inr s2" "run_same s0 s2"
      by (atomize_elim, rule log_line_run[OF s1(2)]) simp
    obtain fb p1 where fb: "framebufferAddress cfg \<lparr>m_pciID = dev\<rparr> s2 p = (fb, p1)" by fastforce
    obtain xres p2 where x: "dispi_read cfg \<lparr>m_pciID = dev\<rparr> XRes s2 p1 = (xres, p2)" by fastforce
    obtain yres p3 where y: "dispi_read cfg \<lparr>m_pciID = dev\<rparr> YRes s2 p2 = (yres, p3)" by fastforce
    obtain bpp p4 where bpp: "dispi_read cfg \<lparr>m_pciID = dev\<rparr> BPP s2 p3 = (bpp, p4)" by fastforce
    define s3 where "s3 = s2\<lparr>mem := paint fb xres yres (mem s2)\<rparr>"
    have s3: "run_same s0 s3" using s2(2) by (simp add: run_same_def s3_def)
    obtain s4 where s4: "log_line ''The framebuffer is at 0x%llx\<newline>'' [ArgLong fb] s3 = Inr s4" "run_same s0 s4"
      by (atomize_elim, rule log_line_run[OF s3]) simp
    obtain s5 where s5: "log_line ''The resolution is %d x %d (bpp %d)\<newline>'' [ArgInt (ucast xres), ArgInt (ucast yres), ArgInt (ucast bpp)] s4 = Inr s5"
      "run_same s0 s5"
      by (atomize_elim, rule log_line_run[OF s4(2)]) simp
    have "displayFound cfg p dev s1 = Inr s5"
      using s2(1) by (simp add: displayFound_def Let_def fb x y bpp s3_def[symmetric] s4(1) s5(1))
    then show ?thesis using True s1(1) s5(2) by (simp add: deviceFound_def)
  next
    case False
    then show ?thesis using s1 by (auto simp: deviceFound_def)
  qed
qed

lemma devices_ok:
  assumes "run_same s0 s"
  shows "\<exists>s'. fold (visit cfg (deviceFound cfg p) (- 1)) vs (Inr s) = Inr s' \<and> run_same s0 s'"
  using assms
proof (induction vs arbitrary: s)
  case (Cons v vs)
  obtain s1 where "visit cfg (deviceFound cfg p) (- 1) v (Inr s) = Inr s1" "run_same s0 s1"
    using deviceFound_ok[OF Cons.prems, of cfg p v] by (auto simp: visit_def)
  then show ?case using Cons.IH by simp
qed auto

lemma scanDevices_ok:
  fixes s :: "'a boot_state_scheme"
  assumes "run_same s0 s" and "bridges_lead_down cfg"
  obtains s' where "scanDevices cfg port s = Inr s'" and "run_same s0 s'"
proof -
  let ?p = "\<lparr>pci_address = port, pci_written = [], pci_context = Inr s :: 'a boot_state_scheme outcome\<rparr>"
  obtain vs where "walk_buses 256 cfg (scan_roots cfg) = Some vs" using walk_buses_total[OF assms(2)] scan_roots_lt by blast
  then obtain a where "scan 256 cfg (deviceFound cfg ?p) (- 1) ?p
      = Some (?p\<lparr>pci_address := a, pci_context := fold (visit cfg (deviceFound cfg ?p) (- 1)) vs (Inr s)\<rparr>)"
    using scan_walks[of 256 cfg vs "deviceFound cfg ?p" "- 1" ?p] by auto
  then show ?thesis using devices_ok[OF assms(1), of cfg ?p vs] by (auto simp: scanDevices_def Let_def intro: that)
qed

section \<open>To the scheduler\<close>

lemma setupProcessor_same:
  "thisCPU (setupProcessor sy c stack s) = thisCPU s" "logLock (setupProcessor sy c stack s) = logLock s"
  "installed (setupProcessor sy c stack s) = Some (Table_install (CPUs_addr s + sizeof_CPUState * of_nat c + offsetof_table))"
  "IDTEntries_addr (setupProcessor sy c stack s) = IDTEntries_addr s"
  "msrs (setupProcessor sy c stack s) 0xC0000082 = SyscallHandler sy"
proof -
  note defs = setupProcessor_def Let_def setStarRegister_def setSyscallRIP_def setKernelGSBase_def cpuSetMSR_def swapgs_def split_beta
  have "push_bit 32 (ucast (ucast (drop_bit 32 b) :: u32)) OR ucast (ucast b :: u32) = b" for b :: u64
    by (rule bit_word_eqI) (auto simp: bit_simps)
  then show "msrs (setupProcessor sy c stack s) 0xC0000082 = SyscallHandler sy" by (simp add: defs)
  obtain t where "thisCPU (setupProcessor sy c stack s) = thisCPU (s\<lparr>CPUs := (CPUs s)[c := (CPUs s ! c)\<lparr>table := t\<rparr>]\<rparr>)"
    by (simp add: defs thisCPU_def lapicID_def)
  then show "thisCPU (setupProcessor sy c stack s) = thisCPU s" by (simp add: thisCPU_update_same_id)
qed (simp_all add: setupProcessor_def Let_def setStarRegister_def setSyscallRIP_def setKernelGSBase_def cpuSetMSR_def swapgs_def split_beta)

lemma processor_runs:
  assumes c: "thisCPU s = Some c" and free: "lock_held (logLock s) = 0" and down: "bridges_lead_down cfg"
  shows "\<exists>s'. obind (popCLI s) (\<lambda>s5. obind (scanDevices cfg port s5) (\<lambda>s6.
      obind (log_line ''Processor %d is now going to schedule processes!\<newline>'' [ArgInt (lapicID s6)] s6) (\<lambda>s7. Inr (schedule_start c s7)))) = Inr (Top, s')
    \<and> thisCPU s' = Some c \<and> currentProcess (CPUs s' ! c) = 0 \<and> log_state.more s' = log_state.more s"
proof -
  define cs where "cs = (CPUs s)[c := pop_cli_cpu (CPUs s ! c)]"
  have "thisCPU (s\<lparr>CPUs := cs\<rparr>) = Some c" using c by (simp add: cs_def thisCPU_update_same_id pop_cli_cpu_def)
  then have "run_same s (s\<lparr>rflags := f, CPUs := cs\<rparr>)" for f using c free by (simp add: run_same_def thisCPU_def lapicID_def)
  then obtain s5 where s5: "popCLI s = Inr s5" "run_same s s5" using popCLI_eq[OF c] unfolding cs_def by blast
  obtain s6 where s6: "scanDevices cfg port s5 = Inr s6" "run_same s s6" using scanDevices_ok[OF s5(2) down] .
  obtain s7 where s7: "log_line ''Processor %d is now going to schedule processes!\<newline>'' [ArgInt (lapicID s6)] s6 = Inr s7" "run_same s s7"
    by (atomize_elim, rule log_line_run[OF s6(2)]) simp
  have c7: "thisCPU s7 = Some c" using s7(2) c by (simp add: run_same_def)
  then show ?thesis
    using thisCPU_bound[OF c7] s5(1) s6(1) s7 by (simp add: schedule_start_def thisCPU_update_same_id run_same_def)
qed

lemma SharedMain_run:
  assumes "thisCPU s = Some c" and "lock_held (logLock s) = 0" and "pm_holds s xs" and "bridges_lead_down cfg"
  shows "fit_addr 4096 16 xs \<noteq> 0 \<Longrightarrow> \<exists>s3 s'. SharedMain sy cfg port s = Inr (Top, s') \<and> thisCPU s' = Some c \<and> currentProcess (CPUs s' ! c) = 0
      \<and> log_state.more s3 = log_state.more s \<and> log_state.more s' = log_state.more (loadIDTTable (setupProcessor sy c (fit_addr 4096 16 xs) s3))"
    and "fit_addr 4096 16 xs = 0 \<Longrightarrow> SharedMain sy cfg port s = Inl Halted"
proof -
  let ?st = "fit_addr 4096 16 xs"
  have k: "StackSize div PageSize = 16" by (simp add: StackSize_def)
  have r0: "run_same s s" using assms(1,2) by (simp add: run_same_def)
  have "prints ''Booting processor %d!\<newline>'' [ArgInt (lapicID s)]" by simp
  from log_line_ok[OF r0 this] obtain s1 where s1: "log_line ''Booting processor %d!\<newline>'' [ArgInt (lapicID s)] s = Inr s1"
    "run_same s s1" "mem s1 = mem s" "pm_lockword s1 = pm_lockword s" "pm_freeList s1 = pm_freeList s" .
  have "pm_holds s1 xs" using assms(1,3) s1 by (auto simp: pm_holds_def pm_ready_def usingLock_def run_same_def)
  then obtain s2 where s2: "allocatePages 16 s1 = Inr (?st, s2)" "pm_same s1 s2" using allocatePages_holds by blast
  have same2: "thisCPU s2 = Some c" "log_state.more s2 = log_state.more s" "lock_held (logLock s2) = 0"
    using s1(2) s2(2) assms(1) by (cases s1; cases s2; auto simp: run_same_def pm_same_def)+
  define s3 where "s3 = s2\<lparr>CPUs := (CPUs s2)[c := (CPUs s2 ! c)\<lparr>interruptStack := ?st\<rparr>]\<rparr>"
  have c2: "c < length (CPUs s2)" using thisCPU_bound[OF same2(1)] .
  have s3: "thisCPU s3 = Some c" "c < length (CPUs s3)" "log_state.more s3 = log_state.more s" "lock_held (logLock s3) = 0"
    using same2 c2 by (simp_all add: s3_def thisCPU_update_same_id)
  note main = SharedMain_def[of sy cfg port s, unfolded k s1(1) obind.simps s2(1) prod.case same2(1) of_option.simps Let_def, folded s3_def]
  show "SharedMain sy cfg port s = Inl Halted" if st: "?st = 0"
  proof -
    have "run_same s3 s3" using s3 by (simp add: run_same_def)
    then obtain s4 where "log_line ''failed to allocate a stack\<newline>'' [] s3 = Inr s4" "run_same s3 s4"
      by (atomize_elim, intro log_line_run) simp_all
    then show ?thesis using st unfolding main by simp
  qed
  show "\<exists>s3 s'. SharedMain sy cfg port s = Inr (Top, s') \<and> thisCPU s' = Some c \<and> currentProcess (CPUs s' ! c) = 0
      \<and> log_state.more s3 = log_state.more s \<and> log_state.more s' = log_state.more (loadIDTTable (setupProcessor sy c ?st s3))" if st: "?st \<noteq> 0"
  proof -
    define s4 where "s4 = loadIDTTable (setupProcessor sy c ?st s3)"
    have s4: "thisCPU s4 = Some c" "lock_held (logLock s4) = 0"
      using setupProcessor_same[of sy c ?st s3] s3 by (simp_all add: s4_def loadIDTTable_def thisCPU_def lapicID_def)
    from processor_runs[OF this assms(4)] obtain s' where s':
      "obind (popCLI s4) (\<lambda>s5. obind (scanDevices cfg port s5) (\<lambda>s6.
        obind (log_line ''Processor %d is now going to schedule processes!\<newline>'' [ArgInt (lapicID s6)] s6) (\<lambda>s7. Inr (schedule_start c s7)))) = Inr (Top, s')"
      "thisCPU s' = Some c" "currentProcess (CPUs s' ! c) = 0" "log_state.more s' = log_state.more s4" by blast
    have "SharedMain sy cfg port s = Inr (Top, s')" using st s'(1) unfolding main s4_def by simp
    then show ?thesis using s'(2-4) s3(3) unfolding s4_def by blast
  qed
qed

text \<open>
  C17. A processor boots. When it finds its entry in the table, the log is free and the bridges of the PCI buses lead
  to higher buses, \<^verbatim>\<open>SharedMain\<close> gets to the scheduler if there is a run of 16 pages for the stack for interrupts: with no process,
  its own descriptor table installed, the interrupt table loaded and the system call entry set, whatever devices are on such buses.
  Without such a run, it halts.
\<close>

theorem SharedMain_schedules:
  assumes "thisCPU s = Some c" and "lock_held (logLock s) = 0" and "pm_holds s xs" and "bridges_lead_down cfg"
  shows "(fit_addr 4096 16 xs \<noteq> 0 \<longrightarrow> (\<exists>s'. SharedMain sy cfg port s = Inr (Top, s') \<and> thisCPU s' = Some c \<and> currentProcess (CPUs s' ! c) = 0
      \<and> installed s' = Some (Table_install (CPUs_addr s + sizeof_CPUState * of_nat c + offsetof_table))
      \<and> idtr_base s' = IDTEntries_addr s \<and> msrs s' 0xC0000082 = SyscallHandler sy))
    \<and> (fit_addr 4096 16 xs = 0 \<longrightarrow> SharedMain sy cfg port s = Inl Halted)"
proof (intro conjI impI)
  assume "fit_addr 4096 16 xs \<noteq> 0"
  from SharedMain_run(1)[OF assms this] obtain s3 s' where s': "SharedMain sy cfg port s = Inr (Top, s')" "thisCPU s' = Some c"
    "currentProcess (CPUs s' ! c) = 0" "log_state.more s3 = log_state.more s"
    "log_state.more s' = log_state.more (loadIDTTable (setupProcessor sy c (fit_addr 4096 16 xs) s3))" by blast
  let ?t = "loadIDTTable (setupProcessor sy c (fit_addr 4096 16 xs) s3)"
  have "CPUs_addr s3 = CPUs_addr s" "IDTEntries_addr s3 = IDTEntries_addr s" using s'(4) by (cases s; cases s3; simp)+
  moreover have "installed s' = installed ?t" "idtr_base s' = idtr_base ?t" "msrs s' = msrs ?t" using s'(5) by (cases s'; cases ?t; simp)+
  ultimately show "\<exists>s'. SharedMain sy cfg port s = Inr (Top, s') \<and> thisCPU s' = Some c \<and> currentProcess (CPUs s' ! c) = 0
      \<and> installed s' = Some (Table_install (CPUs_addr s + sizeof_CPUState * of_nat c + offsetof_table))
      \<and> idtr_base s' = IDTEntries_addr s \<and> msrs s' 0xC0000082 = SyscallHandler sy"
    using s'(1-3) setupProcessor_same[of sy c "fit_addr 4096 16 xs" s3] by (intro exI[of _ s']) (simp add: loadIDTTable_def)
qed (rule SharedMain_run(2)[OF assms])

theorem SharedMain_schedules_witness:
  "\<exists>s'. SharedMain \<lparr>TrapRet = 0, ProcessEntryPoint_addr = 0, SyscallHandler = 0x1234, MyFirstUserspace = 0, MyFirstUserspaceEnd = 0\<rparr>
     two_buses 0 (sample_boot\<lparr>CPUs := [zero_CPUState]\<rparr>) = Inr (Top, s') \<and> msrs s' 0xC0000082 = 0x1234"
proof -
  let ?s = "sample_boot\<lparr>CPUs := [zero_CPUState]\<rparr>"
  have c: "thisCPU ?s = Some 0" "lock_held (logLock ?s) = 0"
    by (simp_all add: thisCPU_def lapicID_def zero_CPUState_def sample_boot_def lock_held_def)
  have "pm_holds ?s [(0xFFFF800000008000, 1000)]"
    using sample_boot_facts(1) by (simp add: pm_holds_def pm_ready_def usingLock_def sample_boot_def)
  moreover have "fit_addr 4096 16 [(0xFFFF800000008000, 1000)] \<noteq> 0" by (simp add: fit_addr_def word_le_nat_alt)
  ultimately show ?thesis using SharedMain_schedules[OF c _ two_buses_lead_down] by fastforce
qed

end
