(* ===== verification/Trap_Code.thy ===== *)
theory Trap_Code
  imports Boot_Run
begin

text \<open>
  The way into the kernel and back (\<^verbatim>\<open>src/Kernel/Traps.S\<close>). The stubs are lists of instructions, in the order of the
  file, and \<open>exec\<close> runs them on a register file and the state. A jump leads to the code of a label and uses up one unit
  of fuel; no path through the file has more than two. A call runs the C++ function of \<open>Trap_Gates\<close>: it returns its
  result in \<^verbatim>\<open>rax\<close>, leaves anything in the other registers that the calling convention lets it overwrite, and may leave for
  the scheduler. What the processor does by itself, the delivery of an interrupt, \<^verbatim>\<open>iretq\<close>, \<^verbatim>\<open>syscall\<close> and \<^verbatim>\<open>sysretq\<close>, is written from its
  manual, without the faults of a return to a bad selector. The lemmas say what a run of pushes leaves in memory and that each stub is one
  call of its handler on a frame.
\<close>

section \<open>Instructions\<close>

text \<open>The names of the saved registers are those of the registers; the flags are a field of the state.\<close>

type_synonym regs = "InterruptRegister \<Rightarrow> u64"

datatype label = Isr nat | Irq nat | ClockReturn | HaltLoop | HaltLoop2 | TrapCommon | SyscallEntry

datatype instr = PushR InterruptRegister | PushI u64 | PushM u64 | PopR InterruptRegister
  | MovR InterruptRegister InterruptRegister | MovLapic InterruptRegister | MovlI u32 InterruptRegister
  | AddI u64 InterruptRegister | MovFromCr3 InterruptRegister | MovToCr3 InterruptRegister
  | MovToGs InterruptRegister u64 | MovFromGs u64 InterruptRegister | CmpqI u64 u64 | Je label | Jmp label
  | Cld | Cli | Hlt | Swapgs | CallTrapHandler | CallKernelSyscallHandler | Iretq | Sysretq

section \<open>The code\<close>

definition UserStackOffset :: u64 where "UserStackOffset = 208"
definition KernelInterruptStackOffset :: u64 where "KernelInterruptStackOffset = 24"
definition HaltInterrupt2 :: nat where "HaltInterrupt2 = 2"

definition GenerateIRQStub :: "nat \<Rightarrow> instr list" where
  "GenerateIRQStub b = [PushI 0x00, PushI (of_nat b), Jmp TrapCommon]"

definition GenerateISRStub_NoErrorCode :: "nat \<Rightarrow> instr list" where
  "GenerateISRStub_NoErrorCode n = [PushI 0x00, PushI (of_nat n), Jmp TrapCommon]"

definition GenerateISRStub_WithErrorCode :: "nat \<Rightarrow> instr list" where
  "GenerateISRStub_WithErrorCode n = [PushI (of_nat n), Jmp TrapCommon]"

text \<open>\<^verbatim>\<open>pushq ClockInterrupt\<close> has no dollar sign: its operand is the memory at this address.\<close>

definition isr_ClockInterrupt :: "instr list" where
  "isr_ClockInterrupt = [PushR R12, MovLapic R12, AddI 0xb0 R12, PopR R12, CmpqI 8 8, Je ClockReturn,
     PushI 0x00, PushM (of_nat ClockInterrupt), Jmp TrapCommon]"

definition isr_BadTLBInterrupt :: "instr list" where
  "isr_BadTLBInterrupt = [PushR R12, MovFromCr3 R12, MovToCr3 R12, MovLapic R12, AddI 0xb0 R12, MovlI 0 R12, PopR R12, Iretq]"

definition isr_NoOpInterrupt :: "instr list" where
  "isr_NoOpInterrupt = [PushR R12, MovLapic R12, AddI 0xb0 R12, MovlI 0 R12, PopR R12, Iretq]"

definition TrapRet_code :: "instr list" where
  "TrapRet_code = [PopR R15, PopR R14, PopR R13, PopR R12, PopR R11, PopR R10, PopR R9, PopR R8, PopR Rbp, PopR Rdi, PopR Rsi,
     PopR Rdx, PopR Rcx, PopR Rbx, PopR Rax, AddI 16 Rsp, Iretq]"

definition TrapCommon_code :: "instr list" where
  "TrapCommon_code = [PushR Rax, PushR Rbx, PushR Rcx, PushR Rdx, PushR Rsi, PushR Rdi, PushR Rbp, PushR R8, PushR R9, PushR R10,
     PushR R11, PushR R12, PushR R13, PushR R14, PushR R15, Cld, MovR Rsp Rdi, CallTrapHandler, MovR Rax Rsp] @ TrapRet_code"

definition SyscallHandler_code :: "instr list" where
  "SyscallHandler_code = [Swapgs, MovToGs Rsp UserStackOffset, MovFromGs KernelInterruptStackOffset Rsp,
     PushR Rax, PushR Rbx, PushR Rcx, PushR Rdx, PushR Rsi, PushR Rdi, PushR Rbp, PushR R8, PushR R9, PushR R10,
     PushR R11, PushR R12, PushR R13, PushR R14, PushR R15, MovR Rsp Rdi, CallKernelSyscallHandler, MovR Rax Rsp,
     PopR R15, PopR R14, PopR R13, PopR R12, PopR R11, PopR R10, PopR R9, PopR R8, PopR Rbp, PopR Rdi, PopR Rsi,
     PopR Rdx, PopR Rcx, PopR Rbx, PopR Rax, MovFromGs UserStackOffset Rsp, Swapgs, Sysretq]"

text \<open>The code behind each label; a label that the file does not define has none.\<close>

definition isr_stub :: "nat \<Rightarrow> instr list" where
  "isr_stub n =
     (if n = HaltInterrupt2 then [Cli, Jmp HaltLoop2]
      else if n = ClockInterrupt then isr_ClockInterrupt
      else if n = BadTLBInterrupt then isr_BadTLBInterrupt
      else if n = HaltInterrupt then [Cli, Jmp HaltLoop]
      else if n = NoOpInterrupt then isr_NoOpInterrupt
      else if n \<in> {8, 10, 11, 12, 13, 14} then GenerateISRStub_WithErrorCode n
      else if n < 32 \<or> n = SyscallInterrupt then GenerateISRStub_NoErrorCode n
      else [])"

fun routine :: "label \<Rightarrow> instr list" where
  "routine (Isr n) = isr_stub n"
| "routine (Irq n) = (if n < 16 then GenerateIRQStub (32 + n) else [])"
| "routine ClockReturn = [Iretq]"
| "routine HaltLoop = [Hlt, Jmp HaltLoop]"
| "routine HaltLoop2 = [Hlt, Jmp HaltLoop2]"
| "routine TrapCommon = TrapCommon_code"
| "routine SyscallEntry = SyscallHandler_code"

section \<open>The processor\<close>

text \<open>
  The return addresses that the two calls push and what the callees leave in the registers they may overwrite; the code either
  resumes what was interrupted or leaves for the scheduler's context.
\<close>

record trap_env =
  apic_hw :: lapic_hw
  after_call :: u64
  junk :: regs

datatype 's flow = Resume regs 's | Leave 's

definition push_value :: "u64 \<Rightarrow> regs \<times> 'a boot_state_scheme \<Rightarrow> regs \<times> 'a boot_state_scheme" where
  "push_value v c = (case c of (r, s) \<Rightarrow> case push v (r Rsp, mem s) of (sp, m) \<Rightarrow> (r(Rsp := sp), s\<lparr>mem := m\<rparr>))"

definition gs_cpu :: "'a boot_state_scheme \<Rightarrow> nat option" where
  "gs_cpu s = List.find (\<lambda>i. CPUs_addr s + sizeof_CPUState * of_nat i = msrs s 0xC0000101) [0 ..< length (CPUs s)]"

definition store_gs :: "u64 \<Rightarrow> u64 \<Rightarrow> 'a boot_state_scheme \<Rightarrow> 'a boot_state_scheme outcome" where
  "store_gs off v s =
     (case gs_cpu s of
        None \<Rightarrow> Inl OutOfBounds
      | Some c \<Rightarrow> if off = UserStackOffset then Inr (s\<lparr>CPUs := (CPUs s)[c := (CPUs s ! c)\<lparr>userStack := v\<rparr>]\<rparr>) else Inl OutOfBounds)"

definition load_gs :: "u64 \<Rightarrow> 'a boot_state_scheme \<Rightarrow> u64 outcome" where
  "load_gs off s =
     (case gs_cpu s of
        None \<Rightarrow> Inl OutOfBounds
      | Some c \<Rightarrow> if off = UserStackOffset then Inr (userStack (CPUs s ! c))
                  else if off = KernelInterruptStackOffset then Inr (interruptStack (CPUs s ! c)) else Inl OutOfBounds)"

text \<open>A store of four bytes reaches the local APIC in its page, and memory elsewhere.\<close>

definition store_long :: "u64 \<Rightarrow> u32 \<Rightarrow> 'a boot_state_scheme \<Rightarrow> 'a boot_state_scheme" where
  "store_long a v s = (if inside (lapic s) 4096 a then s\<lparr>lapic_writes := lapic_writes s @ [(a, v)]\<rparr> else s\<lparr>mem := store32 (mem s) a v\<rparr>)"

definition callee_saved :: "InterruptRegister \<Rightarrow> bool" where
  "callee_saved x \<longleftrightarrow> x \<in> {Rbx, Rbp, R12, R13, R14, R15, Rsp, Rip, Cs, Ss}"

definition after_C :: "trap_env \<Rightarrow> u64 \<Rightarrow> regs \<Rightarrow> regs" where
  "after_C e result r = (\<lambda>x. if x = Rax then result else if callee_saved x then r x else junk e x)"

text \<open>Of the arithmetic flags, only the zero flag (bit 6), which \<^verbatim>\<open>je\<close> reads, is kept; the direction flag is bit 10.\<close>

definition step :: "trap_env \<Rightarrow> instr \<Rightarrow> regs \<times> 'a boot_state_scheme \<Rightarrow> (regs \<times> 'a boot_state_scheme) outcome" where
  "step e i c =
     (case c of (r, s) \<Rightarrow>
       case i of
         PushR x \<Rightarrow> Inr (push_value (r x) c)
       | PushI v \<Rightarrow> Inr (push_value v c)
       | PushM a \<Rightarrow> Inr (push_value (load64 (mem s) a) c)
       | PopR x \<Rightarrow> (case pop (mem s) (r Rsp) of (v, sp) \<Rightarrow> Inr (r(Rsp := sp, x := v), s))
       | MovR x y \<Rightarrow> Inr (r(y := r x), s)
       | MovLapic x \<Rightarrow> Inr (r(x := lapic s), s)
       | MovlI v x \<Rightarrow> Inr (r, store_long (r x) v s)
       | AddI v x \<Rightarrow> Inr (r(x := r x + v), s)
       | MovFromCr3 x \<Rightarrow> Inr (r(x := cr3 s), s)
       | MovToCr3 x \<Rightarrow> Inr (r, s\<lparr>cr3 := r x\<rparr>)
       | MovToGs x off \<Rightarrow> obind (store_gs off (r x) s) (\<lambda>s1. Inr (r, s1))
       | MovFromGs off x \<Rightarrow> obind (load_gs off s) (\<lambda>v. Inr (r(x := v), s))
       | CmpqI v off \<Rightarrow> Inr (r, s\<lparr>rflags := (if load64 (mem s) (r Rsp + off) = v then rflags s OR 0x40 else rflags s AND NOT 0x40)\<rparr>)
       | Cld \<Rightarrow> Inr (r, s\<lparr>rflags := rflags s AND NOT 0x400\<rparr>)
       | Cli \<Rightarrow> Inr (r, cli s)
       | Swapgs \<Rightarrow> Inr (r, swapgs s)
       | Hlt \<Rightarrow> Inl Halted
       | CallKernelSyscallHandler \<Rightarrow>
           (case push_value (after_call e) c of (_, s1) \<Rightarrow>
              obind (KernelSyscallHandler (r Rdi) s1) (\<lambda>(p, s2). Inr (after_C e p r, s2)))
       | _ \<Rightarrow> Inr c)"

definition iretq :: "regs \<times> 'a boot_state_scheme \<Rightarrow> 'a boot_state_scheme flow" where
  "iretq c =
     (case c of (r, s) \<Rightarrow>
        let (rip, sp1) = pop (mem s) (r Rsp);
            (cs, sp2) = pop (mem s) sp1;
            (flags, sp3) = pop (mem s) sp2;
            (rsp, sp4) = pop (mem s) sp3;
            (ss, _) = pop (mem s) sp4
        in Resume (r(Rip := rip, Cs := cs, Rsp := rsp, Ss := ss)) (s\<lparr>rflags := flags\<rparr>))"

definition sysretq :: "regs \<times> 'a boot_state_scheme \<Rightarrow> 'a boot_state_scheme flow" where
  "sysretq c =
     (case c of (r, s) \<Rightarrow>
        let sel = take_bit 16 (drop_bit 48 (msrs s 0xC0000081))
        in Resume (r(Rip := r Rcx, Cs := (sel + 16) OR 3, Ss := (sel + 8) OR 3)) (s\<lparr>rflags := (r R11 AND 0x3C7FD7) OR 2\<rparr>))"

fun exec :: "nat \<Rightarrow> trap_env \<Rightarrow> instr list \<Rightarrow> regs \<times> 'a boot_state_scheme \<Rightarrow> 'a boot_state_scheme flow outcome" where
  "exec f e [] c = Inl OutOfBounds"
| "exec f e (i # is) c =
     (case i of
        Jmp l \<Rightarrow> (case f of 0 \<Rightarrow> Inl Diverges | Suc g \<Rightarrow> exec g e (routine l) c)
      | Je l \<Rightarrow> if bit (rflags (snd c)) 6 then (case f of 0 \<Rightarrow> Inl Diverges | Suc g \<Rightarrow> exec g e (routine l) c) else exec f e is c
      | Iretq \<Rightarrow> Inr (iretq c)
      | Sysretq \<Rightarrow> Inr (sysretq c)
      | CallTrapHandler \<Rightarrow>
          (case TrapHandler (apic_hw e) (fst c Rdi) (snd (push_value (after_call e) c)) of
             Inl x \<Rightarrow> Inl x
           | Inr (Returns p, s2) \<Rightarrow> exec f e is (after_C e p (fst c), s2)
           | Inr (Switched, s2) \<Rightarrow> Inr (Leave s2))
      | _ \<Rightarrow> (case step e i c of Inl x \<Rightarrow> Inl x | Inr c1 \<Rightarrow> exec f e is c1))"

text \<open>
  An interrupt with vector \<open>n\<close>: the stack is the running one, or \<open>rsp0\<close> of the task state when the interrupted code is not in
  ring 0, aligned to 16 bytes. Some exceptions push an error code. The gates are interrupt gates, so the interrupt flag is cleared.
\<close>

definition pushes_error_code :: "nat \<Rightarrow> bool" where
  "pushes_error_code n \<longleftrightarrow> n \<in> {8, 10, 11, 12, 13, 14, 17, 21, 29, 30}"

definition entry_stack :: "u64 \<Rightarrow> regs \<Rightarrow> u64" where
  "entry_stack rsp0 r = (if take_bit 2 (r Cs) = 0 then r Rsp else rsp0) AND NOT 15"

definition deliver :: "u64 \<Rightarrow> nat \<Rightarrow> u64 \<Rightarrow> regs \<times> 'a boot_state_scheme \<Rightarrow> regs \<times> 'a boot_state_scheme" where
  "deliver rsp0 n err c =
     (case c of (r, s) \<Rightarrow>
        let vs = [r Ss, r Rsp, rflags s, r Cs, r Rip] @ (if pushes_error_code n then [err] else []);
            (sp, m) = fold push vs (entry_stack rsp0 r, mem s)
        in (r(Rsp := sp, Cs := ucast CodeSelector, Ss := (if take_bit 2 (r Cs) = 0 then r Ss else 0)),
            s\<lparr>mem := m, rflags := rflags s AND NOT 0x34300\<rparr>))"

definition syscall :: "regs \<times> 'a boot_state_scheme \<Rightarrow> regs \<times> 'a boot_state_scheme" where
  "syscall c =
     (case c of (r, s) \<Rightarrow>
        let sel = take_bit 16 (drop_bit 32 (msrs s 0xC0000081))
        in (r(Rcx := r Rip, R11 := rflags s, Rip := msrs s 0xC0000082, Cs := sel AND 0xFFFC, Ss := sel + 8),
            s\<lparr>rflags := rflags s AND NOT (msrs s 0xC0000084)\<rparr>))"

text \<open>Where the gates of \<^verbatim>\<open>setupIDTTable\<close> lead.\<close>

definition handler_label :: "nat \<Rightarrow> label option" where
  "handler_label n = (if n < 32 \<or> n \<in> {123, 124, 125, 126, 128} then Some (Isr n) else if n < 48 then Some (Irq (n - 32)) else None)"

section \<open>Pushes and pops\<close>

lemma push_sel: "fst (push v sm) = fst sm - 8" "snd (push v sm) = store64 (snd sm) (fst sm - 8) v"
  by (simp_all add: push_def)

lemma fst_fold_push: "fst (fold push vs (sp, m)) = sp - 8 * of_nat (length vs)"
  by (induction vs rule: rev_induct) (simp_all add: push_sel algebra_simps)

lemma fold_push_slot:
  assumes "k < length vs" and "length vs < 2 ^ 60"
  shows "load64 (snd (fold push vs (sp, m))) (sp - 8 * of_nat (length vs) + 8 * of_nat k) = rev vs ! k"
  using assms
proof (induction vs arbitrary: k rule: rev_induct)
  case (snoc v vs)
  let ?sp = "sp - 8 * of_nat (length vs)"
  have f: "snd (fold push (vs @ [v]) (sp, m)) = store64 (snd (fold push vs (sp, m))) (?sp - 8) v"
    by (simp add: push_sel fst_fold_push)
  show ?case
  proof (cases k)
    case 0
    then show ?thesis unfolding f by (simp add: algebra_simps)
  next
    case (Suc j)
    let ?a = "?sp + 8 * of_nat j"
    have a: "sp - 8 * of_nat (length (vs @ [v])) + 8 * of_nat k = ?a" "?sp - 8 + of_nat (8 * (j + 1)) = ?a"
      using Suc by (simp_all add: algebra_simps)
    have "apart (?sp - 8 + of_nat 0) 8 (?sp - 8 + of_nat (8 * (j + 1))) 8"
      using snoc.prems Suc by (intro apart_slots) simp_all
    then have "apart (?sp - 8) 8 ?a 8" unfolding a(2) by simp
    then have "load64 (snd (fold push (vs @ [v]) (sp, m))) ?a = load64 (snd (fold push vs (sp, m))) ?a"
      unfolding f by (rule load64_store64_apart)
    then show ?thesis unfolding a(1) using snoc.IH[of j] snoc.prems Suc by simp
  qed
qed simp

lemma fold_push_other:
  assumes "\<not> inside (sp - 8 * of_nat (length vs)) (8 * length vs) x" and "length vs < 2 ^ 60"
  shows "snd (fold push vs (sp, m)) x = m x"
  using assms
proof (induction vs rule: rev_induct)
  case (snoc v vs)
  let ?b = "sp - 8 * of_nat (length vs) - 8"
  have b: "sp - 8 * of_nat (length (vs @ [v])) = ?b" by (simp add: algebra_simps)
  note out = snoc.prems(1)[unfolded b]
  have "\<not> inside (?b + of_nat 0) 8 x" "\<not> inside (?b + of_nat 8) (8 * length vs) x"
    using out inside_shift[of 0 8 "8 * length (vs @ [v])" ?b x] inside_shift[of 8 "8 * length vs" "8 * length (vs @ [v])" ?b x] by auto
  then show ?case using snoc.IH snoc.prems(2) by (simp add: push_sel fst_fold_push store64_other)
qed simp

lemma exec_pushes:
  "Rsp \<notin> set xs \<Longrightarrow> exec f e (map PushR xs @ is) (r, s)
     = exec f e is (r(Rsp := r Rsp - 8 * of_nat (length xs)), s\<lparr>mem := snd (fold push (map r xs) (r Rsp, mem s))\<rparr>)"
proof (induction xs arbitrary: r s)
  case (Cons x xs)
  let ?r = "r(Rsp := r Rsp - 8)"
  let ?m = "store64 (mem s) (r Rsp - 8) (r x)"
  have m: "map ?r xs = map r xs" using Cons.prems by auto
  have p: "push (r x) (r Rsp, mem s) = (r Rsp - 8, ?m)" by (simp add: push_def)
  have "exec f e (map PushR (x # xs) @ is) (r, s) = exec f e (map PushR xs @ is) (?r, s\<lparr>mem := ?m\<rparr>)"
    by (simp add: step_def push_value_def p)
  also have "\<dots> = exec f e is (?r(Rsp := ?r Rsp - 8 * of_nat (length xs)), s\<lparr>mem := snd (fold push (map ?r xs) (?r Rsp, ?m))\<rparr>)"
    using Cons.prems by (subst Cons.IH) simp_all
  also have "?r(Rsp := ?r Rsp - 8 * of_nat (length xs)) = r(Rsp := r Rsp - 8 * of_nat (length (x # xs)))" by (simp add: algebra_simps)
  also have "fold push (map ?r xs) (?r Rsp, ?m) = fold push (map r (x # xs)) (r Rsp, mem s)" unfolding m by (simp add: p)
  finally show ?case .
qed simp

lemma fold_push_value:
  "fold push_value vs (r, s) = (r(Rsp := r Rsp - 8 * of_nat (length vs)), s\<lparr>mem := snd (fold push vs (r Rsp, mem s))\<rparr>)"
proof (induction vs rule: rev_induct)
  case (snoc v vs)
  then show ?case by (auto simp: push_value_def split_beta push_sel fst_fold_push algebra_simps fun_eq_iff)
qed simp

lemma exec_immediates: "exec f e (map PushI vs @ is) c = exec f e is (fold push_value vs c)"
  by (induction vs arbitrary: c) (auto simp: step_def split: prod.split)

text \<open>The registers that a frame at \<open>p\<close> gives back, with what \<open>r\<close> holds in the slots that are no registers.\<close>

definition is_register :: "InterruptRegister \<Rightarrow> bool" where
  "is_register x \<longleftrightarrow> x \<notin> {InterruptNumber, ErrorCode, Rflags}"

definition restored :: "memory \<Rightarrow> u64 \<Rightarrow> regs \<Rightarrow> regs" where
  "restored m p r = (\<lambda>x. if is_register x then load64 m (p + ir_offset x) else r x)"

lemma TrapRet_run:
  "exec f e TrapRet_code (r(Rsp := p), s)
     = Inr (Resume (restored (mem s) p r) (s\<lparr>rflags := load64 (mem s) (p + ir_offset Rflags)\<rparr>))"
proof -
  let ?r = "r(R15 := load64 (mem s) p, R14 := load64 (mem s) (p + 8), R13 := load64 (mem s) (p + 16), R12 := load64 (mem s) (p + 24),
           R11 := load64 (mem s) (p + 32), R10 := load64 (mem s) (p + 40), R9 := load64 (mem s) (p + 48), R8 := load64 (mem s) (p + 56),
           Rbp := load64 (mem s) (p + 64), Rdi := load64 (mem s) (p + 72), Rsi := load64 (mem s) (p + 80), Rdx := load64 (mem s) (p + 88),
           Rcx := load64 (mem s) (p + 96), Rbx := load64 (mem s) (p + 104), Rax := load64 (mem s) (p + 112),
           Rip := load64 (mem s) (p + 136), Cs := load64 (mem s) (p + 144), Rsp := load64 (mem s) (p + 160), Ss := load64 (mem s) (p + 168))"
  have "exec f e TrapRet_code (r(Rsp := p), s) = Inr (Resume ?r (s\<lparr>rflags := load64 (mem s) (p + ir_offset Rflags)\<rparr>))"
    by (simp add: TrapRet_code_def step_def pop_def iretq_def fun_upd_twist add.commute[of p])
  moreover have "?r x = restored (mem s) p r x" for x
    by (cases x) (simp_all add: restored_def is_register_def)
  ultimately show ?thesis by (simp add: ext)
qed

section \<open>One call of the handler\<close>

text \<open>What becomes of the result of \<^verbatim>\<open>TrapHandler\<close>, and the values that lie on the stack when it is called.\<close>

definition trap_flow :: "trap_env \<Rightarrow> (trap_result \<times> 'a boot_state_scheme) outcome \<Rightarrow> 'a boot_state_scheme flow outcome" where
  "trap_flow e res =
     (case res of
        Inl x \<Rightarrow> Inl x
      | Inr (Returns q, t) \<Rightarrow> Inr (Resume (restored (mem t) q (junk e)) (t\<lparr>rflags := load64 (mem t) (q + ir_offset Rflags)\<rparr>))
      | Inr (Switched, t) \<Rightarrow> Inr (Leave t))"

definition saved_registers :: "InterruptRegister list" where
  "saved_registers = [Rax, Rbx, Rcx, Rdx, Rsi, Rdi, Rbp, R8, R9, R10, R11, R12, R13, R14, R15]"

definition entry_values :: "u64 list \<Rightarrow> regs \<Rightarrow> 'a boot_state_scheme \<Rightarrow> u64 list" where
  "entry_values ws r s = [r Ss, r Rsp, rflags s, r Cs, r Rip] @ ws @ map r saved_registers"

lemma restored_after_C: "restored m p (after_C e q r) = restored m p (junk e)"
proof
  show "restored m p (after_C e q r) x = restored m p (junk e) x" for x
    by (cases x) (simp_all add: restored_def is_register_def after_C_def callee_saved_def)
qed

lemma after_C_Rax: "after_C e q r Rax = q"
  by (simp add: after_C_def)

lemma TrapCommon_run:
  "exec f e TrapCommon_code (r, s) = trap_flow e (TrapHandler (apic_hw e) (r Rsp - 120)
     (s\<lparr>rflags := rflags s AND NOT 0x400,
        mem := store64 (snd (fold push (map r saved_registers) (r Rsp, mem s))) (r Rsp - 128) (after_call e)\<rparr>))"
proof -
  let ?m = "snd (fold push (map r saved_registers) (r Rsp, mem s))"
  let ?rest = "[Cld, MovR Rsp Rdi, CallTrapHandler, MovR Rax Rsp] @ TrapRet_code"
  have code: "TrapCommon_code = map PushR saved_registers @ ?rest" by (simp add: TrapCommon_code_def saved_registers_def)
  have "exec f e TrapCommon_code (r, s) = exec f e ?rest (r(Rsp := r Rsp - 120), s\<lparr>mem := ?m\<rparr>)"
    unfolding code by (subst exec_pushes) (simp_all add: saved_registers_def)
  also have "\<dots> = trap_flow e (TrapHandler (apic_hw e) (r Rsp - 120)
      (s\<lparr>rflags := rflags s AND NOT 0x400, mem := store64 ?m (r Rsp - 128) (after_call e)\<rparr>))"
    by (simp add: step_def push_value_def push_def trap_flow_def TrapRet_run restored_after_C after_C_Rax
        split: sum.split trap_result.split)
  finally show ?thesis .
qed

lemma deliver_eq:
  "deliver rsp0 n err (r, s) =
     (let vs = [r Ss, r Rsp, rflags s, r Cs, r Rip] @ (if pushes_error_code n then [err] else []);
          sp = entry_stack rsp0 r
      in (r(Rsp := sp - 8 * of_nat (length vs), Cs := 8, Ss := (if take_bit 2 (r Cs) = 0 then r Ss else 0)),
          s\<lparr>mem := snd (fold push vs (sp, mem s)), rflags := rflags s AND NOT 0x34300\<rparr>))"
  by (simp add: deliver_def Let_def split_beta push_sel CodeSelector_def sizeof_UserEntry_def)

text \<open>
  The vectors whose stub goes through \<^verbatim>\<open>TrapCommon\<close> with what the stub pushes: above it lie the five words of the processor, and the
  error code for the vectors that have one.
\<close>

definition stub_values :: "nat \<Rightarrow> u64 \<Rightarrow> u64 list" where
  "stub_values n err = (if pushes_error_code n then [err] else []) @ (if n \<in> {8, 10, 11, 12, 13, 14} then [] else [0]) @ [of_nat n]"

definition common_vector :: "nat \<Rightarrow> bool" where
  "common_vector n \<longleftrightarrow> n < 48 \<and> n \<noteq> 2 \<or> n = 128"

lemma stub_run:
  assumes "common_vector n" and "handler_label n = Some l"
  shows "exec 2 e (routine l) (deliver rsp0 n err (r, s)) =
    (let vs = entry_values (stub_values n err) r s; sp = entry_stack rsp0 r - 8 * of_nat (length vs)
     in trap_flow e (TrapHandler (apic_hw e) sp
          (s\<lparr>rflags := rflags s AND NOT 0x34300 AND NOT 0x400,
             mem := store64 (snd (fold push vs (entry_stack rsp0 r, mem s))) (sp - 8) (after_call e)\<rparr>)))"
proof -
  define hd where "hd = [r Ss, r Rsp, rflags s, r Cs, r Rip] @ (if pushes_error_code n then [err] else [])"
  define st where "st = (if n \<in> {8, 10, 11, 12, 13, 14} then [] else [0]) @ [of_nat n :: u64]"
  let ?sp = "entry_stack rsp0 r" and ?vs = "entry_values (stub_values n err) r s"
  obtain r1 s1 where d: "deliver rsp0 n err (r, s) = (r1, s1)" by fastforce
  have d1: "(r1 Rsp, mem s1) = fold push hd (?sp, mem s)" "rflags s1 = rflags s AND NOT 0x34300"
    "map r1 saved_registers = map r saved_registers" "s1\<lparr>rflags := f, mem := m\<rparr> = s\<lparr>rflags := f, mem := m\<rparr>" for f m
    using d by (auto simp: deliver_eq Let_def saved_registers_def hd_def prod_eq_iff fst_fold_push[symmetric] push_sel)
  have code: "routine l = map PushI st @ [Jmp TrapCommon]"
    using assms by (auto simp: common_vector_def handler_label_def isr_stub_def GenerateIRQStub_def GenerateISRStub_NoErrorCode_def
        GenerateISRStub_WithErrorCode_def HaltInterrupt2_def ClockInterrupt_def BadTLBInterrupt_def HaltInterrupt_def NoOpInterrupt_def
        SyscallInterrupt_def st_def split: if_splits)
  have vs: "?vs = (hd @ st) @ map r saved_registers" by (simp add: entry_values_def stub_values_def hd_def st_def)
  obtain sp2 m2 where p2: "fold push st (r1 Rsp, mem s1) = (sp2, m2)" by fastforce
  then have sp2: "r1 Rsp - 8 * of_nat (length st) = sp2" using fst_fold_push[of st "r1 Rsp" "mem s1"] by simp
  have "fold push ?vs (?sp, mem s) = fold push (map r saved_registers) (sp2, m2)" unfolding vs by (simp add: d1(1)[symmetric] p2)
  moreover from this fst_fold_push[of ?vs ?sp "mem s"] have "?sp - 8 * of_nat (length ?vs) = sp2 - 120"
    by (simp add: fst_fold_push saved_registers_def[THEN arg_cong[of _ _ length]])
  moreover have "exec 2 e (routine l) (deliver rsp0 n err (r, s)) = exec 1 e TrapCommon_code (r1(Rsp := sp2), s1\<lparr>mem := m2\<rparr>)"
    unfolding d code exec_immediates fold_push_value sp2 p2 by (simp add: numeral_2_eq_2)
  moreover have "map (r1(Rsp := sp2)) saved_registers = map r saved_registers" using d1(3) by (simp add: saved_registers_def)
  ultimately show ?thesis by (simp add: TrapCommon_run d1 Let_def and.assoc)
qed

end
