(* ===== verification/Trap_Entry.thy ===== *)
theory Trap_Entry
  imports Trap_Code
begin

text \<open>
  What the stubs of \<^verbatim>\<open>src/Kernel/Traps.S\<close> do, together with the handlers and the processor: the frame that a handler sees, the return
  to the interrupted code, the stubs that disagree with the processor about the error code, the stubs that do not go
  through \<^verbatim>\<open>TrapCommon\<close>, system calls, and the first entry into user mode.
\<close>

section \<open>The frame\<close>

lemma frame_slot:
  assumes "k < length vs" and "length vs < 1000"
  shows "load64 (store64 (snd (fold push vs (sp, m))) (sp - 8 * of_nat (length vs) - 8) ret) (sp - 8 * of_nat (length vs) + 8 * of_nat k)
    = rev vs ! k"
proof -
  have "store64 (snd (fold push vs (sp, m))) (sp - 8 * of_nat (length vs) - 8) ret = snd (fold push (vs @ [ret]) (sp, m))"
    by (simp add: push_sel fst_fold_push)
  moreover have "sp - 8 * of_nat (length vs) + 8 * of_nat k = sp - 8 * of_nat (length (vs @ [ret])) + 8 * of_nat (Suc k)"
    by (simp add: algebra_simps)
  moreover have "load64 (snd (fold push (vs @ [ret]) (sp, m))) (sp - 8 * of_nat (length (vs @ [ret])) + 8 * of_nat (Suc k)) = rev vs ! k"
    using fold_push_slot[of "Suc k" "vs @ [ret]" sp m] assms by (simp del: of_nat_Suc)
  ultimately show ?thesis by (simp only:)
qed

lemma frame_other:
  assumes "\<not> inside (sp - 8 * of_nat (length vs) - 8) (8 * length vs + 8) x" and "length vs < 1000"
  shows "store64 (snd (fold push vs (sp, m))) (sp - 8 * of_nat (length vs) - 8) ret x = m x"
proof -
  have "store64 (snd (fold push vs (sp, m))) (sp - 8 * of_nat (length vs) - 8) ret = snd (fold push (vs @ [ret]) (sp, m))"
    by (simp add: push_sel fst_fold_push)
  then show ?thesis using fold_push_other[of sp "vs @ [ret]" x m] assms by (simp add: algebra_simps)
qed

text \<open>The state in which a stub calls \<^verbatim>\<open>TrapHandler\<close>, and the address of the frame.\<close>

definition frame_address :: "u64 \<Rightarrow> nat \<Rightarrow> u64 \<Rightarrow> regs \<Rightarrow> 'a boot_state_scheme \<Rightarrow> u64" where
  "frame_address rsp0 n err r s = entry_stack rsp0 r - 8 * of_nat (length (entry_values (stub_values n err) r s))"

definition handler_state :: "trap_env \<Rightarrow> u64 \<Rightarrow> nat \<Rightarrow> u64 \<Rightarrow> regs \<Rightarrow> 'a boot_state_scheme \<Rightarrow> 'a boot_state_scheme" where
  "handler_state e rsp0 n err r s =
     s\<lparr>rflags := rflags s AND NOT 0x34300 AND NOT 0x400,
       mem := store64 (snd (fold push (entry_values (stub_values n err) r s) (entry_stack rsp0 r, mem s)))
                (frame_address rsp0 n err r s - 8) (after_call e)\<rparr>"

lemma stub_runs:
  "common_vector n \<Longrightarrow> handler_label n = Some l \<Longrightarrow> exec 2 e (routine l) (deliver rsp0 n err (r, s))
     = trap_flow e (TrapHandler (apic_hw e) (frame_address rsp0 n err r s) (handler_state e rsp0 n err r s))"
  by (simp add: stub_run Let_def frame_address_def handler_state_def)

lemma length_entry_values: "length (entry_values ws r s) = 20 + length ws"
  by (simp add: entry_values_def saved_registers_def)

lemma handler_reg:
  assumes "ir_offset x = 8 * of_nat k" and "k < 20 + length (stub_values n err)"
  shows "reg (handler_state e rsp0 n err r s) (frame_address rsp0 n err r s) x = rev (entry_values (stub_values n err) r s) ! k"
  unfolding reg_def handler_state_def frame_address_def assms(1)
  using frame_slot[of k "entry_values (stub_values n err) r s"] assms(2)
  by (simp add: length_entry_values stub_values_def)

text \<open>The slot of each member.\<close>

fun ir_slot :: "InterruptRegister \<Rightarrow> nat" where
  "ir_slot R15 = 0" | "ir_slot R14 = 1" | "ir_slot R13 = 2" | "ir_slot R12 = 3" | "ir_slot R11 = 4" | "ir_slot R10 = 5"
| "ir_slot R9 = 6" | "ir_slot R8 = 7" | "ir_slot Rbp = 8" | "ir_slot Rdi = 9" | "ir_slot Rsi = 10" | "ir_slot Rdx = 11"
| "ir_slot Rcx = 12" | "ir_slot Rbx = 13" | "ir_slot Rax = 14" | "ir_slot InterruptNumber = 15" | "ir_slot ErrorCode = 16"
| "ir_slot Rip = 17" | "ir_slot Cs = 18" | "ir_slot Rflags = 19" | "ir_slot Rsp = 20" | "ir_slot Ss = 21"

lemma ir_slot: "ir_offset x = 8 * of_nat (ir_slot x)" "ir_slot x < 22"
  by (cases x; simp)+

lemma handler_reg_slot:
  "2 \<le> length (stub_values n err) \<Longrightarrow>
   reg (handler_state e rsp0 n err r s) (frame_address rsp0 n err r s) x = rev (entry_values (stub_values n err) r s) ! ir_slot x"
  using handler_reg[OF ir_slot(1), of x n err e rsp0 r s] ir_slot(2)[of x] by simp

definition error_code_agrees :: "nat \<Rightarrow> bool" where
  "error_code_agrees n \<longleftrightarrow> n \<notin> {17, 21, 29, 30}"

definition frame_value :: "nat \<Rightarrow> u64 \<Rightarrow> regs \<Rightarrow> 'a boot_state_scheme \<Rightarrow> InterruptRegister \<Rightarrow> u64" where
  "frame_value n err r s x =
     (case x of InterruptNumber \<Rightarrow> of_nat n | ErrorCode \<Rightarrow> (if pushes_error_code n then err else 0) | Rflags \<Rightarrow> rflags s | _ \<Rightarrow> r x)"

lemma stub_values_agree:
  "error_code_agrees n \<Longrightarrow> stub_values n err = [if pushes_error_code n then err else 0, of_nat n]"
  "\<not> error_code_agrees n \<Longrightarrow> stub_values n err = [err, 0, of_nat n]"
  by (auto simp: error_code_agrees_def stub_values_def pushes_error_code_def)

lemma frame_reads:
  assumes "error_code_agrees n"
  shows "reg (handler_state e rsp0 n err r s) (frame_address rsp0 n err r s) x = frame_value n err r s x"
  using handler_reg_slot[of n err e rsp0 r s x] stub_values_agree(1)[OF assms, of err]
  by (cases x) (simp_all add: entry_values_def saved_registers_def frame_value_def)

lemma handler_state_other:
  assumes "\<not> inside (entry_stack rsp0 r - 192) 192 a"
  shows "mem (handler_state e rsp0 n err r s) a = mem s a"
proof -
  let ?vs = "entry_values (stub_values n err) r s" and ?b = "frame_address rsp0 n err r s - 8"
  define k where "k = 3 - length (stub_values n err)"
  have n: "length (stub_values n err) + k = 3" by (simp add: k_def stub_values_def)
  then have l: "length ?vs + k = 23" by (simp add: length_entry_values)
  have b: "?b = entry_stack rsp0 r - 192 + of_nat (8 * k)"
  proof -
    have "8 * (of_nat (length ?vs) + of_nat k :: u64) = 8 * 23" using l by (metis of_nat_add of_nat_numeral)
    then have "8 * of_nat (length ?vs) = (184 :: u64) - 8 * of_nat k" by (simp add: distrib_left eq_diff_eq)
    then show ?thesis by (simp add: frame_address_def)
  qed
  have "\<not> inside ?b (8 * length ?vs + 8) a"
    using assms inside_shift[of "8 * k" "8 * length ?vs + 8" 192 "entry_stack rsp0 r - 192" a] l unfolding b by auto
  then show ?thesis using frame_other[of "entry_stack rsp0 r" ?vs a] l by (simp add: handler_state_def frame_address_def)
qed

text \<open>
  C3. The assembly builds the structure that the C++ handlers read. For every vector that goes through \<^verbatim>\<open>TrapCommon\<close>, except the clock's (123) and
  the exceptions 17, 21, 29 and 30, whose stubs are followed further below, the interrupt ends in one call of \<^verbatim>\<open>TrapHandler\<close> whose argument points to an \<^verbatim>\<open>InterruptRegisters\<close> with each
  register of the interrupted code in the member of its name, the flags, the vector, and the error code or zero. Interrupts are off,
  nothing else in the state has changed, and memory only in the 192 bytes below the entry stack. When the handler returns, the registers are
  loaded from the frame it returns; when it has switched to the scheduler, they are not.
\<close>

theorem trap_frame:
  assumes "common_vector n" and "error_code_agrees n" and "handler_label n = Some l"
  shows "\<exists>p s1. exec 2 e (routine l) (deliver rsp0 n err (r, s)) = trap_flow e (TrapHandler (apic_hw e) p s1)
    \<and> (\<forall>x. reg s1 p x = frame_value n err r s x) \<and> \<not> interrupts_on (rflags s1)
    \<and> s1\<lparr>mem := mem s, rflags := rflags s\<rparr> = s \<and> (\<forall>a. \<not> inside (entry_stack rsp0 r - 192) 192 a \<longrightarrow> mem s1 a = mem s a)"
proof (intro exI conjI allI impI)
  let ?s1 = "handler_state e rsp0 n err r s" and ?p = "frame_address rsp0 n err r s"
  show "exec 2 e (routine l) (deliver rsp0 n err (r, s)) = trap_flow e (TrapHandler (apic_hw e) ?p ?s1)"
    by (rule stub_runs[OF assms(1,3)])
  show "reg ?s1 ?p x = frame_value n err r s x" for x by (rule frame_reads[OF assms(2)])
  show "mem ?s1 a = mem s a" if "\<not> inside (entry_stack rsp0 r - 192) 192 a" for a by (rule handler_state_other[OF that])
  show "\<not> interrupts_on (rflags ?s1)"
    by (simp add: handler_state_def interrupts_on_bit bit_simps)
qed (simp add: handler_state_def)

text \<open>User code at \<open>0x1234\<close> with the stack \<open>0x5000\<close>.\<close>

definition sample_env :: trap_env where
  "sample_env = \<lparr>apic_hw = \<lambda>_ _ _. 0, after_call = 0xFFFFFFFF80001000, junk = \<lambda>_. 0xBAD\<rparr>"

definition user_regs :: regs where
  "user_regs = (\<lambda>_. 7)(Rip := 0x1234, Cs := 0x2B, Rsp := 0x5000, Ss := 0x33)"

theorem trap_frame_witness:
  "\<exists>p s1. exec 2 sample_env (routine (Isr 14)) (deliver 0xFFFF800000009000 14 4 (user_regs, sample_boot))
       = trap_flow sample_env (TrapHandler (apic_hw sample_env) p s1)
     \<and> reg s1 p InterruptNumber = 14 \<and> reg s1 p ErrorCode = 4 \<and> reg s1 p Rip = 0x1234 \<and> reg s1 p R12 = 7"
proof -
  have "common_vector 14" "error_code_agrees 14" "handler_label 14 = Some (Isr 14)"
    by (simp_all add: common_vector_def error_code_agrees_def handler_label_def)
  from trap_frame[OF this, of sample_env "0xFFFF800000009000" 4 user_regs sample_boot] obtain p s1 where
    "exec 2 sample_env (routine (Isr 14)) (deliver 0xFFFF800000009000 14 4 (user_regs, sample_boot))
       = trap_flow sample_env (TrapHandler (apic_hw sample_env) p s1)"
    "\<forall>x. reg s1 p x = frame_value 14 4 user_regs sample_boot x" by blast
  then show ?thesis by (intro exI[of _ p] exI[of _ s1]) (simp add: frame_value_def pushes_error_code_def user_regs_def)
qed

section \<open>Return\<close>

lemma of_nat_vector: "n < 1000 \<Longrightarrow> k < 1000 \<Longrightarrow> (of_nat n :: u64) = of_nat k \<longleftrightarrow> n = k"
proof -
  assume "n < 1000" "k < 1000"
  then have "unat (of_nat n :: u64) = n" "unat (of_nat k :: u64) = k" by (simp_all add: unat_of_nat64)
  then show ?thesis by metis
qed

text \<open>The vectors whose handler always comes back: all but the double fault and the two faults that end processes.\<close>

lemma TrapHandler_returns:
  assumes n: "reg s p InterruptNumber = of_nat n" "n < 1000" "n \<notin> {8, 13, 14}" and cpu: "thisCPU s \<noteq> None" and free: "lock_held (logLock s) = 0"
  obtains t where "TrapHandler hw p s = Inr (Returns p, t)" and "mem t = mem s" and "ProcessTable t = ProcessTable s"
    and "cr3 t = cr3 s" and "lapic_writes t = lapic_writes s @ (if n = 32 then [(lapic s + 0xB0, 0)] else [])"
proof -
  note eq = of_nat_vector[OF n(2)]
  have e: "of_nat n = (128 :: u64) \<longleftrightarrow> n = 128" "of_nat n = (32 :: u64) \<longleftrightarrow> n = 32" "of_nat n \<noteq> (8 :: u64)" "of_nat n \<noteq> (13 :: u64)" "of_nat n \<noteq> (14 :: u64)"
    using eq[of 128] eq[of 32] eq[of 8] eq[of 13] eq[of 14] n(3) by simp_all
  consider "n = 128" | "n = 32" | "n \<noteq> 128" "n \<noteq> 32" by blast
  then show ?thesis
  proof cases
    case 1
    then show ?thesis using n(1) by (intro that[of s]) (simp_all add: TrapHandler_def SyscallInterrupt_def)
  next
    case 2
    then show ?thesis using n(1)
      by (intro that[of "acknowledgeInterrupt hw s"])
         (simp_all add: TrapHandler_def SyscallInterrupt_def acknowledgeInterrupt_def writeLAPIC_def readLAPIC_def)
  next
    case 3
    have same: "run_same s s" using cpu free by (simp add: run_same_def)
    have "prints ''unhandled interrupt %d/%llx\<newline>'' [ArgInt (ucast (of_nat n :: u64)), ArgLong (of_nat n)]" by simp
    from log_line_ok[OF same this] obtain t where
      t: "log_line ''unhandled interrupt %d/%llx\<newline>'' [ArgInt (ucast (of_nat n :: u64)), ArgLong (of_nat n)] s = Inr t"
      "run_same s t" "mem t = mem s" .
    moreover have "ProcessTable t = ProcessTable s" "cr3 t = cr3 s" "lapic_writes t = lapic_writes s"
      using t(2) by (cases s; cases t; simp add: run_same_def)+
    ultimately show ?thesis using 3 n(1) e by (intro that[of t]) (simp_all add: TrapHandler_def SyscallInterrupt_def Let_def)
  qed
qed

lemma common_vector_less: "common_vector n \<Longrightarrow> n < 1000"
  by (auto simp: common_vector_def)

lemma handler_state_same:
  "thisCPU (handler_state e rsp0 n err r s) = thisCPU s" "logLock (handler_state e rsp0 n err r s) = logLock s"
  "ProcessTable (handler_state e rsp0 n err r s) = ProcessTable s" "cr3 (handler_state e rsp0 n err r s) = cr3 s"
  "lapic_writes (handler_state e rsp0 n err r s) = lapic_writes s" "lapic (handler_state e rsp0 n err r s) = lapic s"
  by (simp_all add: handler_state_def thisCPU_def lapicID_def)

text \<open>The run of a stub whose handler comes back, for either number of words on the stack.\<close>

lemma stub_returns:
  assumes "common_vector n" and "n \<notin> {8, 13, 14}" and "handler_label n = Some l"
    and num: "reg (handler_state e rsp0 n err r s) (frame_address rsp0 n err r s) InterruptNumber = of_nat n"
    and "thisCPU s \<noteq> None" and "lock_held (logLock s) = 0"
  obtains r' s' where "exec 2 e (routine l) (deliver rsp0 n err (r, s)) = Inr (Resume r' s')"
    and "\<And>x. is_register x \<Longrightarrow> r' x = reg (handler_state e rsp0 n err r s) (frame_address rsp0 n err r s) x"
    and "rflags s' = reg (handler_state e rsp0 n err r s) (frame_address rsp0 n err r s) Rflags"
    and "\<And>a. \<not> inside (entry_stack rsp0 r - 192) 192 a \<Longrightarrow> mem s' a = mem s a"
    and "ProcessTable s' = ProcessTable s" and "cr3 s' = cr3 s"
    and "lapic_writes s' = lapic_writes s @ (if n = 32 then [(lapic s + 0xB0, 0)] else [])"
proof -
  let ?p = "frame_address rsp0 n err r s" and ?s1 = "handler_state e rsp0 n err r s"
  have "thisCPU ?s1 \<noteq> None" "lock_held (logLock ?s1) = 0" using assms(5,6) by (simp_all add: handler_state_same)
  from TrapHandler_returns[OF num common_vector_less[OF assms(1)] assms(2) this, of "apic_hw e"]
  obtain t where t: "TrapHandler (apic_hw e) ?p ?s1 = Inr (Returns ?p, t)" "mem t = mem ?s1" "ProcessTable t = ProcessTable ?s1"
    "cr3 t = cr3 ?s1" "lapic_writes t = lapic_writes ?s1 @ (if n = 32 then [(lapic ?s1 + 0xB0, 0)] else [])" .
  let ?s' = "t\<lparr>rflags := load64 (mem t) (?p + ir_offset Rflags)\<rparr>"
  have "exec 2 e (routine l) (deliver rsp0 n err (r, s)) = Inr (Resume (restored (mem t) ?p (junk e)) ?s')"
    by (simp add: stub_runs[OF assms(1,3)] trap_flow_def t(1))
  then show ?thesis
    by (rule that) (use t in \<open>simp_all add: restored_def reg_def handler_state_same handler_state_other\<close>)
qed

text \<open>
  C4. An interrupt is invisible to the code that it interrupts. For every vector through \<^verbatim>\<open>TrapCommon\<close> but the clock's, whose handler comes back (not 8, 13, 14)
  and whose error code the stub knows about (not 17, 21, 29, 30), in any registers and on any stack, the processor resumes with every register, the segments, the stack pointer, the
  instruction pointer and the flags as they were; memory has changed only below the entry stack, the process table and the address space not at all. The
  timer, and no other vector, is acknowledged at the local APIC.
\<close>

theorem interrupts_are_transparent:
  assumes "common_vector n" and "error_code_agrees n" and "n \<notin> {8, 13, 14}" and "handler_label n = Some l"
    and "thisCPU s \<noteq> None" and "lock_held (logLock s) = 0"
  shows "\<exists>r' s'. exec 2 e (routine l) (deliver rsp0 n err (r, s)) = Inr (Resume r' s')
    \<and> (\<forall>x. is_register x \<longrightarrow> r' x = r x) \<and> rflags s' = rflags s
    \<and> (\<forall>a. \<not> inside (entry_stack rsp0 r - 192) 192 a \<longrightarrow> mem s' a = mem s a)
    \<and> ProcessTable s' = ProcessTable s \<and> cr3 s' = cr3 s
    \<and> lapic_writes s' = lapic_writes s @ (if n = 32 then [(lapic s + 0xB0, 0)] else [])"
proof -
  note reads = frame_reads[OF assms(2), of e rsp0 err r s]
  have "reg (handler_state e rsp0 n err r s) (frame_address rsp0 n err r s) InterruptNumber = of_nat n"
    unfolding reads by (simp add: frame_value_def)
  from stub_returns[OF assms(1,3,4) this assms(5,6)] obtain r' s' where
    "exec 2 e (routine l) (deliver rsp0 n err (r, s)) = Inr (Resume r' s')"
    "\<And>x. is_register x \<Longrightarrow> r' x = frame_value n err r s x" "rflags s' = frame_value n err r s Rflags"
    "\<And>a. \<not> inside (entry_stack rsp0 r - 192) 192 a \<Longrightarrow> mem s' a = mem s a"
    "ProcessTable s' = ProcessTable s" "cr3 s' = cr3 s" "lapic_writes s' = lapic_writes s @ (if n = 32 then [(lapic s + 0xB0, 0)] else [])"
    unfolding reads by blast
  moreover have "frame_value n err r s x = r x" if "is_register x" for x
    using that by (cases x) (simp_all add: frame_value_def is_register_def)
  ultimately show ?thesis by (intro exI[of _ r'] exI[of _ s']) (simp add: frame_value_def)
qed

lemma sample_processor: "thisCPU (sample_boot\<lparr>CPUs := [zero_CPUState]\<rparr>) = Some 0" "lock_held (logLock (sample_boot\<lparr>CPUs := [zero_CPUState]\<rparr>)) = 0"
  by (simp_all add: thisCPU_def lapicID_def zero_CPUState_def sample_boot_def lock_held_def)

theorem interrupts_are_transparent_witness:
  "\<exists>r' s'. exec 2 sample_env (routine (Irq 0)) (deliver 0xFFFF800000009000 32 0 (user_regs, sample_boot\<lparr>CPUs := [zero_CPUState]\<rparr>)) = Inr (Resume r' s')
     \<and> r' Rip = 0x1234 \<and> r' Rsp = 0x5000 \<and> r' R12 = 7 \<and> rflags s' = rflags sample_boot"
proof -
  let ?s = "sample_boot\<lparr>CPUs := [zero_CPUState]\<rparr>"
  have v: "common_vector 32" "error_code_agrees 32" "(32 :: nat) \<notin> {8, 13, 14}" "handler_label 32 = Some (Irq 0)"
    by (simp_all add: common_vector_def error_code_agrees_def handler_label_def)
  have "thisCPU ?s \<noteq> None" using sample_processor(1) by simp
  from interrupts_are_transparent[OF v this sample_processor(2), of sample_env "0xFFFF800000009000" 0 user_regs]
  obtain r' s' where "exec 2 sample_env (routine (Irq 0)) (deliver 0xFFFF800000009000 32 0 (user_regs, ?s)) = Inr (Resume r' s')"
    "\<forall>x. is_register x \<longrightarrow> r' x = user_regs x" "rflags s' = rflags ?s" by blast
  then show ?thesis by (intro exI[of _ r'] exI[of _ s']) (simp add: is_register_def user_regs_def)
qed

section \<open>Error codes\<close>

text \<open>
  C20. Four exceptions for which the processor pushes an error code have a stub that pushes a zero in its place as well: alignment check
  (17), control protection (21), and the two of virtualisation (29, 30). The frame is one word off, the handler does not notice, and the return loads the error code into the
  instruction pointer, the instruction pointer into the code segment, the code segment into the flags, the flags into the stack
  pointer and the stack pointer into the stack segment.
\<close>

theorem error_code_shifts_frame:
  assumes "n \<in> {17, 21, 29, 30}" and "thisCPU s \<noteq> None" and "lock_held (logLock s) = 0"
  shows "\<exists>r' s'. exec 2 e (routine (Isr n)) (deliver rsp0 n err (r, s)) = Inr (Resume r' s')
    \<and> r' Rip = err \<and> r' Cs = r Rip \<and> rflags s' = r Cs \<and> r' Rsp = rflags s \<and> r' Ss = r Rsp"
proof -
  have v: "common_vector n" "n \<notin> {8, 13, 14}" "handler_label n = Some (Isr n)" and d: "\<not> error_code_agrees n"
    using assms(1) by (auto simp: common_vector_def handler_label_def error_code_agrees_def)
  have reads: "reg (handler_state e rsp0 n err r s) (frame_address rsp0 n err r s) x = rev (entry_values [err, 0, of_nat n] r s) ! ir_slot x" for x
    using handler_reg_slot[of n err e rsp0 r s x] stub_values_agree(2)[OF d, of err] by simp
  have "reg (handler_state e rsp0 n err r s) (frame_address rsp0 n err r s) InterruptNumber = of_nat n"
    unfolding reads by (simp add: entry_values_def saved_registers_def)
  note run = stub_returns[OF v this assms(2,3), unfolded reads]
  obtain r' s' where r': "exec 2 e (routine (Isr n)) (deliver rsp0 n err (r, s)) = Inr (Resume r' s')"
    "\<And>x. is_register x \<Longrightarrow> r' x = rev (entry_values [err, 0, of_nat n] r s) ! ir_slot x"
    "rflags s' = rev (entry_values [err, 0, of_nat n] r s) ! ir_slot Rflags"
    "\<And>a. \<not> inside (entry_stack rsp0 r - 192) 192 a \<Longrightarrow> mem s' a = mem s a"
    "ProcessTable s' = ProcessTable s" "cr3 s' = cr3 s" "lapic_writes s' = lapic_writes s @ (if n = 32 then [(lapic s + 0xB0, 0)] else [])"
    by (rule run) blast
  have "r' Rip = err" "r' Cs = r Rip" "rflags s' = r Cs" "r' Rsp = rflags s" "r' Ss = r Rsp"
    using r'(2)[of Rip] r'(2)[of Cs] r'(2)[of Rsp] r'(2)[of Ss] r'(3) by (simp_all add: is_register_def entry_values_def saved_registers_def)
  then show ?thesis using r'(1) by blast
qed

theorem error_code_shifts_frame_witness:
  "\<exists>r' s'. exec 2 sample_env (routine (Isr 17)) (deliver 0xFFFF800000009000 17 0 (user_regs, sample_boot\<lparr>CPUs := [zero_CPUState]\<rparr>)) = Inr (Resume r' s')
     \<and> r' Rip = 0 \<and> r' Cs = 0x1234"
proof -
  have "user_regs Rip = 0x1234" by (simp add: user_regs_def)
  moreover have "thisCPU (sample_boot\<lparr>CPUs := [zero_CPUState]\<rparr>) \<noteq> None" using sample_processor(1) by simp
  ultimately show ?thesis using error_code_shifts_frame[of 17, OF _ _ sample_processor(2), of sample_env "0xFFFF800000009000" 0 user_regs] by auto
qed

section \<open>Stubs without a handler\<close>

text \<open>The words of the processor below a stack with one more word under them.\<close>

lemma interrupt_words:
  assumes "deliver rsp0 n err (r, s) = (r1, s1)" and "\<not> pushes_error_code n"
  shows "r1 Rsp = entry_stack rsp0 r - 40"
    and "k < 5 \<Longrightarrow> load64 (store64 (mem s1) (entry_stack rsp0 r - 48) v) (entry_stack rsp0 r - 40 + 8 * of_nat k) = [r Rip, r Cs, rflags s, r Rsp, r Ss] ! k"
    and "\<not> inside (entry_stack rsp0 r - 48) 48 a \<Longrightarrow> store64 (mem s1) (entry_stack rsp0 r - 48) v a = mem s a"
    and "\<And>x. x \<notin> {Rsp, Cs, Ss} \<Longrightarrow> r1 x = r x" and "s1\<lparr>mem := m, rflags := f\<rparr> = s\<lparr>mem := m, rflags := f\<rparr>"
    and "rflags s1 = rflags s AND NOT 0x34300"
proof -
  let ?vs = "[r Ss, r Rsp, rflags s, r Cs, r Rip]"
  have s1: "mem s1 = snd (fold push ?vs (entry_stack rsp0 r, mem s))" using assms by (auto simp: deliver_eq Let_def)
  show "load64 (store64 (mem s1) (entry_stack rsp0 r - 48) v) (entry_stack rsp0 r - 40 + 8 * of_nat k) = [r Rip, r Cs, rflags s, r Rsp, r Ss] ! k" if "k < 5"
    using frame_slot[of k ?vs "entry_stack rsp0 r" "mem s" v] that unfolding s1 by simp
  show "store64 (mem s1) (entry_stack rsp0 r - 48) v a = mem s a" if "\<not> inside (entry_stack rsp0 r - 48) 48 a"
    using frame_other[of "entry_stack rsp0 r" ?vs a "mem s" v] that unfolding s1 by simp
qed (use assms in \<open>auto simp: deliver_eq Let_def\<close>)

lemma iretq_words:
  assumes "\<And>k. k < 5 \<Longrightarrow> load64 (mem t) (sp + 8 * of_nat k) = [r Rip, r Cs, fl, r Rsp, r Ss] ! k"
    and "\<And>x. is_register x \<Longrightarrow> x \<notin> {Rip, Cs, Rsp, Ss} \<Longrightarrow> r1 x = r x" and "r1 Rsp = sp"
  shows "\<exists>r'. iretq (r1, t) = Resume r' (t\<lparr>rflags := fl\<rparr>) \<and> (\<forall>x. is_register x \<longrightarrow> r' x = r x)"
proof -
  have w: "load64 (mem t) sp = r Rip" "load64 (mem t) (sp + 8) = r Cs" "load64 (mem t) (sp + 16) = fl" "load64 (mem t) (sp + 24) = r Rsp"
    "load64 (mem t) (sp + 32) = r Ss"
    using assms(1)[of 0] assms(1)[of 1] assms(1)[of 2] assms(1)[of 3] assms(1)[of 4] by simp_all
  let ?r = "r1(Rip := r Rip, Cs := r Cs, Rsp := r Rsp, Ss := r Ss)"
  have "iretq (r1, t) = Resume ?r (t\<lparr>rflags := fl\<rparr>)" using w assms(3) by (simp add: iretq_def pop_def Let_def add.commute[of sp])
  moreover have "?r x = r x" if "is_register x" for x using assms(2)[OF that] by auto
  ultimately show ?thesis by blast
qed

lemma lapic_register: "inside a 4096 (a + 0xB0)"
  by (simp add: inside_def)

lemmas stub_codes = isr_stub_def HaltInterrupt2_def ClockInterrupt_def BadTLBInterrupt_def HaltInterrupt_def NoOpInterrupt_def

text \<open>The stubs of the messages between processors, after the delivery.\<close>

lemma message_stub_run:
  assumes "n \<in> {124, 126}" and "r1 Rsp = sp"
  shows "exec 2 e (routine (Isr n)) (r1, s1) = Inr (iretq (r1, s1\<lparr>mem := store64 (mem s1) (sp - 8) (r1 R12),
      lapic_writes := lapic_writes s1 @ [(lapic s1 + 0xB0, 0)]\<rparr>))"
proof -
  have "r1(Rsp := sp, R12 := r1 R12) = r1" using assms(2) by auto
  then show ?thesis using assms(1)
    by (elim insertE emptyE)
       (simp_all add: stub_codes isr_BadTLBInterrupt_def isr_NoOpInterrupt_def step_def push_value_def push_def pop_def store_long_def
         lapic_register assms(2) fun_upd_twist)
qed

text \<open>
  The stubs without a handler. The one that reloads the translations and the one that does nothing give back the registers and the flags,
  acknowledge the interrupt at the local APIC and keep the address space; the two that halt a processor do not come back.
\<close>

theorem message_stubs:
  "(n \<in> {124, 126} \<longrightarrow> (\<exists>r' s'. exec 2 e (routine (Isr n)) (deliver rsp0 n err (r, s)) = Inr (Resume r' s')
      \<and> (\<forall>x. is_register x \<longrightarrow> r' x = r x) \<and> rflags s' = rflags s \<and> cr3 s' = cr3 s
      \<and> lapic_writes s' = lapic_writes s @ [(lapic s + 0xB0, 0)]
      \<and> (\<forall>a. \<not> inside (entry_stack rsp0 r - 48) 48 a \<longrightarrow> mem s' a = mem s a)))
   \<and> (n \<in> {2, 125} \<longrightarrow> exec 2 e (routine (Isr n)) (deliver rsp0 n err (r, s)) = Inl Halted)"
proof (intro conjI impI)
  assume n: "n \<in> {124, 126}"
  obtain r1 s1 where d: "deliver rsp0 n err (r, s) = (r1, s1)" by fastforce
  have ne: "\<not> pushes_error_code n" using n by (auto simp: pushes_error_code_def)
  note w = interrupt_words[OF d ne]
  let ?m = "store64 (mem s1) (entry_stack rsp0 r - 48) (r1 R12)"
  let ?t = "s1\<lparr>mem := ?m, lapic_writes := lapic_writes s1 @ [(lapic s1 + 0xB0, 0)]\<rparr>"
  have same: "lapic_writes s1 = lapic_writes s" "lapic s1 = lapic s" "cr3 s1 = cr3 s"
    using d by (auto simp: deliver_eq Let_def)
  have "exec 2 e (routine (Isr n)) (deliver rsp0 n err (r, s)) = Inr (iretq (r1, ?t))"
    using message_stub_run[of n r1 "entry_stack rsp0 r - 40" e s1] n w(1) unfolding d by simp
  moreover obtain r' where "iretq (r1, ?t) = Resume r' (?t\<lparr>rflags := rflags s\<rparr>)" "\<forall>x. is_register x \<longrightarrow> r' x = r x"
    using iretq_words[of ?t "entry_stack rsp0 r - 40" r "rflags s" r1] w(1,2,4) by fastforce
  ultimately show "\<exists>r' s'. exec 2 e (routine (Isr n)) (deliver rsp0 n err (r, s)) = Inr (Resume r' s')
      \<and> (\<forall>x. is_register x \<longrightarrow> r' x = r x) \<and> rflags s' = rflags s \<and> cr3 s' = cr3 s
      \<and> lapic_writes s' = lapic_writes s @ [(lapic s + 0xB0, 0)]
      \<and> (\<forall>a. \<not> inside (entry_stack rsp0 r - 48) 48 a \<longrightarrow> mem s' a = mem s a)"
    using w(3) same by (intro exI[of _ r'] exI[of _ "?t\<lparr>rflags := rflags s\<rparr>"]) (simp del: exec.simps routine.simps)
next
  assume "n \<in> {2, 125}"
  then show "exec 2 e (routine (Isr n)) (deliver rsp0 n err (r, s)) = Inl Halted"
    by (cases "deliver rsp0 n err (r, s)") (auto simp: stub_codes step_def numeral_2_eq_2 split: if_splits)
qed

theorem message_stubs_witness:
  "\<exists>r' s'. exec 2 sample_env (routine (Isr 126)) (deliver 0xFFFF800000009000 126 0 (user_regs, sample_boot)) = Inr (Resume r' s')
     \<and> r' R12 = 7 \<and> lapic_writes s' = lapic_writes sample_boot @ [(lapic sample_boot + 0xB0, 0)]"
proof -
  obtain r' s' where "exec 2 sample_env (routine (Isr 126)) (deliver 0xFFFF800000009000 126 0 (user_regs, sample_boot)) = Inr (Resume r' s')"
    "\<forall>x. is_register x \<longrightarrow> r' x = user_regs x" "lapic_writes s' = lapic_writes sample_boot @ [(lapic sample_boot + 0xB0, 0)]"
    using message_stubs[of 126 sample_env "0xFFFF800000009000" 0 user_regs sample_boot] by blast
  moreover have "user_regs R12 = 7" "is_register R12" by (simp_all add: user_regs_def is_register_def)
  ultimately show ?thesis by metis
qed

lemma zero_flag: "bit (f OR 0x40 :: u64) 6" "\<not> bit (f AND - 65 :: u64) 6"
proof -
  have "\<not> bit (f AND NOT 0x40 :: u64) 6" by (simp only: bit_simps) simp
  then show "\<not> bit (f AND - 65 :: u64) 6" by (simp del: bit_and_iff)
qed (simp add: bit_simps)

lemma clock_stub_run:
  assumes "r1 Rsp = sp"
  shows "exec 2 e (routine (Isr 123)) (r1, s1) =
    (let m = store64 (mem s1) (sp - 8) (r1 R12); m1 = store64 m (sp - 8) 0
     in if load64 m (sp + 8) = 8 then Inr (iretq (r1, s1\<lparr>mem := m, rflags := rflags s1 OR 0x40\<rparr>))
        else exec 1 e TrapCommon_code (r1(Rsp := sp - 16), s1\<lparr>rflags := rflags s1 AND NOT 0x40, mem := store64 m1 (sp - 16) (load64 m1 123)\<rparr>))"
proof -
  have r: "r1(R12 := r1 R12) = r1" "r1(Rsp := sp) = r1" "r1(Rsp := sp, R12 := r1 R12) = r1" using assms by auto
  show ?thesis
    by (simp add: Let_def stub_codes isr_ClockInterrupt_def step_def push_value_def push_def pop_def assms zero_flag r numeral_2_eq_2
        fun_upd_twist del: bit_or_iff bit_and_iff)
qed

text \<open>The word under the error code is the number that the handler sees.\<close>

lemma TrapCommon_number:
  "\<exists>p t. exec f e TrapCommon_code (r(Rsp := sp - 8), s\<lparr>mem := store64 m (sp - 8) v\<rparr>) = trap_flow e (TrapHandler (apic_hw e) p t)
     \<and> reg t p InterruptNumber = v"
proof -
  let ?r = "r(Rsp := sp - 8)" and ?m = "store64 m (sp - 8) v"
  let ?vs = "v # map ?r saved_registers"
  let ?t = "s\<lparr>rflags := rflags s AND NOT 0x400, mem := store64 (snd (fold push (map ?r saved_registers) (sp - 8, ?m))) (sp - 136) (after_call e)\<rparr>"
  have p: "fold push (map ?r saved_registers) (sp - 8, ?m) = fold push ?vs (sp, m)" by (simp add: push_def)
  have n: "length ?vs = 16" by (simp add: saved_registers_def)
  have "load64 (store64 (snd (fold push ?vs (sp, m))) (sp - 136) (after_call e)) (sp - 128 + 8 * of_nat 15) = rev ?vs ! 15"
    using frame_slot[of 15 ?vs sp m "after_call e"] unfolding n by simp
  then have "reg ?t (sp - 128) InterruptNumber = v" unfolding reg_def p by (simp add: saved_registers_def)
  moreover have "exec f e TrapCommon_code (?r, s\<lparr>mem := ?m\<rparr>) = trap_flow e (TrapHandler (apic_hw e) (sp - 128) ?t)"
    unfolding TrapCommon_run by simp
  ultimately show ?thesis by blast
qed

text \<open>
  C21. The clock stub does not do what it is for. It computes the address of the register for the end of the interrupt and does not write to it: in kernel code it returns with
  every register and the flags restored and the interrupt not acknowledged. In other code it goes on to the handler, but with the word in memory at address 123
  for a vector in place of the number 123. The model's memory has no faults: that page is not mapped in the address spaces that the kernel builds, where the push would fault.
\<close>

theorem clock_stub:
  "(r Cs = 8 \<longrightarrow> (\<exists>r' s'. exec 2 e (routine (Isr 123)) (deliver rsp0 123 err (r, s)) = Inr (Resume r' s')
      \<and> (\<forall>x. is_register x \<longrightarrow> r' x = r x) \<and> rflags s' = rflags s \<and> lapic_writes s' = lapic_writes s))
   \<and> (r Cs \<noteq> 8 \<and> apart (entry_stack rsp0 r - 48) 48 123 8 \<longrightarrow>
        (\<exists>p s1. exec 2 e (routine (Isr 123)) (deliver rsp0 123 err (r, s)) = trap_flow e (TrapHandler (apic_hw e) p s1)
           \<and> reg s1 p InterruptNumber = load64 (mem s) 123))"
proof -
  obtain r1 s1 where d: "deliver rsp0 123 err (r, s) = (r1, s1)" by fastforce
  have ne: "\<not> pushes_error_code 123" by (simp add: pushes_error_code_def)
  let ?sp = "entry_stack rsp0 r"
  note w = interrupt_words[OF d ne]
  define m where "m = store64 (mem s1) (?sp - 48) (r1 R12)"
  define m1 where "m1 = store64 m (?sp - 48) 0"
  have cs: "load64 m (?sp - 40 + 8) = r Cs" using w(2)[of 1 "r1 R12"] by (simp add: m_def)
  have run: "exec 2 e (routine (Isr 123)) (deliver rsp0 123 err (r, s)) =
    (if r Cs = 8 then Inr (iretq (r1, s1\<lparr>mem := m, rflags := rflags s1 OR 0x40\<rparr>))
     else exec 1 e TrapCommon_code (r1(Rsp := ?sp - 56), s1\<lparr>rflags := rflags s1 AND NOT 0x40, mem := store64 m1 (?sp - 56) (load64 m1 123)\<rparr>))"
    using clock_stub_run[of r1 "?sp - 40" e s1] w(1) cs unfolding d by (simp add: m_def m1_def Let_def del: exec.simps routine.simps)
  show ?thesis
  proof (intro conjI impI)
    assume k: "r Cs = 8"
    let ?t = "s1\<lparr>mem := m, rflags := rflags s1 OR 0x40\<rparr>"
    obtain r' where "iretq (r1, ?t) = Resume r' (?t\<lparr>rflags := rflags s\<rparr>)" "\<forall>x. is_register x \<longrightarrow> r' x = r x"
      using iretq_words[of ?t "?sp - 40" r "rflags s" r1] w(1,4) w(2)[of _ "r1 R12"] by (fastforce simp: m_def)
    moreover have "lapic_writes s1 = lapic_writes s" using d by (auto simp: deliver_eq Let_def)
    ultimately show "\<exists>r' s'. exec 2 e (routine (Isr 123)) (deliver rsp0 123 err (r, s)) = Inr (Resume r' s')
        \<and> (\<forall>x. is_register x \<longrightarrow> r' x = r x) \<and> rflags s' = rflags s \<and> lapic_writes s' = lapic_writes s"
      using k unfolding run by (intro exI[of _ r'] exI[of _ "?t\<lparr>rflags := rflags s\<rparr>"]) simp
  next
    assume u: "r Cs \<noteq> 8 \<and> apart (?sp - 48) 48 123 8"
    have "m1 a = mem s a" if "inside 123 8 a" for a
    proof -
      have out: "\<not> inside (?sp - 48) 48 a" using apart_inside[of "?sp - 48" 48 123 8 a] u that by blast
      then have "\<not> inside (?sp - 48) 8 a" using inside_shift[of 0 8 48 "?sp - 48" a] by auto
      then show ?thesis using w(3)[OF out, of "r1 R12"] by (simp add: m1_def m_def store64_other)
    qed
    then have l: "load64 m1 123 = load64 (mem s) 123" by (rule load64_cong)
    show "\<exists>p s1. exec 2 e (routine (Isr 123)) (deliver rsp0 123 err (r, s)) = trap_flow e (TrapHandler (apic_hw e) p s1)
           \<and> reg s1 p InterruptNumber = load64 (mem s) 123"
      using TrapCommon_number[where f = 1 and e = e and r = r1 and sp = "?sp - 48" and m = m1 and v = "load64 (mem s) 123" and s = "s1\<lparr>rflags := rflags s1 AND NOT 0x40\<rparr>"] u
      unfolding run l by (simp del: exec.simps)
  qed
qed

theorem clock_stub_witness:
  "\<exists>p s1. exec 2 sample_env (routine (Isr 123)) (deliver 0xFFFF800000009000 123 0 (user_regs, sample_boot\<lparr>mem := \<lambda>_. 0\<rparr>))
       = trap_flow sample_env (TrapHandler (apic_hw sample_env) p s1) \<and> reg s1 p InterruptNumber = 0"
proof -
  have "user_regs Cs \<noteq> 8 \<and> apart (entry_stack 0xFFFF800000009000 user_regs - 48) 48 123 8"
    by (simp add: user_regs_def entry_stack_def apart_def take_bit_eq_mod)
  moreover have zero: "load64 (mem (sample_boot\<lparr>mem := \<lambda>_. 0\<rparr>)) 123 = 0" by (simp add: load64_zero)
  ultimately show ?thesis
    using clock_stub[of user_regs sample_env "0xFFFF800000009000" 0 "sample_boot\<lparr>mem := \<lambda>_. 0\<rparr>"] zero by (simp only: simp_thms)
qed

end
