(* ===== verification/System_Calls.thy ===== *)
theory System_Calls
  imports Trap_Entry
begin

text \<open>
  System calls: the processor's \<^verbatim>\<open>syscall\<close>, \<^verbatim>\<open>SyscallHandler\<close> of \<^verbatim>\<open>src/Kernel/Traps.S\<close> and \<^verbatim>\<open>KernelSyscallHandler\<close>, on a processor that
  \<^verbatim>\<open>SharedMain\<close> has set up. The handler finds the entry of its processor through the base of the \<^verbatim>\<open>gs\<close> segment, which the lemmas follow
  through both exchanges.
\<close>

section \<open>A processor that takes system calls\<close>

definition syscall_ready :: "symbols \<Rightarrow> nat \<Rightarrow> 'a boot_state_scheme \<Rightarrow> bool" where
  "syscall_ready sy c s \<longleftrightarrow> msrs s 0xC0000081 = 0x001B000800000000 \<and> msrs s 0xC0000082 = SyscallHandler sy
     \<and> msrs s 0xC0000102 = CPUs_addr s + sizeof_CPUState * of_nat c \<and> c < length (CPUs s) \<and> length (CPUs s) < 2 ^ 32"

lemma halves: "push_bit 32 (ucast (ucast (drop_bit 32 b) :: u32)) OR ucast (ucast b :: u32) = (b :: u64)"
  by (rule bit_word_eqI) (auto simp: bit_simps)

lemma setupProcessor_ready:
  assumes "c < length (CPUs s)" and "length (CPUs s) < 2 ^ 32"
  shows "syscall_ready sy c (setupProcessor sy c stack s)"
  using assms
  by (simp add: syscall_ready_def setupProcessor_def Let_def setStarRegister_def setSyscallRIP_def setKernelGSBase_def cpuSetMSR_def swapgs_def
      split_beta halves sizeof_UserEntry_def Ring0_def Ring3_def)

lemma gs_cpu_entry:
  assumes "msrs s 0xC0000101 = CPUs_addr s + sizeof_CPUState * of_nat c" and "c < length (CPUs s)" and "length (CPUs s) < 2 ^ 32"
  shows "gs_cpu s = Some c"
proof -
  have eq: "i = c" if "i < length (CPUs s)" "sizeof_CPUState * of_nat i = sizeof_CPUState * of_nat c" for i
  proof -
    have "of_nat (224 * i) = (of_nat (224 * c) :: u64)" using that(2) by (simp add: sizeof_CPUState_def offsetof_table_def)
    moreover have "224 * i < 2 ^ 64" "224 * c < 2 ^ 64" using that(1) assms(2,3) by simp_all
    ultimately have "224 * i = 224 * c" by (metis unat_of_nat64)
    then show ?thesis by simp
  qed
  have "sizeof_CPUState * of_nat j \<noteq> sizeof_CPUState * of_nat c" if "j < c" for j using eq[of j] that assms(2) by auto
  then show ?thesis using assms(1,2) unfolding gs_cpu_def find_Some_iff by (intro exI[of _ c]) auto
qed

section \<open>The code\<close>

lemma exec_pops:
  "exec f e (map PopR xs @ is) (r, s) = exec f e is (fold (\<lambda>x r. r(Rsp := r Rsp + 8, x := load64 (mem s) (r Rsp))) xs r, s)"
  by (induction xs arbitrary: r) (simp_all add: step_def pop_def)

lemma pop_registers:
  "fold (\<lambda>x r. r(Rsp := r Rsp + 8, x := load64 m (r Rsp))) (rev saved_registers) (r(Rsp := p))
     = (\<lambda>x. if x \<in> set saved_registers then load64 m (p + ir_offset x) else if x = Rsp then p + 120 else r x)"
proof
  show "fold (\<lambda>x r. r(Rsp := r Rsp + 8, x := load64 m (r Rsp))) (rev saved_registers) (r(Rsp := p)) x
     = (if x \<in> set saved_registers then load64 m (p + ir_offset x) else if x = Rsp then p + 120 else r x)" for x
    by (cases x) (simp_all add: saved_registers_def add.commute)
qed

lemma SyscallHandler_code_parts:
  "SyscallHandler_code = [Swapgs, MovToGs Rsp UserStackOffset, MovFromGs KernelInterruptStackOffset Rsp] @ map PushR saved_registers
     @ [MovR Rsp Rdi, CallKernelSyscallHandler, MovR Rax Rsp] @ map PopR (rev saved_registers) @ [MovFromGs UserStackOffset Rsp, Swapgs, Sysretq]"
  by (simp add: SyscallHandler_code_def saved_registers_def)

text \<open>The state in which \<^verbatim>\<open>KernelSyscallHandler\<close> is called.\<close>

definition syscall_state :: "trap_env \<Rightarrow> nat \<Rightarrow> regs \<Rightarrow> 'a boot_state_scheme \<Rightarrow> 'a boot_state_scheme" where
  "syscall_state e c r s =
     (let s1 = swapgs s; ks = interruptStack (CPUs s ! c)
      in s1\<lparr>CPUs := (CPUs s1)[c := (CPUs s1 ! c)\<lparr>userStack := r Rsp\<rparr>],
            mem := store64 (snd (fold push (map r saved_registers) (ks, mem s))) (ks - 128) (after_call e)\<rparr>)"

lemma SyscallHandler_calls:
  assumes "gs_cpu (swapgs s) = Some c" and "c < length (CPUs s)"
    and ks: "ks = interruptStack (CPUs s ! c)"
    and t: "KernelSyscallHandler (ks - 120) (syscall_state e c r s) = Inr (ks - 120, t)"
    and gs: "gs_cpu t = Some c"
  shows "\<exists>r1. exec f e SyscallHandler_code (r, s) = Inr (sysretq (r1, swapgs t)) \<and> r1 Rsp = userStack (CPUs t ! c)
    \<and> (\<forall>x \<in> set saved_registers. r1 x = load64 (mem t) (ks - 120 + ir_offset x))"
proof -
  let ?s1 = "(swapgs s)\<lparr>CPUs := (CPUs (swapgs s))[c := (CPUs (swapgs s) ! c)\<lparr>userStack := r Rsp\<rparr>]\<rparr>"
  let ?m = "snd (fold push (map r saved_registers) (ks, mem s))"
  let ?r = "r(Rsp := ks - 120)" and ?rest = "map PopR (rev saved_registers) @ [MovFromGs UserStackOffset Rsp, Swapgs, Sysretq]"
  let ?r1 = "(\<lambda>x. if x \<in> set saved_registers then load64 (mem t) (ks - 120 + ir_offset x)
        else if x = Rsp then ks - 120 + 120 else after_C e (ks - 120) (?r(Rdi := ks - 120)) x)(Rsp := userStack (CPUs t ! c))"
  have g1: "gs_cpu ?s1 = Some c" using assms(1) by (simp add: gs_cpu_def)
  have "exec f e SyscallHandler_code (r, s) = exec f e (map PushR saved_registers @ [MovR Rsp Rdi, CallKernelSyscallHandler, MovR Rax Rsp] @ ?rest)
      (r(Rsp := ks), ?s1)"
    unfolding SyscallHandler_code_parts using assms(1,2) g1
    by (simp add: step_def store_gs_def load_gs_def ks UserStackOffset_def KernelInterruptStackOffset_def swapgs_def)
  also have "\<dots> = exec f e ([MovR Rsp Rdi, CallKernelSyscallHandler, MovR Rax Rsp] @ ?rest) (?r, ?s1\<lparr>mem := ?m\<rparr>)"
    by (subst exec_pushes) (simp_all add: saved_registers_def swapgs_def)
  also have "\<dots> = exec f e ?rest ((after_C e (ks - 120) (?r(Rdi := ks - 120)))(Rsp := ks - 120), t)"
    using t by (simp add: step_def push_value_def push_def syscall_state_def Let_def ks after_C_Rax)
  also have "\<dots> = Inr (sysretq (?r1, swapgs t))"
    unfolding exec_pops pop_registers using gs by (simp add: step_def load_gs_def)
  finally have "exec f e SyscallHandler_code (r, s) = Inr (sysretq (?r1, swapgs t))" .
  moreover have "\<forall>x \<in> set saved_registers. ?r1 x = load64 (mem t) (ks - 120 + ir_offset x)" by (auto simp: saved_registers_def)
  moreover have "?r1 Rsp = userStack (CPUs t ! c)" by simp
  ultimately show ?thesis by blast
qed

section \<open>There and back\<close>

lemma cli_neutral_stacks: "userStack (CPUs (cli_neutral s) ! c) = userStack (CPUs s ! c)"
  using thisCPU_bound[of s] by (auto simp: cli_neutral_def cli_def nth_list_update split: option.splits)

text \<open>What a system call with \<open>v\<close> in \<^verbatim>\<open>rax\<close> logs: its number in hexadecimal digits.\<close>

definition syscall_message :: "u64 \<Rightarrow> string \<Rightarrow> bool" where
  "syscall_message v cs \<longleftrightarrow> (\<exists>digits. cs = ''syscall! '' @ digits @ ''\<newline>'' \<and> numeral_val 16 (map char_digit (rev digits)) = unat v
     \<and> digits \<noteq> [] \<and> (v \<noteq> 0 \<longrightarrow> char_digit (hd digits) \<noteq> 0))"

lemma syscall_message_rendered:
  obtains cs where "render ''syscall! %llx\<newline>'' [ArgLong v] = Inr cs" and "syscall_message v cs"
proof -
  obtain digits where d: "\<And>fmt va. render (''%llx'' @ fmt) (ArgLong v # va) = obind (render fmt va) (\<lambda>ds. Inr (digits @ ds))"
    "numeral_val 16 (map char_digit (rev digits)) = unat v" "digits \<noteq> []" "v \<noteq> 0 \<Longrightarrow> char_digit (hd digits) \<noteq> 0"
    using render_llx[of v] by metis
  have "render ''\<newline>'' [] = Inr ''\<newline>''" by (simp add: render_Cons_text)
  then have "render (''syscall! '' @ ''%llx'' @ ''\<newline>'') [ArgLong v] = Inr (''syscall! '' @ digits @ ''\<newline>'')"
    using d(1)[of "''\<newline>''" "[]"] by (subst render_text) simp_all
  then show ?thesis using d(2-4) by (intro that[of "''syscall! '' @ digits @ ''\<newline>''"]) (auto simp: syscall_message_def)
qed

lemma KernelSyscallHandler_returns:
  assumes "thisCPU s \<noteq> None" and "lock_held (logLock s) = 0"
  obtains t cs where "KernelSyscallHandler p s = Inr (p, t)" and "mem t = mem s" and "userStack (CPUs t ! c) = userStack (CPUs s ! c)"
    and "length (CPUs t) = length (CPUs s)" and "log_state.more t = log_state.more s"
    and "outb_log t = outb_log s @ concat (map serial cs)" and "syscall_message (reg s p Rax) cs"
proof -
  have same: "run_same s s" using assms by (simp add: run_same_def)
  obtain cs where cs: "render ''syscall! %llx\<newline>'' [ArgLong (reg s p Rax)] = Inr cs" "syscall_message (reg s p Rax) cs"
    by (rule syscall_message_rendered)
  let ?t = "(cli_neutral ((cli_neutral s)\<lparr>logLock := lock_set_held 1 (logLock s), outb_log := outb_log s @ concat (map serial cs)\<rparr>))\<lparr>logLock := 0\<rparr>"
  have "log_line ''syscall! %llx\<newline>'' [ArgLong (reg s p Rax)] s = Inr ?t" by (rule log_line_text[OF same cs(1)])
  then show ?thesis using cs(2) by (intro that[of ?t cs]) (simp_all add: KernelSyscallHandler_def cli_neutral_stacks)
qed

text \<open>The registers that \<^verbatim>\<open>syscall\<close> itself overwrites.\<close>

definition syscall_clobbers :: "InterruptRegister set" where
  "syscall_clobbers = {Rcx, R11, Cs, Ss, InterruptNumber, ErrorCode, Rflags}"

lemma syscall_state_facts:
  assumes "syscall_ready sy c s"
  shows "gs_cpu (swapgs s) = Some c" and "thisCPU (syscall_state e c r s) = thisCPU s" and "logLock (syscall_state e c r s) = logLock s"
    and "userStack (CPUs (syscall_state e c r s) ! c) = r Rsp" and "length (CPUs (syscall_state e c r s)) = length (CPUs s)"
    and "msrs (syscall_state e c r s) = msrs (swapgs s)" and "CPUs_addr (syscall_state e c r s) = CPUs_addr s"
proof -
  show "gs_cpu (swapgs s) = Some c"
    by (rule gs_cpu_entry) (use assms in \<open>simp_all add: syscall_ready_def swapgs_def\<close>)
  have "thisCPU (syscall_state e c r s) = thisCPU (s\<lparr>CPUs := (CPUs s)[c := (CPUs s ! c)\<lparr>userStack := r Rsp\<rparr>]\<rparr>)"
    by (simp add: syscall_state_def swapgs_def thisCPU_def lapicID_def Let_def)
  then show "thisCPU (syscall_state e c r s) = thisCPU s" by (simp add: thisCPU_update_same_id)
qed (use assms in \<open>simp_all add: syscall_state_def swapgs_def syscall_ready_def Let_def\<close>)

lemma syscall_frame:
  assumes "x \<in> set saved_registers" and "ks = interruptStack (CPUs s ! c)"
  shows "load64 (mem (syscall_state e c r s)) (ks - 120 + ir_offset x) = r x"
    and "\<not> inside (ks - 128) 128 a \<Longrightarrow> mem (syscall_state e c r s) a = mem s a"
proof -
  let ?vs = "map r saved_registers"
  have n: "length ?vs = 15" by (simp add: saved_registers_def)
  have m: "mem (syscall_state e c r s) = store64 (snd (fold push ?vs (ks, mem s))) (ks - 8 * of_nat (length ?vs) - 8) (after_call e)"
    unfolding n by (simp add: syscall_state_def assms(2) Let_def)
  have k: "ir_slot x < 15" "rev ?vs ! ir_slot x = r x" using assms(1) by (auto simp: saved_registers_def)
  show "load64 (mem (syscall_state e c r s)) (ks - 120 + ir_offset x) = r x"
    using frame_slot[of "ir_slot x" ?vs ks "mem s" "after_call e"] k unfolding m ir_slot(1) n by simp
  show "mem (syscall_state e c r s) a = mem s a" if "\<not> inside (ks - 128) 128 a"
    unfolding m by (rule frame_other) (use that in \<open>simp_all add: saved_registers_def\<close>)
qed

lemma swapgs_twice: "msrs t = msrs (swapgs s) \<Longrightarrow> msrs (swapgs t) = msrs s"
  by (auto simp: swapgs_def fun_eq_iff)

text \<open>
  C5. A system call comes back. On a processor that is set up for it, \<^verbatim>\<open>syscall\<close> leads to \<^verbatim>\<open>SyscallHandler\<close>, and the handler returns behind the call
  with every register of the program except the two that the instruction uses itself, its stack pointer among them, and with the flags
  that user code may have. The base of the \<^verbatim>\<open>gs\<close> segment is exchanged twice, and only the 128 bytes below the stack for interrupts
  have changed: they hold the registers of the program, at the places of \<^verbatim>\<open>struct InterruptRegisters\<close>. The serial port has got one line, with the
  value of \<^verbatim>\<open>rax\<close> in hexadecimal digits. The stack segment afterwards is the one for 32-bit data (\<open>0x23\<close>), whatever it was before.
\<close>

theorem system_call_returns:
  assumes ready: "syscall_ready sy c s" and cpu: "thisCPU s \<noteq> None" and free: "lock_held (logLock s) = 0"
  shows "fst (syscall (r, s)) Rip = SyscallHandler sy
    \<and> (\<exists>r' s'. exec 0 e (routine SyscallEntry) (syscall (r, s)) = Inr (Resume r' s')
        \<and> (\<forall>x. x \<notin> syscall_clobbers \<longrightarrow> r' x = r x) \<and> r' Cs = 0x2B \<and> r' Ss = 0x23
        \<and> rflags s' = (rflags s AND 0x3C7FD7) OR 2 \<and> msrs s' = msrs s
        \<and> (\<forall>a. \<not> inside (interruptStack (CPUs s ! c) - 128) 128 a \<longrightarrow> mem s' a = mem s a)
        \<and> (\<forall>x \<in> set saved_registers. load64 (mem s') (interruptStack (CPUs s ! c) - 120 + ir_offset x) = fst (syscall (r, s)) x)
        \<and> (\<exists>cs. outb_log s' = outb_log s @ concat (map serial cs) \<and> syscall_message (r Rax) cs))"
proof -
  obtain q s0 where q: "syscall (r, s) = (q, s0)" by fastforce
  have q0: "q Rcx = r Rip" "q R11 = rflags s" "q Rip = SyscallHandler sy" "q Rsp = r Rsp" "\<And>x. x \<notin> insert Rip syscall_clobbers \<Longrightarrow> q x = r x"
    using q ready by (auto simp: syscall_def Let_def syscall_clobbers_def syscall_ready_def)
  have log0: "outb_log s0 = outb_log s" using q by (auto simp: syscall_def Let_def)
  have s0: "syscall_ready sy c s0" "thisCPU s0 \<noteq> None" "lock_held (logLock s0) = 0" "mem s0 = mem s" "CPUs s0 = CPUs s" "msrs s0 = msrs s"
    using q ready cpu free by (auto simp: syscall_def Let_def syscall_ready_def thisCPU_def lapicID_def)
  define ks where "ks = interruptStack (CPUs s0 ! c)"
  note st = syscall_state_facts[OF s0(1)] and fr = syscall_frame[OF _ ks_def, where e = e and r = q]
  define z where "z = syscall_state e c q s0"
  have z: "thisCPU z \<noteq> None" "lock_held (logLock z) = 0" "userStack (CPUs z ! c) = q Rsp" "length (CPUs z) = length (CPUs s)"
    "msrs z = msrs (swapgs s0)" "CPUs_addr z = CPUs_addr s0"
    using st s0 by (simp_all add: z_def)
  obtain t cs where t: "KernelSyscallHandler (ks - 120) z = Inr (ks - 120, t)" "mem t = mem z"
    "userStack (CPUs t ! c) = userStack (CPUs z ! c)" "length (CPUs t) = length (CPUs z)" "log_state.more t = log_state.more z"
    and cs: "outb_log t = outb_log z @ concat (map serial cs)" "syscall_message (reg z (ks - 120) Rax) cs"
    by (rule KernelSyscallHandler_returns[OF z(1,2)])
  have more: "msrs t = msrs (swapgs s0)" "CPUs_addr t = CPUs_addr s0" using t(5) z(5,6) by (cases t; cases z; simp)+
  have "gs_cpu t = Some c"
    by (rule gs_cpu_entry) (use s0(1,5) t(4) z(4) more in \<open>simp_all add: syscall_ready_def swapgs_def\<close>)
  then obtain r1 where r1: "exec 0 e SyscallHandler_code (q, s0) = Inr (sysretq (r1, swapgs t))" "r1 Rsp = r Rsp"
    "\<forall>x \<in> set saved_registers. r1 x = load64 (mem t) (ks - 120 + ir_offset x)"
    using SyscallHandler_calls[OF st(1) _ ks_def t(1)[unfolded z_def]] s0(1) t(3) z(3) q0(4) by (auto simp: syscall_ready_def)
  have saved: "r1 x = q x" if "x \<in> set saved_registers" for x using r1(3) t(2) fr(1)[OF that] that by (simp add: z_def)
  have rx: "r1 Rcx = r Rip" "r1 R11 = rflags s" using saved q0(1,2) by (simp_all add: saved_registers_def)
  have rest: "r1 x = r x" if "x \<notin> syscall_clobbers" "x \<noteq> Rip" for x
    using saved[of x] q0(5)[of x] r1(2) that by (cases x) (simp_all add: saved_registers_def syscall_clobbers_def)
  have star: "msrs (swapgs t) 0xC0000081 = 0x001B000800000000" using swapgs_twice[OF more(1)] s0(1) by (simp add: syscall_ready_def)
  let ?r' = "r1(Rip := r Rip, Cs := 0x2B, Ss := 0x23)" and ?s' = "(swapgs t)\<lparr>rflags := (rflags s AND 0x3C7FD7) OR 2\<rparr>"
  have "exec 0 e (routine SyscallEntry) (syscall (r, s)) = Inr (Resume ?r' ?s')"
    using r1(1) star rx unfolding q by (simp add: sysretq_def Let_def drop_bit_eq_div take_bit_eq_mod)
  moreover have "\<forall>x. x \<notin> syscall_clobbers \<longrightarrow> ?r' x = r x" using rest by (auto simp: syscall_clobbers_def)
  moreover have "msrs ?s' = msrs s" using swapgs_twice[OF more(1)] s0(6) by simp
  moreover have "\<forall>a. \<not> inside (interruptStack (CPUs s ! c) - 128) 128 a \<longrightarrow> mem ?s' a = mem s a"
    using fr(2)[of Rax] s0(4,5) t(2) by (simp add: saved_registers_def ks_def swapgs_def z_def)
  moreover have "\<forall>x \<in> set saved_registers. load64 (mem ?s') (interruptStack (CPUs s ! c) - 120 + ir_offset x) = q x"
    using fr(1) s0(5) t(2) by (simp add: ks_def swapgs_def z_def)
  moreover have "outb_log ?s' = outb_log s @ concat (map serial cs)" "syscall_message (r Rax) cs"
    using cs log0 fr(1)[of Rax] q0(5)[of Rax]
    by (simp_all add: z_def syscall_state_def swapgs_def Let_def reg_def saved_registers_def syscall_clobbers_def)
  ultimately show ?thesis using q q0(3) by (intro conjI exI[of _ ?r'] exI[of _ ?s']) auto
qed

theorem system_call_returns_witness:
  "\<exists>r' s'. exec 0 sample_env (routine SyscallEntry) (syscall (user_regs, setupProcessor
       \<lparr>TrapRet = 0, ProcessEntryPoint_addr = 0, SyscallHandler = 0x1234, MyFirstUserspace = 0, MyFirstUserspaceEnd = 0\<rparr> 0 0xFFFF800000010000
       (sample_boot\<lparr>CPUs := [zero_CPUState]\<rparr>))) = Inr (Resume r' s') \<and> r' Rip = 0x1234 \<and> r' Rsp = 0x5000 \<and> r' Rax = 7"
proof -
  let ?sy = "\<lparr>TrapRet = 0, ProcessEntryPoint_addr = 0, SyscallHandler = 0x1234, MyFirstUserspace = 0, MyFirstUserspaceEnd = 0\<rparr>"
  let ?s = "sample_boot\<lparr>CPUs := [zero_CPUState]\<rparr>"
  let ?t = "setupProcessor ?sy 0 0xFFFF800000010000 ?s"
  have "syscall_ready ?sy 0 ?t" by (rule setupProcessor_ready) simp_all
  moreover have "thisCPU ?t \<noteq> None" "lock_held (logLock ?t) = 0" using sample_processor by (simp_all add: setupProcessor_same)
  ultimately obtain r' s' where "exec 0 sample_env (routine SyscallEntry) (syscall (user_regs, ?t)) = Inr (Resume r' s')"
    "\<forall>x. x \<notin> syscall_clobbers \<longrightarrow> r' x = user_regs x"
    using system_call_returns[of ?sy 0 ?t user_regs sample_env] by blast
  moreover have "user_regs Rip = 0x1234" "user_regs Rsp = 0x5000" "user_regs Rax = 7" "{Rip, Rsp, Rax} \<inter> syscall_clobbers = {}"
    by (simp_all add: user_regs_def syscall_clobbers_def)
  ultimately show ?thesis by (metis insert_disjoint(1))
qed

end
