(* ===== verification/First_Process.thy ===== *)
theory First_Process
  imports System_Calls
begin

text \<open>
  The first process: \<^verbatim>\<open>createFirstProcess\<close> of \<^verbatim>\<open>src/Kernel/ProcessManagement.cpp\<close>, the first switch to it, and the way through \<^verbatim>\<open>ProcessEntryPoint\<close> and
  \<^verbatim>\<open>TrapRet\<close> of \<^verbatim>\<open>Traps.S\<close> to its first instruction. The lemmas say that a copied root table is an address space again, with
  the same translations, and that the pages of the process, its tables and the free memory do not overlap.
\<close>

section \<open>Copies of the root table\<close>

lemma space_ok_frame:
  assumes "space_ok m off B G" and "B' \<subseteq> B" and "\<And>p t x. G p = Some t \<Longrightarrow> unat x \<in> page t \<Longrightarrow> m' x = m x"
  shows "space_ok m' off B' G"
proof -
  have "load64 m' (t + 8 * i) = load64 m (t + 8 * i)" if "G p = Some t" "unat i < 512" for p t i
    by (rule load64_cong) (use assms(3)[OF that(1)] slot_in_page[OF space_okD(2)[OF assms(1) that(1)] that(2)] in blast)
  then have "entry_ok off G p i (load64 m' (t + 8 * i))" if "G p = Some t" "unat i < 512" for p t i
    using space_okD(5)[OF assms(1)] that by simp
  then show ?thesis using assms(1,2) unfolding space_ok_def by blast
qed

lemma load_le_shift: "(\<And>k. k < n \<Longrightarrow> m' (a + of_nat k) = m (b + of_nat k)) \<Longrightarrow> load_le n m' a = load_le n m b"
proof (induction n arbitrary: a b)
  case (Suc n)
  have "load_le n m' (a + 1) = load_le n m (b + 1)" using Suc.prems[of "Suc _"] by (intro Suc.IH) (simp add: ac_simps)
  then show ?case using Suc.prems[of 0] by simp
qed simp

lemma load64_copy:
  assumes "\<And>j. j < 4096 \<Longrightarrow> m' (pt + of_nat j) = m (rt + of_nat j)" and "unat i < 512"
  shows "load64 m' (pt + 8 * i) = load64 m (rt + 8 * i)"
proof -
  have e: "a + 8 * i + of_nat k = a + of_nat (8 * unat i + k)" for a :: u64 and k by simp
  have "load_le 8 m' (pt + 8 * i) = load_le 8 m (rt + 8 * i)" by (rule load_le_shift) (unfold e, rule assms(1), use assms(2) in simp)
  then show ?thesis by (simp add: load64_def)
qed

lemma space_ok_copy:
  assumes ok: "space_ok m off B G" and rt: "G [] = Some rt" and pt: "unat pt + 4096 \<le> 2 ^ 64" "page pt \<subseteq> B" and B': "B' \<subseteq> B - page pt"
    and same: "\<And>x. unat x \<notin> B \<Longrightarrow> m' x = m x" and copy: "\<And>j. j < 4096 \<Longrightarrow> m' (pt + of_nat j) = m (rt + of_nat j)"
  shows "space_ok m' off B' (G([] \<mapsto> pt))"
    and "\<And>p t i. p \<noteq> [] \<Longrightarrow> G p = Some t \<Longrightarrow> unat i < 512 \<Longrightarrow> load64 m' (t + 8 * i) = load64 m (t + 8 * i)"
proof -
  show old: "load64 m' (t + 8 * i) = load64 m (t + 8 * i)" if "p \<noteq> []" "G p = Some t" "unat i < 512" for p t i
    by (rule load64_cong) (use same slot_in_page[OF space_okD(2)[OF ok that(2)] that(3)] space_okD(3)[OF ok that(2)] in blast)
  let ?G = "G([] \<mapsto> pt)"
  have entries: "entry_ok off ?G p i (load64 m' (t + 8 * i))" if "?G p = Some t" "unat i < 512" for p t i
    using that old[of p t i] load64_copy[of m' pt m rt i] copy space_okD(5)[OF ok rt that(2)] space_okD(5)[OF ok _ that(2), of p t]
    by (cases "p = []") (auto simp: entry_ok_def)
  have dis: "page pt \<inter> page u = {}" if "G q = Some u" for q u using space_okD(3)[OF ok that] pt(2) by blast
  show "space_ok m' off B' ?G"
    unfolding space_ok_def
  proof (intro conjI allI impI)
    fix p t assume "?G p = Some t"
    then show "length p \<le> 3" "unat t + 4096 \<le> 2 ^ 64" "page t \<inter> B' = {}"
      using space_okD(1-3)[OF ok, of p t] pt(1) B' by (auto split: if_splits)
  next
    fix p q t u assume "?G p = Some t" "?G q = Some u" "p \<noteq> q"
    then show "page t \<inter> page u = {}" using space_okD(4)[OF ok, of p t q u] dis[of p t] dis[of q u] by (auto split: if_splits)
  next
    fix p i assume "?G p = None"
    then show "?G (p @ [i]) = None" using space_ok_below[OF ok, of p "[i]"] by (auto split: if_splits)
  qed (use entries in blast)
qed

lemma vm_holds_copy:
  assumes vm: "vm_holds s xs rt G" and h: "pm_holds s' ys" and low: "low_chunks (HigherHalfDirectMapOffset s) ys"
    and off: "HigherHalfDirectMapOffset s' = HigherHalfDirectMapOffset s"
    and pt: "unat pt + 4096 \<le> 2 ^ 64" "page pt \<subseteq> list_bytes 4096 xs" and ys: "list_bytes 4096 ys \<subseteq> list_bytes 4096 xs - page pt"
    and same: "\<And>x. unat x \<notin> list_bytes 4096 xs \<Longrightarrow> mem s' x = mem s x"
    and copy: "\<And>j. j < 4096 \<Longrightarrow> mem s' (pt + of_nat j) = mem s (rt + of_nat j)"
  shows "vm_holds s' ys pt (G([] \<mapsto> pt))" and "vm_translate s' pt = vm_translate s rt"
proof -
  have ok: "space_ok (mem s) (HigherHalfDirectMapOffset s) (list_bytes 4096 xs) G" and rt: "G [] = Some rt"
    using vm by (simp_all add: vm_holds_def)
  have new: "space_ok (mem s') (HigherHalfDirectMapOffset s) (list_bytes 4096 ys) (G([] \<mapsto> pt))"
    "\<And>p t i. p \<noteq> [] \<Longrightarrow> G p = Some t \<Longrightarrow> unat i < 512 \<Longrightarrow> load64 (mem s') (t + 8 * i) = load64 (mem s) (t + 8 * i)"
    by (rule space_ok_copy[OF ok rt pt ys]; use same copy in blast)+
  show "vm_holds s' ys pt (G([] \<mapsto> pt))" using h low off new(1) by (simp add: vm_holds_def)
  show "vm_translate s' pt = vm_translate s rt"
  proof
    fix va
    let ?is = "[hw_index 39 va, hw_index 30 va, hw_index 21 va]"
    have is3: "length ?is = 3" "indices ?is" by (simp_all add: indices_def hw_index_less)
    have "(G([] \<mapsto> pt)) [] = Some pt" by simp
    note l = hw_leaf_tree[OF new(1) this is3, of "hw_index 12 va"] hw_leaf_tree[OF ok rt is3, of "hw_index 12 va"]
    have "hw_leaf (mem s') (HigherHalfDirectMapOffset s) pt ?is (hw_index 12 va) = hw_leaf (mem s) (HigherHalfDirectMapOffset s) rt ?is (hw_index 12 va)"
      unfolding l using new(2)[of ?is _ "hw_index 12 va"] hw_index_less by (simp split: option.split)
    then show "vm_translate s' pt va = vm_translate s rt va" by (simp add: vm_translate_def hw_translate_def off)
  qed
qed

text \<open>The walk depends on the tables only.\<close>

lemma hw_translate_tables:
  assumes ok: "space_ok m off B G" and ok': "space_ok m' off B' G" and rt: "G [] = Some rt"
    and tab: "\<And>p t x. G p = Some t \<Longrightarrow> unat x \<in> page t \<Longrightarrow> m' x = m x"
  shows "hw_translate m' off rt = hw_translate m off rt"
proof
  fix va
  let ?is = "[hw_index 39 va, hw_index 30 va, hw_index 21 va]"
  have is3: "length ?is = 3" "indices ?is" by (simp_all add: indices_def hw_index_less)
  have "load64 m' (t + 8 * hw_index 12 va) = load64 m (t + 8 * hw_index 12 va)" if "G ?is = Some t" for t
    by (rule load64_cong) (use tab[OF that] slot_in_page[OF space_okD(2)[OF ok that] hw_index_less] in blast)
  then have "hw_leaf m' off rt ?is (hw_index 12 va) = hw_leaf m off rt ?is (hw_index 12 va)"
    unfolding hw_leaf_tree[OF ok' rt is3] hw_leaf_tree[OF ok rt is3] by (simp split: option.split)
  then show "hw_translate m' off rt va = hw_translate m off rt va" by (simp add: hw_translate_def)
qed

text \<open>A change of memory away from the tables and the free memory.\<close>

lemma vm_holds_frame:
  assumes vm: "vm_holds s xs rt G" and same: "\<And>x. unat x \<in> vm_bytes xs G \<Longrightarrow> m x = mem s x"
  shows "vm_holds (s\<lparr>mem := m\<rparr>) xs rt G" and "vm_translate (s\<lparr>mem := m\<rparr>) rt = vm_translate s rt"
proof -
  have ok: "space_ok (mem s) (HigherHalfDirectMapOffset s) (list_bytes 4096 xs) G" and rt: "G [] = Some rt" and h: "pm_holds s xs"
    using vm by (simp_all add: vm_holds_def)
  have tab: "m x = mem s x" if "G p = Some t" "unat x \<in> page t" for p t x
    using that by (intro same) (auto simp: vm_bytes_def ran_def)
  have ok': "space_ok m (HigherHalfDirectMapOffset s) (list_bytes 4096 xs) G" by (rule space_ok_frame[OF ok _ tab]) simp_all
  have "pm_holds (s\<lparr>mem := m\<rparr>) xs" by (rule pm_holds_frame[OF h]) (simp add: same vm_bytes_def)
  then show "vm_holds (s\<lparr>mem := m\<rparr>) xs rt G" using vm ok' by (simp add: vm_holds_def)
  show "vm_translate (s\<lparr>mem := m\<rparr>) rt = vm_translate s rt"
    using hw_translate_tables[OF ok ok' rt tab] by (intro ext) (simp add: vm_translate_def)
qed

lemma vm_holds_cong:
  assumes "vm_holds s xs rt G" and "pm_lockword s' = pm_lockword s" and "pm_freeList s' = pm_freeList s" and "mem s' = mem s"
    and "thisCPU s' = thisCPU s" and "HigherHalfDirectMapOffset s' = HigherHalfDirectMapOffset s"
  shows "vm_holds s' xs rt G" and "vm_translate s' = vm_translate s"
proof -
  show "vm_holds s' xs rt G" using assms pm_holds_cong[of s xs s'] by (simp add: vm_holds_def)
  show "vm_translate s' = vm_translate s" by (rule ext)+ (simp add: vm_translate_def assms(4,6))
qed

section \<open>The trap frame\<close>

text \<open>What the frame of the first process holds.\<close>

definition first_register :: "InterruptRegister \<Rightarrow> u64" where
  "first_register x = (case x of Rip \<Rightarrow> 0x1000 | Cs \<Rightarrow> 0x2B | Ss \<Rightarrow> 0x33 | Rflags \<Rightarrow> 0x200 | _ \<Rightarrow> 0)"

lemma load_store_register:
  "load64 (store_register p x v m) (p + ir_offset y) = (if x = y then v else load64 m (p + ir_offset y))"
proof (cases "x = y")
  case False
  then have "ir_slot x \<noteq> ir_slot y" by (cases x; cases y; simp)
  moreover have "apart (p + of_nat (8 * i)) 8 (p + of_nat (8 * j)) 8" if "i < j" "j < 22" for i j
    using that by (intro apart_slots) simp_all
  ultimately have "apart (p + of_nat (8 * ir_slot x)) 8 (p + of_nat (8 * ir_slot y)) 8"
    using ir_slot(2)[of x] ir_slot(2)[of y] apart_sym linorder_neqE_nat by metis
  then show ?thesis using False by (simp add: store_register_def ir_slot(1) load64_store64_apart)
qed (simp add: store_register_def)

lemma first_frame_registers: "load64 (first_frame p m) (p + ir_offset x) = first_register x"
proof -
  have "load64 (fst (memset m p 0 sizeof_InterruptRegisters)) (p + of_nat (8 * ir_slot x)) = 0"
    using ir_slot(2)[of x] by (intro load64_memset_zero) (simp add: sizeof_InterruptRegisters_def)
  then have z: "load64 (fst (memset m p 0 sizeof_InterruptRegisters)) (p + ir_offset x) = 0" by (simp add: ir_slot(1))
  have "of_nat (Table_offsetof UserCode64) OR ucast Ring3 = (0x2B :: u64)" "of_nat (Table_offsetof UserData64) OR ucast Ring3 = (0x33 :: u64)"
    by (simp_all add: sizeof_UserEntry_def Ring3_def)
  then show ?thesis using z unfolding first_frame_def Let_def load_store_register
    by (cases x) (simp_all add: first_register_def)
qed

lemma first_frame_other: "\<not> inside p 176 a \<Longrightarrow> first_frame p m a = m a"
proof -
  assume a: "\<not> inside p 176 a"
  have "\<not> inside (p + ir_offset x) 8 a" for x
    using a inside_shift[of "8 * ir_slot x" 8 176 p a] ir_slot(2)[of x] by (auto simp: ir_slot(1))
  then show ?thesis using a
    by (simp add: first_frame_def Let_def store_register_def store64_other memset_closed sizeof_InterruptRegisters_def del: ir_offset.simps)
qed

section \<open>Making the process\<close>

text \<open>Everything that \<^verbatim>\<open>allocateProcess\<close> leaves behind: the entry, its two pages, and what has not changed.\<close>

lemma allocateProcess_pages:
  assumes h: "pm_holds s xs" and low: "low_chunks (HigherHalfDirectMapOffset s) xs" and free: "2 \<le> free_pages xs" and cpu: "thisCPU s = Some c"
    and lk: "lock_held (ProcessTableSpinlock s) = 0" and slot: "find_unused 0 (ProcessTable s) = Some i"
    and kpt: "unat (KernelPageTable s) + 4096 \<le> 2 ^ 64" "page (KernelPageTable s) \<inter> list_bytes 4096 xs = {}"
  obtains s1 pt st zs where "allocateProcess sy s = Inr (proc_ptr s i, s1)" and "ProcessTable s1 = (ProcessTable s)[i := fresh_process pt st (ProcessTable s ! i)]"
    and "ProcessTableSpinlock s1 = 0" and "pm_holds s1 zs" and "low_chunks (HigherHalfDirectMapOffset s) zs" and "free_pages xs = free_pages zs + 2" and "length zs \<le> length xs"
    and "page pt \<union> page st \<subseteq> list_bytes 4096 xs" and "page pt \<inter> page st = {}" and "list_bytes 4096 zs = list_bytes 4096 xs - page pt - page st"
    and "unat pt + 4096 \<le> 2 ^ 64" and "unat st + 4096 \<le> 2 ^ 64"
    and "\<And>j. j < 4096 \<Longrightarrow> mem s1 (pt + of_nat j) = mem s (KernelPageTable s + of_nat j)"
    and "\<And>x. unat x \<notin> list_bytes 4096 xs \<Longrightarrow> mem s1 x = mem s x"
    and "load_context (mem s1) (st + 3856) = \<lparr>c_rbx = 0, c_rbp = 0, c_r12 = 0, c_r13 = 0, c_r14 = 0, c_r15 = 0,
        c_rsp = st + 3912, c_rip = ProcessEntryPoint_addr sy\<rparr>" and "load64 (mem s1) (st + 3912) = TrapRet sy"
    and "thisCPU s1 = thisCPU s" and "HigherHalfDirectMapOffset s1 = HigherHalfDirectMapOffset s" and "proc_state.more s1 = proc_state.more s"
    and "ProcessTable_addr s1 = ProcessTable_addr s" and "logLock s1 = logLock s" and "ctx s1 = ctx s"
proof -
  let ?ys = "fit_rest 1 xs" and ?pt = "fit_addr 4096 1 xs" and ?st = "fit_addr 4096 1 (fit_rest 1 xs)"
  let ?p = "fresh_process ?pt ?st (ProcessTable s ! i)"
  have wf: "wf_chunks 4096 xs" using h by (simp add: pm_holds_def)
  have ne: "xs \<noteq> []" using free by (intro free_pages_ne) simp
  obtain s4 where s4: "allocateProcess sy s = Inr (proc_ptr s i, (set_proc i ?p s4)\<lparr>mem := prepare_stack sy ?st (mem s4)\<rparr>)"
    "?ys \<noteq> []" "\<And>p. (ProcessTable s4)[i := p] = (ProcessTable s)[i := p]" "ProcessTableSpinlock s4 = 0" "pm_holds s4 (fit_rest 1 ?ys)"
    "\<And>j. j < 4096 \<Longrightarrow> mem s4 (?pt + of_nat j) = mem s (KernelPageTable s + of_nat j)"
    "\<And>x. unat x \<notin> list_bytes 4096 xs \<Longrightarrow> mem s4 x = mem s x"
    "thisCPU s4 = thisCPU s" "HigherHalfDirectMapOffset s4 = HigherHalfDirectMapOffset s" "proc_state.more s4 = proc_state.more s"
    "ProcessTable_addr s4 = ProcessTable_addr s" "logLock s4 = logLock s" "ctx s4 = ctx s"
    using allocateProcess_run[OF h free cpu lk slot kpt, of sy] by blast
  have wf2: "wf_chunks 4096 ?ys" by (rule wf_fit_rest[OF wf])
  note pt = fit_page[OF h ne] and st = fit_page_next[OF h ne s4(2)]
  note sw = prepare_stack_switch[OF st(1), where sy = sy and m = "mem s4"]
  let ?s1 = "(set_proc i ?p s4)\<lparr>mem := prepare_stack sy ?st (mem s4)\<rparr>"
  have dis: "page ?pt \<inter> page ?st = {}" using st(2) pt(3) by blast
  have "pm_holds (s4\<lparr>mem := prepare_stack sy ?st (mem s4)\<rparr>) (fit_rest 1 ?ys)"
    by (rule pm_holds_frame[OF s4(5)]) (use sw(3) st(3) in simp)
  then have h1: "pm_holds ?s1 (fit_rest 1 ?ys)" by (rule pm_holds_cong) (simp_all add: set_proc_def)
  have copy: "mem ?s1 (?pt + of_nat j) = mem s (KernelPageTable s + of_nat j)" if "j < 4096" for j
  proof -
    have "inside ?pt 4096 (?pt + of_nat j)" using that by (simp add: inside_def unat_of_nat64)
    then have "unat (?pt + of_nat j) \<notin> page ?st" using dis pt(1) by (auto simp flip: page_inside)
    then show ?thesis using sw(3) s4(6)[OF that] by simp
  qed
  have same: "mem ?s1 x = mem s x" if "unat x \<notin> list_bytes 4096 xs" for x
    using sw(3)[of x] s4(7)[OF that] st(2) pt(3) that by (simp add: subset_iff) blast
  show ?thesis
  proof (rule that[of ?s1 ?pt ?st "fit_rest 1 ?ys"])
    show "free_pages xs = free_pages (fit_rest 1 ?ys) + 2" using free_pages_fit[OF wf ne] free_pages_fit[OF wf2 s4(2)] by simp
    show "length (fit_rest 1 ?ys) \<le> length xs" by (rule order_trans[OF length_fit_rest length_fit_rest])
    show "low_chunks (HigherHalfDirectMapOffset s) (fit_rest 1 ?ys)" by (rule low_chunks_fit[OF wf2 low_chunks_fit[OF wf low]])
    show "page ?pt \<union> page ?st \<subseteq> list_bytes 4096 xs" "list_bytes 4096 (fit_rest 1 ?ys) = list_bytes 4096 xs - page ?pt - page ?st"
      using pt(2,3) st(2,3) by auto
    show "ProcessTable ?s1 = (ProcessTable s)[i := ?p]" using s4(3) by (simp add: set_proc_def)
    show "mem ?s1 (?pt + of_nat j) = mem s (KernelPageTable s + of_nat j)" if "j < 4096" for j using copy[OF that] .
    show "mem ?s1 x = mem s x" if "unat x \<notin> list_bytes 4096 xs" for x using same[OF that] .
  qed (use s4 h1 dis pt(1) st(1) sw(1,2) in \<open>simp_all add: set_proc_def\<close>)
qed

text \<open>The page with the program.\<close>

lemma frame_of_low: "F < 2 ^ 19 \<Longrightarrow> frame_of (4096 * of_nat F) = 4096 * of_nat F"
  using frame_number[of F] by (simp add: frame_of_def)

lemma program_page:
  assumes h: "pm_holds s zs" and ne: "zs \<noteq> []" and low: "low_chunks off zs" and size: "unat n \<le> 4096"
    and src: "\<And>x. inside src (unat n) x \<Longrightarrow> unat x \<notin> list_bytes 4096 zs"
  obtains pg s2 where "allocatePage s = Inr (pg, s2)" and "pm_holds (s2\<lparr>mem := fst (memcpy (mem s2) pg src n)\<rparr>) (fit_rest 1 zs)"
    and "page pg \<subseteq> list_bytes 4096 zs" and "list_bytes 4096 (fit_rest 1 zs) = list_bytes 4096 zs - page pg" and "unat pg + 4096 \<le> 2 ^ 64"
    and "\<And>x. unat x \<notin> list_bytes 4096 zs \<Longrightarrow> fst (memcpy (mem s2) pg src n) x = mem s x"
    and "\<And>k. k < unat n \<Longrightarrow> fst (memcpy (mem s2) pg src n) (pg + of_nat k) = mem s (src + of_nat k)" and "pm_same s s2"
    and "frame_of (pg - off) = pg - off"
proof -
  let ?pg = "fit_addr 4096 1 zs"
  have "wf_chunks 4096 zs" using h by (simp add: pm_holds_def)
  from fit_addr_low[OF this ne low] obtain F where "?pg = off + 4096 * of_nat F" "F < 2 ^ 19" .
  then have frame: "frame_of (?pg - off) = ?pg - off" using frame_of_low[of F] by simp
  obtain s2 where s2: "allocatePage s = Inr (?pg, s2)" "?pg \<noteq> 0" "unat ?pg + 4096 \<le> 2 ^ 64" "pm_holds s2 (fit_rest 1 zs)"
    "page ?pg \<subseteq> list_bytes 4096 zs" "list_bytes 4096 (fit_rest 1 zs) = list_bytes 4096 zs - page ?pg"
    "\<And>x. unat x \<notin> list_bytes 4096 zs \<Longrightarrow> mem s2 x = mem s x" "pm_same s s2"
    using allocatePage_free[OF h ne] by blast
  have in_page: "unat x \<in> page ?pg" if "inside ?pg (unat n) x" for x using that size s2(3) by (simp add: page_inside inside_def)
  have "apart ?pg (unat n) src (unat n)"
  proof (cases "unat n = 0")
    case False
    then show ?thesis using in_page src s2(5) by (subst apart_iff) (auto simp del: unat_eq_zero unat_gt_0)
  qed (simp add: apart_def)
  then have m: "fst (memcpy (mem s2) ?pg src n) x = (if inside ?pg (unat n) x then mem s2 (src + (x - ?pg)) else mem s2 x)" for x
    using size by (subst memcpy_closed) simp_all
  show ?thesis
  proof (rule that[of ?pg s2])
    show "pm_holds (s2\<lparr>mem := fst (memcpy (mem s2) ?pg src n)\<rparr>) (fit_rest 1 zs)"
      using in_page s2(6) by (intro pm_holds_frame[OF s2(4)]) (auto simp: m)
    show "fst (memcpy (mem s2) ?pg src n) x = mem s x" if "unat x \<notin> list_bytes 4096 zs" for x
      using that in_page[of x] s2(5,7) by (auto simp: m)
    show "fst (memcpy (mem s2) ?pg src n) (?pg + of_nat k) = mem s (src + of_nat k)" if "k < unat n" for k
    proof -
      have "unat (of_nat k :: u64) = k" using that size by (simp add: unat_of_nat64)
      then show ?thesis using that src[of "src + of_nat k"] by (simp add: m inside_def s2(7))
    qed
  qed (use s2 frame in simp_all)
qed

lemma proc_of_ptr:
  assumes "i < length (ProcessTable s)" and "length (ProcessTable s) < 2 ^ 32"
  shows "proc_of s (proc_ptr s i) = Some i"
proof -
  have "sizeof_ProcessInfo * of_nat j \<noteq> sizeof_ProcessInfo * of_nat i" if "j < i" for j
  proof
    assume "sizeof_ProcessInfo * of_nat j = sizeof_ProcessInfo * of_nat i"
    then have "of_nat (40 * j) = (of_nat (40 * i) :: u64)" by (simp add: sizeof_ProcessInfo_def)
    moreover have "40 * j < 2 ^ 64" "40 * i < 2 ^ 64" using that assms by simp_all
    ultimately have "40 * j = 40 * i" by (metis unat_of_nat64)
    then show False using that by simp
  qed
  then show ?thesis using assms(1) unfolding proc_of_def find_Some_iff proc_ptr_def by (intro exI[of _ i]) auto
qed

text \<open>
  The memory of a process that is ready to start: the kernel context with the way to \<^verbatim>\<open>TrapRet\<close>, and the trap frame.
\<close>

definition ready_stack :: "symbols \<Rightarrow> memory \<Rightarrow> ProcessInfo \<Rightarrow> bool" where
  "ready_stack sy m p \<longleftrightarrow> trapFrame p = kernelStack p + 3920 \<and> kernelTask p = kernelStack p + 3856
     \<and> load_context m (kernelTask p) = \<lparr>c_rbx = 0, c_rbp = 0, c_r12 = 0, c_r13 = 0, c_r14 = 0, c_r15 = 0,
         c_rsp = trapFrame p - 8, c_rip = ProcessEntryPoint_addr sy\<rparr>
     \<and> load64 m (trapFrame p - 8) = TrapRet sy \<and> (\<forall>x. load64 m (trapFrame p + ir_offset x) = first_register x)"

lemma ready_stackD:
  assumes "ready_stack sy m p"
  shows "load_context m (kernelTask p) = \<lparr>c_rbx = 0, c_rbp = 0, c_r12 = 0, c_r13 = 0, c_r14 = 0, c_r15 = 0,
      c_rsp = trapFrame p - 8, c_rip = ProcessEntryPoint_addr sy\<rparr>" and "load64 m (trapFrame p - 8) = TrapRet sy"
    and "load64 m (trapFrame p + ir_offset x) = first_register x"
  using assms unfolding ready_stack_def by blast+

lemma ready_stack_first_frame:
  assumes "load_context m (st + 3856) = \<lparr>c_rbx = 0, c_rbp = 0, c_r12 = 0, c_r13 = 0, c_r14 = 0, c_r15 = 0,
        c_rsp = st + 3912, c_rip = ProcessEntryPoint_addr sy\<rparr>" and "load64 m (st + 3912) = TrapRet sy"
    and "trapFrame p = st + 3920" "kernelTask p = st + 3856" "kernelStack p = st"
  shows "ready_stack sy (first_frame (st + 3920) m) p"
proof -
  have ap: "\<not> inside (st + 3920) 176 x" if "inside (st + of_nat j) k x" "j + k \<le> 3920" "0 < k" for j k x
    using apart_inside[OF apart_slots[of j k 3920 176 st]] that by simp
  have "load_context (first_frame (st + 3920) m) (st + 3856) = load_context m (st + 3856)"
    by (rule load_context_cong) (use ap[of 3856 56] in \<open>simp add: first_frame_other\<close>)
  moreover have "load64 (first_frame (st + 3920) m) (st + 3912) = load64 m (st + 3912)"
    by (rule load64_cong) (use ap[of 3912 8] in \<open>simp add: first_frame_other\<close>)
  ultimately show ?thesis using assms first_frame_registers[of "st + 3920" m] by (simp add: ready_stack_def add.commute[of 3912])
qed

lemma frame_in_page: "unat st + 4096 \<le> 2 ^ 64 \<Longrightarrow> inside (st + 3920) 176 x \<Longrightarrow> unat x \<in> page st"
  using inside_shift[of 3920 176 4096 st x] by (simp add: page_inside)

text \<open>The second half of \<^verbatim>\<open>createFirstProcess\<close>: from the address space with the program's page to the runnable entry.\<close>

lemma create_finish:
  fixes s :: "'a proc_state_scheme"
  assumes vm: "vm_holds s ws pt G" and free: "3 \<le> free_pages ws" and cpu: "thisCPU s = Some c" and lk: "ProcessTableSpinlock s = 0"
    and st: "unat st + 4096 \<le> 2 ^ 64" "page st \<inter> vm_bytes ws G = {}" and p: "pageTable (ProcessTable s ! i) = pt" "trapFrame (ProcessTable s ! i) = st + 3920"
  shows "\<exists>s' ys G' m. obind (map_page (pageTable (ProcessTable s ! i)) 0x1000 pa s) (\<lambda>s4.
        let s5 = s4\<lparr>mem := first_frame (trapFrame (ProcessTable s4 ! i)) (mem s4)\<rparr>
        in obind (acquirePT s5) (\<lambda>s6. releasePT (set_proc i ((ProcessTable s6 ! i)\<lparr>state := Runnable\<rparr>) s6))) = Inr s'
    \<and> ProcessTable s' = (ProcessTable s)[i := (ProcessTable s ! i)\<lparr>state := Runnable\<rparr>]
    \<and> vm_holds s' ys pt G' \<and> vm_bytes ys G' \<subseteq> vm_bytes ws G \<and> free_pages ws \<le> free_pages ys + 3 \<and> length ys \<le> length ws
    \<and> vm_translate s' pt = vm_map 0x1000 pa (vm_translate s pt)
    \<and> mem s' = first_frame (st + 3920) m \<and> (\<forall>x. unat x \<notin> vm_bytes ws G \<longrightarrow> m x = mem s x)
    \<and> lock_held (ProcessTableSpinlock s') = 0 \<and> thisCPU s' = thisCPU s \<and> logLock s' = logLock s \<and> ctx s' = ctx s
    \<and> HigherHalfDirectMapOffset s' = HigherHalfDirectMapOffset s \<and> proc_state.more s' = proc_state.more s"
proof -
  have "card (table_paths 0x1000 - dom G) \<le> card (table_paths 0x1000)" by (intro card_mono) (simp_all add: table_paths_def)
  also have "\<dots> \<le> 3" by (simp add: table_paths_def card_insert_if)
  finally have three: "card (table_paths 0x1000 - dom G) \<le> 3" .
  then obtain s4 ys G' where s4: "map_page pt 0x1000 pa s = Inr s4" "vm_holds s4 ys pt G'" "vm_step (table_paths 0x1000) s ws G s4 ys G'"
    "vm_translate s4 pt = vm_map 0x1000 pa (vm_translate s pt)"
    using map_page_vm[OF vm, of "0x1000" pa] free by auto
  note step = s4(3)[unfolded vm_step_def]
  have same: "pm_same s s4" using step by blast
  note fld = more_proc[of s4 s] pm_more_fields[of s4 s]
  have f4: "ProcessTable s4 = ProcessTable s" "ProcessTableSpinlock s4 = 0" "proc_state.more s4 = proc_state.more s" "logLock s4 = logLock s"
    "ctx s4 = ctx s" "thisCPU s4 = Some c" "HigherHalfDirectMapOffset s4 = HigherHalfDirectMapOffset s"
    using same fld lk cpu pm_same_offset[OF same] by (simp_all add: pm_same_def)
  define m where "m = first_frame (st + 3920) (mem s4)"
  have "m x = mem s4 x" if "unat x \<in> vm_bytes ys G'" for x
    using that step st(2) frame_in_page[OF st(1), of x] unfolding m_def by (intro first_frame_other) blast
  note v5 = vm_holds_frame[OF s4(2) this]
  let ?s6 = "(cli_neutral (s4\<lparr>mem := m\<rparr>))\<lparr>ProcessTableSpinlock := lock_set_held 1 0\<rparr>"
  let ?s7 = "set_proc i ((ProcessTable s ! i)\<lparr>state := Runnable\<rparr>) ?s6"
  let ?s' = "(cli_neutral ?s7)\<lparr>ProcessTableSpinlock := 0\<rparr>"
  have "acquirePT (s4\<lparr>mem := m\<rparr>) = Inr ?s6" "releasePT ?s7 = Inr ?s'" using f4 by (simp_all add: kernel_simps lock_held_def)
  then have run: "obind (map_page (pageTable (ProcessTable s ! i)) 0x1000 pa s) (\<lambda>s4.
        let s5 = s4\<lparr>mem := first_frame (trapFrame (ProcessTable s4 ! i)) (mem s4)\<rparr>
        in obind (acquirePT s5) (\<lambda>s6. releasePT (set_proc i ((ProcessTable s6 ! i)\<lparr>state := Runnable\<rparr>) s6))) = Inr ?s'"
    using s4(1) p f4(1) by (simp add: m_def[symmetric] Let_def)
  have c: "vm_holds ?s' ys pt G'" "vm_translate ?s' = vm_translate (s4\<lparr>mem := m\<rparr>)"
    by (rule vm_holds_cong[OF v5(1)]; simp add: set_proc_def)+
  show ?thesis
    by (rule exI[of _ ?s'], rule exI[of _ ys], rule exI[of _ G'], rule exI[of _ "mem s4"])
       (use run c v5(2) s4(4) step f4 cpu three in \<open>simp add: set_proc_def m_def lock_held_def\<close>)
qed

lemma vm_bytes_copy:
  assumes ok: "space_ok m off (list_bytes 4096 xs) G" and A: "A \<subseteq> list_bytes 4096 xs" "page pt \<subseteq> list_bytes 4096 xs - A"
    and ws: "list_bytes 4096 ws \<subseteq> list_bytes 4096 xs - A"
  shows "A \<inter> vm_bytes ws (G([] \<mapsto> pt)) = {}" and "vm_bytes ws (G([] \<mapsto> pt)) \<subseteq> vm_bytes xs G"
proof -
  have ran: "t = pt \<or> t \<in> ran G" if "t \<in> ran (G([] \<mapsto> pt))" for t using that by (auto simp: ran_def split: if_splits)
  have tabs: "page t \<inter> list_bytes 4096 xs = {}" if "t \<in> ran G" for t using that space_okD(3)[OF ok] by (auto simp: ran_def)
  have sub: "vm_bytes ws (G([] \<mapsto> pt)) \<subseteq> (list_bytes 4096 xs - A) \<union> (\<Union>t \<in> ran G. page t)"
  proof
    fix x assume "x \<in> vm_bytes ws (G([] \<mapsto> pt))"
    then consider "x \<in> list_bytes 4096 ws" | t where "t \<in> ran (G([] \<mapsto> pt))" "x \<in> page t" by (auto simp: vm_bytes_def)
    then show "x \<in> (list_bytes 4096 xs - A) \<union> (\<Union>t \<in> ran G. page t)"
    proof cases
      case 2
      then show ?thesis using ran[OF 2(1)] A(2) by blast
    qed (use ws in blast)
  qed
  then show "vm_bytes ws (G([] \<mapsto> pt)) \<subseteq> vm_bytes xs G" by (auto simp: vm_bytes_def)
  have "x \<notin> A" if x: "x \<in> vm_bytes ws (G([] \<mapsto> pt))" for x
  proof -
    from sub x consider "x \<in> list_bytes 4096 xs - A" | t where "t \<in> ran G" "x \<in> page t" by blast
    then show ?thesis using tabs A(1) by cases blast+
  qed
  then show "A \<inter> vm_bytes ws (G([] \<mapsto> pt)) = {}" by blast
qed

text \<open>The first half of \<^verbatim>\<open>createFirstProcess\<close>: the entry, and the copied address space beside the page with the program.\<close>

lemma create_space:
  fixes s :: "'a proc_state_scheme" and sy :: symbols
  defines "n \<equiv> MyFirstUserspaceEnd sy - MyFirstUserspace sy"
  assumes vm: "vm_holds s xs (KernelPageTable s) G" and free: "3 \<le> free_pages xs" and cpu: "thisCPU s = Some c"
    and lk: "lock_held (ProcessTableSpinlock s) = 0" and slot: "find_unused 0 (ProcessTable s) = Some i"
    and size: "unat n \<le> 4096" and src: "\<And>x. inside (MyFirstUserspace sy) (unat n) x \<Longrightarrow> unat x \<notin> list_bytes 4096 xs"
  obtains s1 s2 s3 pt st pg ws where "allocateProcess sy s = Inr (proc_ptr s i, s1)" and "allocatePage s1 = Inr (pg, s2)"
    and "s3 = s2\<lparr>mem := fst (memcpy (mem s2) pg (MyFirstUserspace sy) n)\<rparr>"
    and "ProcessTable s3 = (ProcessTable s)[i := fresh_process pt st (ProcessTable s ! i)]" and "ProcessTableSpinlock s3 = 0"
    and "vm_holds s3 ws pt (G([] \<mapsto> pt))" and "vm_translate s3 pt = vm_translate s (KernelPageTable s)" and "free_pages xs = free_pages ws + 3" and "length ws \<le> length xs"
    and "(page st \<union> page pg) \<inter> vm_bytes ws (G([] \<mapsto> pt)) = {}" and "vm_bytes ws (G([] \<mapsto> pt)) \<subseteq> vm_bytes xs G"
    and "page st \<union> page pg \<subseteq> list_bytes 4096 xs" and "page st \<inter> page pg = {}" and "unat st + 4096 \<le> 2 ^ 64" and "unat pg + 4096 \<le> 2 ^ 64"
    and "frame_of (pg - HigherHalfDirectMapOffset s) = pg - HigherHalfDirectMapOffset s"
    and "load_context (mem s3) (st + 3856) = \<lparr>c_rbx = 0, c_rbp = 0, c_r12 = 0, c_r13 = 0, c_r14 = 0, c_r15 = 0,
        c_rsp = st + 3912, c_rip = ProcessEntryPoint_addr sy\<rparr>" and "load64 (mem s3) (st + 3912) = TrapRet sy"
    and "\<And>k. k < unat n \<Longrightarrow> mem s3 (pg + of_nat k) = mem s (MyFirstUserspace sy + of_nat k)"
    and "thisCPU s3 = Some c" and "HigherHalfDirectMapOffset s3 = HigherHalfDirectMapOffset s" and "proc_state.more s3 = proc_state.more s"
    and "ProcessTable_addr s3 = ProcessTable_addr s" and "logLock s3 = logLock s" and "ctx s3 = ctx s"
proof -
  let ?off = "HigherHalfDirectMapOffset s" and ?B = "list_bytes 4096 xs" and ?rt = "KernelPageTable s"
  have h: "pm_holds s xs" and low: "low_chunks ?off xs" and G: "G [] = Some ?rt" and ok: "space_ok (mem s) ?off ?B G"
    using vm by (simp_all add: vm_holds_def)
  note rt = space_okD(2,3)[OF ok G]
  have "2 \<le> free_pages xs" using free by simp
  note run = allocateProcess_pages[OF h low this cpu lk slot rt, of sy]
  obtain s1 pt st zs where
    s1: "allocateProcess sy s = Inr (proc_ptr s i, s1)" "ProcessTable s1 = (ProcessTable s)[i := fresh_process pt st (ProcessTable s ! i)]"
      "ProcessTableSpinlock s1 = 0" "pm_holds s1 zs" "low_chunks ?off zs" "free_pages xs = free_pages zs + 2"
      "page pt \<union> page st \<subseteq> ?B" "page pt \<inter> page st = {}" "list_bytes 4096 zs = ?B - page pt - page st"
      "unat pt + 4096 \<le> 2 ^ 64" "unat st + 4096 \<le> 2 ^ 64"
    and len1: "length zs \<le> length xs"
    and copy1: "\<And>j. j < 4096 \<Longrightarrow> mem s1 (pt + of_nat j) = mem s (?rt + of_nat j)" and same1: "\<And>x. unat x \<notin> ?B \<Longrightarrow> mem s1 x = mem s x"
    and ctx1: "load_context (mem s1) (st + 3856) = \<lparr>c_rbx = 0, c_rbp = 0, c_r12 = 0, c_r13 = 0, c_r14 = 0, c_r15 = 0,
        c_rsp = st + 3912, c_rip = ProcessEntryPoint_addr sy\<rparr>" "load64 (mem s1) (st + 3912) = TrapRet sy"
    and fld1: "thisCPU s1 = thisCPU s" "HigherHalfDirectMapOffset s1 = ?off" "proc_state.more s1 = proc_state.more s"
      "ProcessTable_addr s1 = ProcessTable_addr s" "logLock s1 = logLock s" "ctx s1 = ctx s"
    by (rule run) blast
  have wf: "wf_chunks 4096 zs" using s1(4) by (simp add: pm_holds_def)
  have zs: "zs \<noteq> []" using free s1(6) by (intro free_pages_ne) simp
  have srcz: "unat x \<notin> list_bytes 4096 zs" if "inside (MyFirstUserspace sy) (unat n) x" for x using src[OF that] s1(9) by blast
  note pgs = program_page[OF s1(4) zs s1(5) size, of "MyFirstUserspace sy"]
  obtain pg s2 where s2: "allocatePage s1 = Inr (pg, s2)" "pm_holds (s2\<lparr>mem := fst (memcpy (mem s2) pg (MyFirstUserspace sy) n)\<rparr>) (fit_rest 1 zs)"
    "page pg \<subseteq> list_bytes 4096 zs" "list_bytes 4096 (fit_rest 1 zs) = list_bytes 4096 zs - page pg" "unat pg + 4096 \<le> 2 ^ 64" "pm_same s1 s2"
    "frame_of (pg - ?off) = pg - ?off"
    and keep: "\<And>x. unat x \<notin> list_bytes 4096 zs \<Longrightarrow> fst (memcpy (mem s2) pg (MyFirstUserspace sy) n) x = mem s1 x"
    and prog: "\<And>k. k < unat n \<Longrightarrow> fst (memcpy (mem s2) pg (MyFirstUserspace sy) n) (pg + of_nat k) = mem s1 (MyFirstUserspace sy + of_nat k)"
    by (rule pgs) (use srcz in blast)+
  define s3 where "s3 = s2\<lparr>mem := fst (memcpy (mem s2) pg (MyFirstUserspace sy) n)\<rparr>"
  have f3: "ProcessTable s3 = ProcessTable s1" "ProcessTableSpinlock s3 = 0" "proc_state.more s3 = proc_state.more s" "logLock s3 = logLock s"
    "ctx s3 = ctx s" "thisCPU s3 = Some c" "HigherHalfDirectMapOffset s3 = ?off" "ProcessTable_addr s3 = ProcessTable_addr s"
    using s2(6) more_proc[of s2 s1] pm_more_fields[of s2 s1] fld1 s1(3) cpu pm_same_offset[OF s2(6)] by (simp_all add: s3_def pm_same_def)
  have h3: "pm_holds s3 (fit_rest 1 zs)" and keep3: "\<And>x. unat x \<notin> list_bytes 4096 zs \<Longrightarrow> mem s3 x = mem s1 x" using s2(2) keep by (simp_all add: s3_def)
  have b3: "list_bytes 4096 (fit_rest 1 zs) \<subseteq> ?B - page pt" "list_bytes 4096 (fit_rest 1 zs) \<subseteq> ?B - (page st \<union> page pg)"
    "page st \<union> page pg \<subseteq> ?B" "page pt \<subseteq> ?B - (page st \<union> page pg)" "page pt \<subseteq> ?B" using s2(3,4) s1(7,8,9) by blast+
  have same3: "mem s3 x = mem s x" if "unat x \<notin> ?B" for x using keep3[of x] same1[OF that] s1(9) that by simp
  have copy3: "mem s3 (pt + of_nat j) = mem s (?rt + of_nat j)" if "j < 4096" for j
  proof -
    have "unat (pt + of_nat j) \<in> page pt" using that s1(10) by (simp add: page_inside inside_def unat_of_nat64)
    then show ?thesis using keep3 s1(9) copy1[OF that] by simp
  qed
  have stack3: "mem s3 x = mem s1 x" if "inside (st + of_nat j) k x" "j + k \<le> 4096" for j k x
    using that inside_shift[OF that(2,1)] s1(9,11) by (intro keep3) (simp add: page_inside)
  have prog3: "mem s3 (pg + of_nat k) = mem s (MyFirstUserspace sy + of_nat k)" if "k < unat n" for k
  proof -
    have "inside (MyFirstUserspace sy) (unat n) (MyFirstUserspace sy + of_nat k)" using that size by (simp add: inside_def unat_of_nat64)
    then show ?thesis using prog[OF that] same1 src by (simp add: s3_def)
  qed
  note v3 = vm_holds_copy[OF vm h3 low_chunks_fit[OF wf s1(5)] f3(7) s1(10) b3(5,1) same3 copy3]
  show ?thesis
  proof (rule that[OF s1(1) s2(1) s3_def _ f3(2) v3 _ _ vm_bytes_copy[OF ok b3(3,4,2)]])
    show "load_context (mem s3) (st + 3856) = \<lparr>c_rbx = 0, c_rbp = 0, c_r12 = 0, c_r13 = 0, c_r14 = 0, c_r15 = 0,
        c_rsp = st + 3912, c_rip = ProcessEntryPoint_addr sy\<rparr>"
      unfolding ctx1(1)[symmetric] by (rule load_context_cong) (use stack3[of 3856 56] in simp)
    show "load64 (mem s3) (st + 3912) = TrapRet sy"
      unfolding ctx1(2)[symmetric] by (rule load64_cong) (use stack3[of 3912 8] in simp)
    show "length (fit_rest 1 zs) \<le> length xs" by (rule order_trans[OF length_fit_rest len1])
    show "page st \<inter> page pg = {}" using s2(3) s1(9) by blast
    show "mem s3 (pg + of_nat k) = mem s (MyFirstUserspace sy + of_nat k)" if "k < unat n" for k by (rule prog3[OF that])
  qed (use f3 s1 s2(5,7) b3(3) free_pages_fit[OF wf zs] in simp_all)
qed

lemma createFirstProcess_run:
  fixes s :: "'a proc_state_scheme" and sy :: symbols
  defines "n \<equiv> MyFirstUserspaceEnd sy - MyFirstUserspace sy"
  assumes vm: "vm_holds s xs (KernelPageTable s) G" and free: "6 \<le> free_pages xs" and cpu: "thisCPU s = Some c"
    and lk: "lock_held (ProcessTableSpinlock s) = 0" and slot: "find_unused 0 (ProcessTable s) = Some i" and len: "length (ProcessTable s) < 2 ^ 32"
    and size: "unat n \<le> 4096" and src: "\<forall>x. inside (MyFirstUserspace sy) (unat n) x \<longrightarrow> unat x \<notin> list_bytes 4096 xs"
  shows "\<exists>s' p pg ys G'. createFirstProcess sy s = Inr s' \<and> ProcessTable s' = (ProcessTable s)[i := p] \<and> state p = Runnable
    \<and> vm_holds s' ys (pageTable p) G' \<and> vm_bytes ys G' \<subseteq> vm_bytes xs G \<and> page (kernelStack p) \<inter> vm_bytes ys G' = {}
    \<and> page (kernelStack p) \<union> page pg \<subseteq> list_bytes 4096 xs \<and> unat (kernelStack p) + 4096 \<le> 2 ^ 64 \<and> unat pg + 4096 \<le> 2 ^ 64
    \<and> frame_of (pg - HigherHalfDirectMapOffset s) = pg - HigherHalfDirectMapOffset s \<and> free_pages xs \<le> free_pages ys + 6 \<and> length ys \<le> length xs
    \<and> vm_translate s' (pageTable p) = vm_map 0x1000 (pg - HigherHalfDirectMapOffset s) (vm_translate s (KernelPageTable s))
    \<and> (\<forall>k < unat n. mem s' (pg + of_nat k) = mem s (MyFirstUserspace sy + of_nat k)) \<and> ready_stack sy (mem s') p
    \<and> lock_held (ProcessTableSpinlock s') = 0 \<and> thisCPU s' = thisCPU s \<and> logLock s' = logLock s \<and> ctx s' = ctx s
    \<and> HigherHalfDirectMapOffset s' = HigherHalfDirectMapOffset s \<and> proc_state.more s' = proc_state.more s"
proof -
  let ?off = "HigherHalfDirectMapOffset s"
  have three: "3 \<le> free_pages xs" using free by simp
  note run = create_space[OF vm three cpu lk slot size[unfolded n_def]]
  obtain s1 s2 s3 pt st pg ws where a: "allocateProcess sy s = Inr (proc_ptr s i, s1)" "allocatePage s1 = Inr (pg, s2)"
    "s3 = s2\<lparr>mem := fst (memcpy (mem s2) pg (MyFirstUserspace sy) n)\<rparr>"
    and t3: "ProcessTable s3 = (ProcessTable s)[i := fresh_process pt st (ProcessTable s ! i)]" "ProcessTableSpinlock s3 = 0"
    and v3: "vm_holds s3 ws pt (G([] \<mapsto> pt))" "vm_translate s3 pt = vm_translate s (KernelPageTable s)" "free_pages xs = free_pages ws + 3"
      "(page st \<union> page pg) \<inter> vm_bytes ws (G([] \<mapsto> pt)) = {}" "vm_bytes ws (G([] \<mapsto> pt)) \<subseteq> vm_bytes xs G"
    and lw: "length ws \<le> length xs"
    and pgs: "page st \<union> page pg \<subseteq> list_bytes 4096 xs" "page st \<inter> page pg = {}" "unat st + 4096 \<le> 2 ^ 64" "unat pg + 4096 \<le> 2 ^ 64"
      "frame_of (pg - ?off) = pg - ?off"
    and c3: "load_context (mem s3) (st + 3856) = \<lparr>c_rbx = 0, c_rbp = 0, c_r12 = 0, c_r13 = 0, c_r14 = 0, c_r15 = 0,
        c_rsp = st + 3912, c_rip = ProcessEntryPoint_addr sy\<rparr>" "load64 (mem s3) (st + 3912) = TrapRet sy"
    and prog: "\<And>k. k < unat n \<Longrightarrow> mem s3 (pg + of_nat k) = mem s (MyFirstUserspace sy + of_nat k)"
    and f3: "thisCPU s3 = Some c" "HigherHalfDirectMapOffset s3 = ?off" "proc_state.more s3 = proc_state.more s"
      "ProcessTable_addr s3 = ProcessTable_addr s" "logLock s3 = logLock s" "ctx s3 = ctx s"
    unfolding n_def by (rule run) (use src[unfolded n_def] in blast)+
  have i: "i < length (ProcessTable s)" using find_unused_Some[OF slot] by simp
  define q where "q = fresh_process pt st (ProcessTable s ! i)"
  have q: "ProcessTable s3 ! i = q" "pageTable q = pt" "trapFrame q = st + 3920" "kernelTask q = st + 3856" "kernelStack q = st"
    using t3(1) i by (simp_all add: q_def fresh_process_def)
  have "page st \<inter> vm_bytes ws (G([] \<mapsto> pt)) = {}" "3 \<le> free_pages ws" using v3(3,4) free by auto
  then obtain s' ys G' m where s': "obind (map_page pt 0x1000 (pg - ?off) s3) (\<lambda>s4.
        let s5 = s4\<lparr>mem := first_frame (trapFrame (ProcessTable s4 ! i)) (mem s4)\<rparr>
        in obind (acquirePT s5) (\<lambda>s6. releasePT (set_proc i ((ProcessTable s6 ! i)\<lparr>state := Runnable\<rparr>) s6))) = Inr s'"
    "ProcessTable s' = (ProcessTable s3)[i := q\<lparr>state := Runnable\<rparr>]"
    "vm_holds s' ys pt G'" "vm_bytes ys G' \<subseteq> vm_bytes ws (G([] \<mapsto> pt))" "free_pages ws \<le> free_pages ys + 3"
    "vm_translate s' pt = vm_map 0x1000 (pg - ?off) (vm_translate s3 pt)"
    "mem s' = first_frame (st + 3920) m" "\<And>x. unat x \<notin> vm_bytes ws (G([] \<mapsto> pt)) \<Longrightarrow> m x = mem s3 x"
    and ly: "length ys \<le> length ws"
    and f': "lock_held (ProcessTableSpinlock s') = 0" "thisCPU s' = thisCPU s3" "logLock s' = logLock s3" "ctx s' = ctx s3"
      "HigherHalfDirectMapOffset s' = HigherHalfDirectMapOffset s3" "proc_state.more s' = proc_state.more s3"
    using create_finish[OF v3(1) _ f3(1) t3(2) pgs(3), of i "pg - ?off", unfolded q(1) q(2,3)] by blast
  have "proc_of s3 (proc_ptr s3 i) = Some i" by (rule proc_of_ptr) (use t3(1) i len in simp_all)
  then have "proc_of s3 (proc_ptr s i) = Some i" using f3(4) by (simp add: proc_ptr_def)
  then have create: "createFirstProcess sy s = Inr s'"
    unfolding createFirstProcess_def using a(1,2) s'(1) f3(2) q(1,2) by (simp add: n_def[symmetric] a(3)[symmetric] toPhysical_def)
  have st': "m x = mem s3 x" if "inside (st + of_nat j) k x" "j + k \<le> 4096" for j k x
    using that inside_shift[OF that(2,1)] v3(4) pgs(3) by (intro s'(8)) (auto simp flip: page_inside)
  have "load_context m (st + 3856) = load_context (mem s3) (st + 3856)" "load64 m (st + 3912) = load64 (mem s3) (st + 3912)"
    using st'[of 3856 56] st'[of 3912 8] by (auto intro: load_context_cong load64_cong)
  then have ready: "ready_stack sy (mem s') (q\<lparr>state := Runnable\<rparr>)"
    unfolding s'(7) by (intro ready_stack_first_frame) (use c3 q in simp_all)
  have "mem s' (pg + of_nat k) = mem s (MyFirstUserspace sy + of_nat k)" if "k < unat n" for k
  proof -
    have x: "unat (pg + of_nat k) \<in> page pg" using that size pgs(4) by (simp add: page_inside inside_def unat_of_nat64)
    then have "\<not> inside (st + 3920) 176 (pg + of_nat k)" using frame_in_page[OF pgs(3)] pgs(2) by blast
    then show ?thesis using x v3(4) s'(8)[of "pg + of_nat k"] prog[OF that] unfolding s'(7) by (auto simp: first_frame_other)
  qed
  then show ?thesis
    by (intro exI[of _ s'] exI[of _ "q\<lparr>state := Runnable\<rparr>"] exI[of _ pg] exI[of _ ys] exI[of _ G'])
       (use create s' f' ready q t3(1) v3 pgs f3 cpu lw ly in auto)
qed

section \<open>The first switch\<close>

lemma cli_neutral_cr3: "cr3 (cli_neutral s) = cr3 s"
  by (auto simp: cli_neutral_def cli_def split: option.splits)

lemma logfn_bind: "obind (logfn fmt va s) (\<lambda>(_, s1). F s1) = obind (log_line fmt va s) F"
  by (cases "logfn fmt va s") (auto simp: log_line_def)

lemma run_same_fields:
  assumes "run_same s t"
  shows "ProcessTable t = ProcessTable s" "ProcessTableSpinlock t = ProcessTableSpinlock s" "cr3 t = cr3 s" "ctx t = ctx s"
    "ProcessTable_addr t = ProcessTable_addr s" "thisCPU t = thisCPU s" "lock_held (logLock t) = 0"
  using assms by (cases s; cases t; simp add: run_same_def)+

lemma dispatch_runs:
  assumes cpu: "thisCPU s = Some c" and free: "lock_held (logLock s) = 0" and i: "i < length (ProcessTable s)"
  obtains t where "dispatch c i s = Inr t" and "ctx t = load_context (save_context (ctx s) (mem s)) (kernelTask (ProcessTable s ! i))"
    and "mem t = save_context (ctx s) (mem s)" and "cr3 t = toPhysical s (pageTable (ProcessTable s ! i))"
    and "ProcessTable t = (ProcessTable s)[i := (ProcessTable s ! i)\<lparr>state := Running\<rparr>]" and "ProcessTableSpinlock t = ProcessTableSpinlock s"
    and "currentProcess (CPUs t ! c) = proc_ptr s i" and "schedulerTask (CPUs t ! c) = c_rsp (ctx s) - 56"
    and "thisCPU t = Some c" and "HigherHalfDirectMapOffset t = HigherHalfDirectMapOffset s"
proof -
  have same: "run_same s s" using cpu free by (simp add: run_same_def)
  have "prints ''found a process to run! :)\<newline>'' []" by simp
  from log_line_ok[OF same this] obtain s1 where s1: "log_line ''found a process to run! :)\<newline>'' [] s = Inr s1" "run_same s s1" "mem s1 = mem s"
    "HigherHalfDirectMapOffset s1 = HigherHalfDirectMapOffset s" .
  note f1 = run_same_fields[OF s1(2)]
  define p where "p = ProcessTable s ! i"
  define s2 where "s2 = s1\<lparr>CPUs := (CPUs s1)[c := (CPUs s1 ! c)\<lparr>currentProcess := proc_ptr s1 i\<rparr>]\<rparr>"
  define s4 where "s4 = set_proc i (p\<lparr>state := Running\<rparr>) (s2\<lparr>cr3 := toPhysical s2 (pageTable p)\<rparr>)"
  have c1: "thisCPU s1 = Some c" using f1(6) cpu by simp
  have "thisCPU s2 = Some c" unfolding s2_def using c1 by (subst thisCPU_update_same_id) simp_all
  then have c4: "thisCPU s4 = Some c" by (simp add: s4_def thisCPU_def lapicID_def set_proc_def)
  have same4: "run_same s4 s4" using c4 f1(7) by (simp add: run_same_def s4_def s2_def set_proc_def)
  have fmt: "prints ''sweeetch! :)\<newline>'' []" by simp
  obtain out where o: "log_line ''sweeetch! :)\<newline>'' [] s4 =
      Inr ((cli_neutral ((cli_neutral s4)\<lparr>logLock := lock_set_held 1 (logLock s4), outb_log := out\<rparr>))\<lparr>logLock := 0\<rparr>)"
    by (rule log_line_eq[OF same4 fmt])
  define s5 where "s5 = (cli_neutral ((cli_neutral s4)\<lparr>logLock := lock_set_held 1 (logLock s4), outb_log := out\<rparr>))\<lparr>logLock := 0\<rparr>"
  have s5: "mem s5 = mem s" "ctx s5 = ctx s" "ProcessTable s5 = (ProcessTable s)[i := p\<lparr>state := Running\<rparr>]" "cr3 s5 = toPhysical s (pageTable p)"
    "ProcessTableSpinlock s5 = ProcessTableSpinlock s" "HigherHalfDirectMapOffset s5 = HigherHalfDirectMapOffset s"
    "currentProcess (CPUs s5 ! c) = proc_ptr s i" "c < length (CPUs s5)"
    using s1(3,4) f1 c4 thisCPU_bound[OF c1]
    by (simp_all add: s5_def s4_def s2_def set_proc_def toPhysical_def proc_ptr_def cli_neutral_cr3)
  have c5: "thisCPU s5 = Some c" using c4 by (simp add: s5_def)
  let ?t = "s5\<lparr>ctx := load_context (save_context (ctx s) (mem s)) (kernelTask p), mem := save_context (ctx s) (mem s),
      CPUs := (CPUs s5)[c := (CPUs s5 ! c)\<lparr>schedulerTask := c_rsp (ctx s) - 56\<rparr>]\<rparr>"
  have p2: "ProcessTable s2 ! i = p" by (simp add: s2_def f1(1) p_def)
  have run: "dispatch c i s = Inr ?t"
    unfolding dispatch_def logfn_bind s1(1) obind.simps Let_def s2_def[symmetric]
    using o s5 i f1(1) by (simp add: logfn_bind p2 s4_def[symmetric] s5_def[symmetric] Pause_eq)
  have "thisCPU ?t = thisCPU (s5\<lparr>CPUs := (CPUs s5)[c := (CPUs s5 ! c)\<lparr>schedulerTask := c_rsp (ctx s) - 56\<rparr>]\<rparr>)"
    by (simp add: thisCPU_def lapicID_def)
  then have "thisCPU ?t = Some c" using c5 by (simp add: thisCPU_update_same_id)
  then show ?thesis by (intro that[OF run]) (use s5 in \<open>simp_all add: p_def\<close>)
qed

lemma ready_stack_cong:
  assumes "ready_stack sy m p" and "unat (kernelStack p) + 4096 \<le> 2 ^ 64" and "\<And>x. unat x \<in> page (kernelStack p) \<Longrightarrow> m' x = m x"
  shows "ready_stack sy m' p"
proof -
  let ?st = "kernelStack p"
  have f: "trapFrame p = ?st + 3920" "kernelTask p = ?st + 3856" using assms(1) by (simp_all add: ready_stack_def)
  have same: "m' x = m x" if "inside (?st + of_nat j) k x" "j + k \<le> 4096" for j k x
    using inside_shift[OF that(2,1)] assms(2) by (intro assms(3)) (simp add: page_inside)
  have "load_context m' (?st + 3856) = load_context m (?st + 3856)" using same[of 3856 56] by (intro load_context_cong) simp
  moreover have slot: "load64 m' (?st + of_nat j) = load64 m (?st + of_nat j)" if "j + 8 \<le> 4096" for j
    by (rule load64_cong) (use same that in blast)
  have "load64 m' (?st + 3920 + ir_offset x) = load64 m (?st + 3920 + ir_offset x)" for x
  proof -
    have "?st + 3920 + ir_offset x = ?st + of_nat (3920 + 8 * ir_slot x)" by (simp add: ir_slot(1))
    then show ?thesis using slot[of "3920 + 8 * ir_slot x"] ir_slot(2)[of x] by (simp only:)
  qed
  moreover have "load64 m' (?st + 3920 - 8) = load64 m (?st + 3920 - 8)" using slot[of 3912] by (simp add: add.commute[of 3912])
  ultimately show ?thesis using assms(1) unfolding ready_stack_def f by simp
qed

lemma user_page_address:
  assumes "k < 4096"
  shows "same_page (0x1000 + of_nat k) 0x1000" and "take_bit 12 (0x1000 + of_nat k :: u64) = of_nat k"
proof -
  have u: "unat (0x1000 + of_nat k :: u64) = 4096 + k" using unat_of_nat64[of "4096 + k"] assms by simp
  show "same_page (0x1000 + of_nat k) 0x1000" unfolding same_page_nat u using assms by simp
  have "unat (take_bit 12 (0x1000 + of_nat k :: u64)) = k" unfolding unsigned_take_bit_eq u using assms by (simp add: take_bit_eq_mod)
  then show "take_bit 12 (0x1000 + of_nat k :: u64) = of_nat k" by (metis of_nat_unat ucast_id)
qed

lemma program_visible:
  assumes vm: "vm_holds t ys rt G" and tr: "vm_translate t rt = vm_map 0x1000 (pg - off) f" and frame: "frame_of (pg - off) = pg - off" and k: "k < 4096"
  shows "vm_translate t rt (0x1000 + of_nat k) = Some (pg + of_nat k - off)" and "vm_user_writes t rt (0x1000 + of_nat k)"
proof -
  show a: "vm_translate t rt (0x1000 + of_nat k) = Some (pg + of_nat k - off)"
    using user_page_address[OF k] frame by (simp add: tr vm_map_def algebra_simps)
  show "vm_user_writes t rt (0x1000 + of_nat k)" by (rule mapped_user_writes[OF vm]) (simp add: a)
qed

text \<open>
  C2. The first process runs its program. With an address space for the kernel, six free pages, an unlocked process table with an unused entry, a
  program of at most a page outside of the free memory, and the stack of the scheduler outside of the tables and of the free memory,
  \<^verbatim>\<open>createFirstProcess\<close> returns, the switch to the process leads to \<^verbatim>\<open>ProcessEntryPoint\<close>, which unlocks the table and returns to \<^verbatim>\<open>TrapRet\<close>, and
  \<^verbatim>\<open>TrapRet\<close> leaves for user mode at \<open>0x1000\<close> with interrupts on, all other registers zero and no stack. The address space then is that of
  the process: each byte of the program is found from \<open>0x1000\<close> on, in memory that user mode may write, and every other page is translated as by the kernel.
\<close>

theorem first_process_starts:
  fixes s :: "'a boot_state_scheme" and sy :: symbols
  defines "n \<equiv> unat (MyFirstUserspaceEnd sy - MyFirstUserspace sy)"
  assumes vm: "vm_holds s xs (KernelPageTable s) G" and pages: "6 \<le> free_pages xs" and cpu: "thisCPU s = Some c"
    and lk: "lock_held (ProcessTableSpinlock s) = 0" and log: "lock_held (logLock s) = 0"
    and slot: "find_unused 0 (ProcessTable s) = Some i" and len: "length (ProcessTable s) < 2 ^ 32"
    and size: "n \<le> 4096" and src: "\<forall>x. inside (MyFirstUserspace sy) n x \<longrightarrow> unat x \<notin> list_bytes 4096 xs"
    and stack: "\<forall>x. inside (c_rsp (ctx s) - 56) 56 x \<longrightarrow> unat x \<notin> vm_bytes xs G"
  shows "\<exists>s1 s2 s3 s4 r' rt. createFirstProcess sy s = Inr s1 \<and> state (ProcessTable s1 ! i) = Runnable
    \<and> dispatch c i s1 = Inr s2 \<and> c_rip (ctx s2) = ProcessEntryPoint_addr sy
    \<and> ProcessEntryPoint s2 = Inr s3 \<and> load64 (mem s3) (c_rsp (ctx s2)) = TrapRet sy
    \<and> exec 0 e TrapRet_code (r(Rsp := c_rsp (ctx s2) + 8), s3) = Inr (Resume r' s4)
    \<and> (\<forall>x. is_register x \<longrightarrow> r' x = first_register x) \<and> rflags s4 = 0x200 \<and> cr3 s4 = rt - HigherHalfDirectMapOffset s
    \<and> (\<forall>k < n. \<exists>pa. vm_translate s4 rt (0x1000 + of_nat k) = Some pa \<and> vm_user_writes s4 rt (0x1000 + of_nat k)
         \<and> mem s4 (pa + HigherHalfDirectMapOffset s) = mem s (MyFirstUserspace sy + of_nat k))
    \<and> (\<forall>va. \<not> same_page va 0x1000 \<longrightarrow> vm_translate s4 rt va = vm_translate s (KernelPageTable s) va)"
proof -
  let ?off = "HigherHalfDirectMapOffset s"
  obtain s1 p pg ys G' where s1: "createFirstProcess sy s = Inr s1" "ProcessTable s1 = (ProcessTable s)[i := p]" "state p = Runnable"
    and v1: "vm_holds s1 ys (pageTable p) G'" "vm_bytes ys G' \<subseteq> vm_bytes xs G" "page (kernelStack p) \<union> page pg \<subseteq> list_bytes 4096 xs"
      "unat (kernelStack p) + 4096 \<le> 2 ^ 64" "unat pg + 4096 \<le> 2 ^ 64" "frame_of (pg - ?off) = pg - ?off"
      "vm_translate s1 (pageTable p) = vm_map 0x1000 (pg - ?off) (vm_translate s (KernelPageTable s))"
      "\<forall>k < n. mem s1 (pg + of_nat k) = mem s (MyFirstUserspace sy + of_nat k)" "ready_stack sy (mem s1) p"
    and f1: "lock_held (ProcessTableSpinlock s1) = 0" "thisCPU s1 = Some c" "logLock s1 = logLock s" "ctx s1 = ctx s"
      "HigherHalfDirectMapOffset s1 = ?off"
    using createFirstProcess_run[OF vm pages cpu lk slot len size[unfolded n_def] src[unfolded n_def]] cpu unfolding n_def by auto
  have i: "i < length (ProcessTable s1)" using find_unused_Some[OF slot] s1(2) by simp
  have pi: "ProcessTable s1 ! i = p" using i s1(2) by simp
  have l1: "lock_held (logLock s1) = 0" using f1(3) log by simp
  note run = dispatch_runs[OF f1(2) l1 i, unfolded pi]
  define m where "m = save_context (ctx s) (mem s1)"
  obtain s2 where s2: "dispatch c i s1 = Inr s2" "ctx s2 = load_context m (kernelTask p)" "mem s2 = m" "cr3 s2 = pageTable p - ?off"
    "thisCPU s2 = Some c" "HigherHalfDirectMapOffset s2 = ?off"
    by (rule run) (use f1(4,5) in \<open>simp add: m_def toPhysical_def\<close>)
  define s3 where "s3 = (cli_neutral s2)\<lparr>ProcessTableSpinlock := 0\<rparr>"
  have s3: "ProcessEntryPoint s2 = Inr s3" "mem s3 = m" "cr3 s3 = pageTable p - ?off" "HigherHalfDirectMapOffset s3 = ?off"
    using s2 by (simp_all add: ProcessEntryPoint_def kernel_simps s3_def cli_neutral_cr3)
  have keep: "m x = mem s1 x" if "unat x \<in> vm_bytes xs G" for x
    using that stack unfolding m_def by (intro save_context_other) blast
  have xs: "list_bytes 4096 xs \<subseteq> vm_bytes xs G" by (simp add: vm_bytes_def)
  have ready: "ready_stack sy m p" by (rule ready_stack_cong[OF v1(9,4)]) (use keep xs v1(3) in blast)
  define s4 where "s4 = s3\<lparr>rflags := load64 m (trapFrame p + ir_offset Rflags)\<rparr>"
  have "exec 0 e TrapRet_code (r(Rsp := trapFrame p), s3) = Inr (Resume (restored m (trapFrame p) r) s4)"
    using TrapRet_run[of 0 e r "trapFrame p" s3] s3(2) by (simp add: s4_def)
  moreover have top: "c_rsp (ctx s2) = trapFrame p - 8" "c_rip (ctx s2) = ProcessEntryPoint_addr sy" "load64 m (trapFrame p - 8) = TrapRet sy"
    using ready_stackD[OF ready] s2(2) by simp_all
  moreover have "\<forall>x. is_register x \<longrightarrow> restored m (trapFrame p) r x = first_register x" "rflags s4 = 0x200"
    using ready_stackD(3)[OF ready] by (simp_all add: restored_def s4_def first_register_def del: ir_offset.simps)
  moreover have "vm_holds (s1\<lparr>mem := m\<rparr>) ys (pageTable p) G'" "vm_translate (s1\<lparr>mem := m\<rparr>) (pageTable p) = vm_translate s1 (pageTable p)"
    by (rule vm_holds_frame[OF v1(1)]; use keep v1(2) in blast)+
  note v4 = this
  have m4: "mem s4 = m" using s3(2) by (simp add: s4_def)
  have t4: "vm_translate s4 rt = vm_translate (s1\<lparr>mem := m\<rparr>) rt" "vm_user_writes s4 rt = vm_user_writes (s1\<lparr>mem := m\<rparr>) rt" for rt
    by (rule ext, simp add: f1(5) s3(2,4) vm_translate_def vm_user_writes_def s4_def)+
  have "\<exists>pa. vm_translate s4 (pageTable p) (0x1000 + of_nat k) = Some pa \<and> vm_user_writes s4 (pageTable p) (0x1000 + of_nat k)
      \<and> mem s4 (pa + ?off) = mem s (MyFirstUserspace sy + of_nat k)" if "k < n" for k
  proof -
    have k: "k < 4096" using that size by simp
    have "unat (pg + of_nat k) \<in> page pg" using k v1(5) by (simp add: page_inside inside_def unat_of_nat64)
    then have "m (pg + of_nat k) = mem s1 (pg + of_nat k)" using v1(3) xs by (intro keep) blast
    then show ?thesis using program_visible[OF v4(1) v4(2)[unfolded v1(7)] v1(6) k] v1(8) that s3(2)
      by (intro exI[of _ "pg + of_nat k - ?off"]) (simp add: t4 m4)
  qed
  moreover have "vm_translate s4 (pageTable p) va = vm_translate s (KernelPageTable s) va" if "\<not> same_page va 0x1000" for va
    using that by (simp add: t4(1) v4(2) v1(7) vm_map_def)
  ultimately show ?thesis using s1 s2(1) s3(1,2,3) pi
    by (intro exI[of _ s1] exI[of _ s2] exI[of _ s3] exI[of _ s4] exI[of _ "restored m (trapFrame p) r"] exI[of _ "pageTable p"])
       (simp add: s4_def)
qed

text \<open>A kernel with an empty address space and a program of 16 bytes.\<close>

definition sample_user :: boot_state where
  "sample_user = sample_boot\<lparr>CPUs := [zero_CPUState], KernelPageTable := 0xFFFF800000002000\<rparr>"

lemma sample_user_vm:
  "vm_holds sample_user [(0xFFFF800000008000, 1000)] 0xFFFF800000002000 [[] \<mapsto> 0xFFFF800000002000]"
proof -
  have "mem sample_user x = 0" if "unat x \<in> page 0xFFFF800000002000" for x
    using that by (simp add: sample_user_def sample_boot_def set_count_def page_def inside_nat frame_simps)
  moreover have "pm_holds sample_user [(0xFFFF800000008000, 1000)]"
    using sample_boot_facts(1) by (simp add: pm_holds_def pm_ready_def usingLock_def sample_user_def sample_boot_def)
  moreover have "page 0xFFFF800000002000 \<inter> list_bytes 4096 [(0xFFFF800000008000, 1000)] = {}"
    by (auto simp: page_def list_bytes_def chunk_bytes_def chunk_end_def)
  ultimately show ?thesis using sample_boot_facts(2)
    by (auto intro!: space_ok_root simp: vm_holds_def sample_user_def)
qed

lemma sample_slot: "find_unused 0 (replicate 64 unused_process) = Some 0"
proof -
  have "replicate 64 unused_process = unused_process # replicate 63 unused_process" using replicate_Suc[of 63 unused_process] by (simp del: replicate_Suc)
  then show ?thesis by (simp add: unused_process_def)
qed

theorem first_process_starts_witness:
  "\<exists>s1 s2 s3 s4 r'. createFirstProcess \<lparr>TrapRet = 0x111, ProcessEntryPoint_addr = 0x222, SyscallHandler = 0, MyFirstUserspace = 0x4000, MyFirstUserspaceEnd = 0x4010\<rparr>
       sample_user = Inr s1 \<and> dispatch 0 0 s1 = Inr s2 \<and> c_rip (ctx s2) = 0x222 \<and> ProcessEntryPoint s2 = Inr s3
     \<and> exec 0 sample_env TrapRet_code (user_regs(Rsp := c_rsp (ctx s2) + 8), s3) = Inr (Resume r' s4) \<and> r' Rip = 0x1000 \<and> r' Cs = 0x2B \<and> rflags s4 = 0x200"
proof -
  let ?sy = "\<lparr>TrapRet = 0x111, ProcessEntryPoint_addr = 0x222, SyscallHandler = 0, MyFirstUserspace = 0x4000, MyFirstUserspaceEnd = 0x4010\<rparr>"
  let ?xs = "[(0xFFFF800000008000 :: u64, 1000 :: u64)]" and ?G = "[[] \<mapsto> 0xFFFF800000002000] :: u64 list \<Rightarrow> u64 option"
  have vm: "vm_holds sample_user ?xs (KernelPageTable sample_user) ?G" using sample_user_vm by (simp add: sample_user_def)
  have f: "6 \<le> free_pages ?xs" "thisCPU sample_user = Some 0" "lock_held (ProcessTableSpinlock sample_user) = 0" "lock_held (logLock sample_user) = 0"
    "find_unused 0 (ProcessTable sample_user) = Some 0" "length (ProcessTable sample_user) < 2 ^ 32"
    using sample_slot
    by (simp_all add: free_pages_def sample_user_def sample_boot_def thisCPU_def lapicID_def zero_CPUState_def lock_held_def del: replicate_Suc)
  have n: "unat (MyFirstUserspaceEnd ?sy - MyFirstUserspace ?sy) = 16" by simp
  have "\<forall>x. inside (MyFirstUserspace ?sy) 16 x \<longrightarrow> unat x \<notin> list_bytes 4096 ?xs"
    by (auto simp: inside_nat list_bytes_def chunk_bytes_def chunk_end_def)
  moreover have "\<forall>x. inside (c_rsp (ctx sample_user) - 56) 56 x \<longrightarrow> unat x \<notin> vm_bytes ?xs ?G"
    by (auto simp: sample_user_def sample_boot_def inside_nat vm_bytes_def list_bytes_def chunk_bytes_def chunk_end_def page_def)
  ultimately obtain s1 s2 s3 s4 r' where
    "createFirstProcess ?sy sample_user = Inr s1" "dispatch 0 0 s1 = Inr s2" "c_rip (ctx s2) = ProcessEntryPoint_addr ?sy"
    "ProcessEntryPoint s2 = Inr s3" "exec 0 sample_env TrapRet_code (user_regs(Rsp := c_rsp (ctx s2) + 8), s3) = Inr (Resume r' s4)"
    "\<forall>x. is_register x \<longrightarrow> r' x = first_register x" "rflags s4 = 0x200"
    using first_process_starts[OF vm f, where sy = ?sy and e = sample_env and r = user_regs, unfolded n] by auto
  moreover from this(6) have "r' Rip = 0x1000" "r' Cs = 0x2B" by (simp_all add: is_register_def first_register_def)
  ultimately show ?thesis by (intro exI[of _ s1] exI[of _ s2] exI[of _ s3] exI[of _ s4] exI[of _ r']) simp
qed

end
