(* ===== verification/Kernel_Boot.thy ===== *)
theory Kernel_Boot
  imports First_Process
begin

text \<open>
  The whole boot: \<^verbatim>\<open>KernelMain\<close> of \<^verbatim>\<open>src/Kernel/KernelMain.cpp\<close>, from the responses of the loader to the scheduler of the boot processor.
  The lemmas carry the address space and the free list from one call to the next.
\<close>

section \<open>From call to call\<close>

lemma vm_holds_take:
  assumes vm: "vm_holds s xs rt G" and h: "pm_holds t ys" "low_chunks (HigherHalfDirectMapOffset s) ys"
    and off: "HigherHalfDirectMapOffset t = HigherHalfDirectMapOffset s" and ys: "list_bytes 4096 ys \<subseteq> list_bytes 4096 xs"
    and same: "\<And>x. unat x \<notin> list_bytes 4096 xs \<Longrightarrow> mem t x = mem s x"
  shows "vm_holds t ys rt G" and "vm_translate t rt = vm_translate s rt"
proof -
  let ?off = "HigherHalfDirectMapOffset s"
  have ok: "space_ok (mem s) ?off (list_bytes 4096 xs) G" and rt: "G [] = Some rt" using vm by (simp_all add: vm_holds_def)
  have tab: "mem t x = mem s x" if "G p = Some u" "unat x \<in> page u" for p u x
    using space_okD(3)[OF ok that(1)] that(2) by (intro same) blast
  have ok': "space_ok (mem t) ?off (list_bytes 4096 ys) G" by (rule space_ok_frame[OF ok ys tab])
  show "vm_holds t ys rt G" using h off ok' rt by (simp add: vm_holds_def)
  show "vm_translate t rt = vm_translate s rt"
    using hw_translate_tables[OF ok ok' rt tab] by (intro ext) (simp add: vm_translate_def off)
qed

text \<open>Among \<open>k\<close> chunks with more than \<open>15 k\<close> pages, one has a run of 16.\<close>

lemma run_of_16:
  assumes h: "pm_holds s xs" and many: "15 * length xs < free_pages xs"
  shows "fit_addr 4096 16 xs \<noteq> 0"
proof -
  have wf: "wf_chunks 4096 xs" using h by (simp add: pm_holds_def)
  obtain l where l: "dseg (mem s) 0 (pm_freeList s) xs l 0" using h by (auto simp: pm_holds_def dll_def)
  have "free_pages ys \<le> 15 * length ys" if "\<forall>y \<in> set ys. \<not> 16 \<le> snd y" for ys :: "(u64 \<times> u64) list"
    using that by (induction ys) (auto simp: free_pages_def word_le_nat_alt)
  then obtain x where x: "List.find (\<lambda>x. 16 \<le> snd x) xs = Some x" using many
    by (metis find_None_iff linorder_not_le not_Some_eq)
  have "x \<in> set xs" using find_split[OF x] by auto
  then have "0 < unat (fst x)" using dseg_nonzero[OF l] by (simp add: unat_gt_0)
  then show ?thesis using fit_bytes(1)[OF wf _ _ x, of 4096] by (intro notI) simp
qed

lemma set_usingLock_held: "lock_held (set_usingLock b w) = lock_held w"
proof -
  have k: "(0xFF00FFFF :: u32) = NOT (push_bit 16 (mask 8))" by (simp add: mask_eq_exp_minus_1 push_bit_eq_mult)
  have "(ucast (w AND 0xFF00FFFF) :: u16) = ucast w" unfolding k by (rule bit_word_eqI) (auto simp: bit_simps)
  moreover have z: "(0x10000 :: u16) = 0" by transfer (simp add: take_bit_eq_mod)
  have "v OR 0x10000 = v" for v :: u16 by (subst z) simp
  ultimately show ?thesis by (simp add: lock_held_def set_usingLock_def unsigned_or_eq)
qed

section \<open>The processors\<close>

lemma initializeProcessors_run:
  fixes s :: "'a boot_state_scheme"
  assumes vm: "vm_holds s xs rt G" and ne: "xs \<noteq> []" and lk: "\<not> usingLock s" "lock_held (pm_lockword s) = 0"
    and resp: "smp_response (requests s) = Some resp" "length (cpus resp) \<le> 18" "distinct (map lapic_id (cpus resp))"
    and c: "c < length (cpus resp)" "drop_bit 24 (lapicIDReg s) = lapic_id (cpus resp ! c)"
  obtains t where "initializeProcessors sy s = Inr t" and "vm_holds t (fit_rest 1 xs) rt G" and "vm_translate t rt = vm_translate s rt"
    and "thisCPU t = Some c" and "smp_response (requests t) = Some (resp\<lparr>cpus := map (sent sy resp) (cpus resp)\<rparr>)"
    and "HigherHalfDirectMapOffset t = HigherHalfDirectMapOffset s" and "\<And>x. unat x \<notin> list_bytes 4096 xs \<Longrightarrow> mem t x = mem s x"
    and "pm_state.more (t\<lparr>requests := requests s, CPUs_addr := CPUs_addr s\<rparr>) = pm_state.more s"
proof -
  let ?off = "HigherHalfDirectMapOffset s" and ?p = "fit_addr 4096 1 xs" and ?ys = "fit_rest 1 xs" and ?n = "length (cpus resp)"
  have h: "pm_holds s xs" and low: "low_chunks ?off xs" using vm by (simp_all add: vm_holds_def)
  have wf: "wf_chunks 4096 xs" using h by (simp add: pm_holds_def)
  have n32: "?n < 2 ^ 32" using resp(2) by simp
  obtain s1 s3 where i: "initializeProcessors sy s = for_each [0 ..< ?n] (startProcessor sy resp) s3" "smp_response (requests s3) = Some resp"
    "CPUs s3 = replicate ?n zero_CPUState" "allocatePage s = Inr (?p, s1)"
    "s3 = thereIsNowMoreThanOneProcessor (s1\<lparr>CPUs_addr := ?p, CPUs := replicate ?n zero_CPUState, mem := fst (memset (mem s1) ?p 0 PageSize)\<rparr>)"
    using initializeProcessors_unfold[OF h ne resp(1) n32] by metis
  define t where "t = after_start sy resp ?n s3"
  have run: "initializeProcessors sy s = Inr t" using start_processors[OF i(2,3) order_refl resp(2), of sy] i(1) by (simp add: t_def)
  note take = allocatePage_free[OF h ne]
  obtain s1' where "allocatePage s = Inr (?p, s1')" "pm_holds s1' ?ys" "\<forall>x. unat x \<notin> list_bytes 4096 xs \<longrightarrow> mem s1' x = mem s x" "pm_same s s1'"
    by (rule take) blast
  then have s1: "pm_holds s1 ?ys" "\<And>x. unat x \<notin> list_bytes 4096 xs \<Longrightarrow> mem s1 x = mem s x" "pm_same s s1" using i(4) by auto
  note pg = fit_page[OF h ne]
  have clear: "fst (memset (mem s1) ?p 0 PageSize) x = mem s1 x" if "unat x \<notin> page ?p" for x
    using that pg(1) by (simp add: memset_closed page_inside)
  have memt: "mem t = fst (memset (mem s1) ?p 0 PageSize)" and fl: "pm_freeList t = pm_freeList s1" and off: "HigherHalfDirectMapOffset t = ?off"
    and lw: "pm_lockword t = set_usingLock True (pm_lockword s)" and idr: "lapicIDReg t = lapicIDReg s" and cp: "CPUs t = map started (cpus resp)"
    using s1(3) lk(1) by (simp_all add: t_def after_start_def i(5) thereIsNowMoreThanOneProcessor_def pm_same_def)
  have cpu: "thisCPU t = Some c"
    using thisCPU_distinct[of "map started (cpus resp)" c "lapicID t"] resp(3) c idr cp by (simp add: thisCPU_def lapicID_def comp_def started_def)
  have same: "mem t x = mem s x" if "unat x \<notin> list_bytes 4096 xs" for x using clear[of x] s1(2)[OF that] pg(2) that memt by auto
  have "pm_holds (s1\<lparr>mem := mem t\<rparr>) ?ys" by (rule pm_holds_frame[OF s1(1)]) (use clear pg(3) memt in auto)
  then have ht: "pm_holds t ?ys" using cpu lk(2) fl lw by (simp add: pm_holds_def pm_ready_def set_usingLock_held)
  have sub: "list_bytes 4096 ?ys \<subseteq> list_bytes 4096 xs" using pg(3) by blast
  note v = vm_holds_take[OF vm ht low_chunks_fit[OF wf low] off sub same]
  have "smp_response (requests t) = Some (resp\<lparr>cpus := map (sent sy resp) (cpus resp)\<rparr>)" by (simp add: t_def after_start_def)
  moreover have "pm_state.more (t\<lparr>requests := requests s, CPUs_addr := CPUs_addr s\<rparr>) = pm_state.more s"
    using s1(3) by (cases s; cases s1; simp add: t_def after_start_def i(5) thereIsNowMoreThanOneProcessor_def pm_same_def)
  ultimately show ?thesis using run v cpu off same by (intro that[of t])
qed

section \<open>KernelMain\<close>

lemma pm_more_boot:
  fixes s t :: "'a boot_state_scheme"
  assumes "pm_state.more t = pm_state.more s"
  shows "ProcessTable t = ProcessTable s" "ProcessTableSpinlock t = ProcessTableSpinlock s" "IDTEntries t = IDTEntries s"
    "IDTEntries_addr t = IDTEntries_addr s" "requests t = requests s" "logLock t = logLock s" "KernelPageTable t = KernelPageTable s"
    "cr3 t = cr3 s" "lapic t = lapic s" "msrs t = msrs s"
  using assms by (cases s; cases t; simp)+

lemma log_more_boot:
  fixes s t :: "'a boot_state_scheme"
  assumes "log_state.more t = log_state.more s"
  shows "ProcessTable t = ProcessTable s" "IDTEntries t = IDTEntries s" "IDTEntries_addr t = IDTEntries_addr s" "requests t = requests s"
    "idtr_base t = idtr_base s" "msrs t = msrs s"
  using assms by (cases s; cases t; simp)+

lemma proc_more_boot:
  fixes s t :: "'a boot_state_scheme"
  assumes "proc_state.more t = proc_state.more s"
  shows "IDTEntries t = IDTEntries s" "IDTEntries_addr t = IDTEntries_addr s" "requests t = requests s"
  using assms by (cases s; cases t; simp)+

lemma setupProcessor_fields:
  "ProcessTable (setupProcessor sy c stack s) = ProcessTable s" "IDTEntries (setupProcessor sy c stack s) = IDTEntries s"
  "requests (setupProcessor sy c stack s) = requests s"
  by (simp_all add: setupProcessor_def Let_def setStarRegister_def setSyscallRIP_def setKernelGSBase_def cpuSetMSR_def swapgs_def split_beta)

text \<open>Memory: the free list and the address space, with pages to spare.\<close>

lemma boot_memory:
  fixes s :: "'a boot_state_scheme"
  assumes resp: "hhdm_response (requests s) = Some off" "memmap_response (requests s) = Some es" "kernel_address_response (requests s) = Some ka"
    and xs: "xs = usable_chunks off es" "wf_chunks 4096 xs" "gaps xs" "low_chunks off xs" "\<forall>c \<in> set xs. fst c \<noteq> 0"
    and L: "boot_layout bs off (top_address es) ka" and pages: "boot_tables bs off (top_address es) + spare \<le> free_pages xs"
  obtains s1 s2 ys G where "initByAddingUsablePagesToMemoryManagement s = Inr (top_address es, s1)"
    and "initializeVirtualMemory bs (top_address es) s1 = Inr s2" and "vm_holds s2 ys (KernelPageTable s2) G" and "spare \<le> free_pages ys"
    and "length ys \<le> length xs" and "vm_bytes ys G \<subseteq> list_bytes 4096 xs" and "\<forall>x. unat x \<notin> list_bytes 4096 xs \<longrightarrow> mem s2 x = mem s1 x"
    and "\<forall>va. higher_half va \<longrightarrow> vm_translate s2 (KernelPageTable s2) va = kernel_space bs off (top_address es) ka va"
    and "cr3 s2 = KernelPageTable s2 - off" and "\<not> usingLock s2" and "lock_held (pm_lockword s2) = 0" and "HigherHalfDirectMapOffset s2 = off" and "lapicIDReg s2 = lapicIDReg s"
    and "pm_state.more (s2\<lparr>KernelPageTable := KernelPageTable s, cr3 := cr3 s\<rparr>) = pm_state.more s"
proof -
  let ?i = "pm_init (s\<lparr>HigherHalfDirectMapOffset := off\<rparr>)"
  obtain s1 where s1: "initByAddingUsablePagesToMemoryManagement s = Inr (top_address es, s1)" "pm_holds s1 xs"
    "HigherHalfDirectMapOffset s1 = off" "requests s1 = requests s" "pm_same ?i s1"
    using initByAdding_lemma[OF resp(1,2)] xs by blast
  obtain s2 ys G where s2: "initializeVirtualMemory bs (top_address es) s1 = Inr s2" "cr3 s2 = KernelPageTable s2 - off"
    "\<forall>va. higher_half va \<longrightarrow> vm_translate s2 (KernelPageTable s2) va = kernel_space bs off (top_address es) ka va"
    "\<forall>x. unat x \<notin> list_bytes 4096 xs \<longrightarrow> mem s2 x = mem s1 x" "pm_same s1 (s2\<lparr>KernelPageTable := KernelPageTable s1, cr3 := cr3 s1\<rparr>)"
    "vm_holds s2 ys (KernelPageTable s2) G" "vm_bytes ys G \<subseteq> list_bytes 4096 xs" "spare \<le> free_pages ys" "length ys \<le> length xs"
    using initializeVirtualMemory_lemma[OF s1(2), unfolded s1(3,4), OF xs(4) resp(3) L pages] by blast
  have "\<not> usingLock ?i" "lock_held (pm_lockword ?i) = 0"
    using set_usingLock_off[of _ "s\<lparr>HigherHalfDirectMapOffset := off\<rparr>"] by (simp_all add: pm_init_def usingLock_def set_usingLock_held Spinlock_init_def)
  then have l1: "\<not> usingLock s1" "lock_held (pm_lockword s1) = 0" using s1(5) by (simp_all add: pm_same_def usingLock_def)
  then have l2: "\<not> usingLock s2" "lock_held (pm_lockword s2) = 0" using s2(5) by (simp_all add: pm_same_def usingLock_def)
  have "HigherHalfDirectMapOffset s2 = off" "lapicIDReg s2 = lapicIDReg s" using s2(5) s1(3,5) by (simp_all add: pm_same_def pm_init_def)
  moreover have "pm_state.more (s2\<lparr>KernelPageTable := KernelPageTable s, cr3 := cr3 s\<rparr>) = pm_state.more s"
    using s2(5) s1(5) by (cases s; cases s1; cases s2; simp add: pm_same_def pm_init_def)
  ultimately show ?thesis using s1(1) s2 l2 by (intro that[of s1 s2 ys G])
qed

text \<open>Processors: from the log lock to the local APIC.\<close>

lemma boot_processors:
  fixes s2 :: "'a boot_state_scheme"
  assumes vm: "vm_holds s2 ys (KernelPageTable s2) G" and ne: "ys \<noteq> []" and lk: "\<not> usingLock s2" "lock_held (pm_lockword s2) = 0"
    and resp: "smp_response (requests s2) = Some resp" "length (cpus resp) \<le> 18" "distinct (map lapic_id (cpus resp))"
    and c: "c < length (cpus resp)" "drop_bit 24 (lapicIDReg s2) = lapic_id (cpus resp ! c)"
    and hw: "\<forall>ws k. \<exists>n \<ge> k. hw ws n (reg_index LowInterruptCommand) AND command_bits DeliveryStatus = 0"
  obtains s4 s5 where "initializeProcessors bs (setupIDTTable st (setLAPICAddress (setAPICBase defaultAPICBase (initLogLock s2)))) = Inr s4"
    and "initLAPIC hw (disableAllLegacyInterrupts s4) = Inr s5" and "vm_holds s5 (fit_rest 1 ys) (KernelPageTable s5) G"
    and "vm_translate s5 (KernelPageTable s5) = vm_translate s2 (KernelPageTable s2)" and "thisCPU s5 = Some c" and "lock_held (logLock s5) = 0"
    and "smp_response (requests s5) = Some (resp\<lparr>cpus := map (sent bs resp) (cpus resp)\<rparr>)"
    and "HigherHalfDirectMapOffset s5 = HigherHalfDirectMapOffset s2" and "\<forall>x. unat x \<notin> list_bytes 4096 ys \<longrightarrow> mem s5 x = mem s2 x"
    and "ProcessTable s5 = ProcessTable s2" and "ProcessTableSpinlock s5 = ProcessTableSpinlock s2"
    and "IDTEntries s5 = fold set_entry_gate (gate_calls st) (IDTEntries s2)" and "IDTEntries_addr s5 = IDTEntries_addr s2"
    and "KernelPageTable s4 = KernelPageTable s2" and "cr3 s4 = cr3 s2" and "vm_translate s4 (KernelPageTable s4) = vm_translate s2 (KernelPageTable s2)"
    and "lapic s4 = defaultAPICBase + HigherHalfDirectMapOffset s2" and "getAPICBase s4 = defaultAPICBase"
proof -
  define s3 where "s3 = setupIDTTable st (setLAPICAddress (setAPICBase defaultAPICBase (initLogLock s2)))"
  note s3_defs = s3_def setupIDTTable_def setLAPICAddress_def setAPICBase_def initLogLock_def cpuSetMSR_def Let_def
  have f3: "pm_lockword s3 = pm_lockword s2" "pm_freeList s3 = pm_freeList s2" "mem s3 = mem s2" "thisCPU s3 = thisCPU s2"
    "HigherHalfDirectMapOffset s3 = HigherHalfDirectMapOffset s2" "requests s3 = requests s2" "lapicIDReg s3 = lapicIDReg s2"
    "KernelPageTable s3 = KernelPageTable s2" "ProcessTable s3 = ProcessTable s2" "ProcessTableSpinlock s3 = ProcessTableSpinlock s2"
    "IDTEntries s3 = fold set_entry_gate (gate_calls st) (IDTEntries s2)" "IDTEntries_addr s3 = IDTEntries_addr s2" "lock_held (logLock s3) = 0"
    by (simp_all add: s3_defs thisCPU_def lapicID_def Spinlock_init_def)
  have g3: "cr3 s3 = cr3 s2" "lapic s3 = defaultAPICBase + HigherHalfDirectMapOffset s2" "msrs s3 0x1B = 0xFEE00800"
    by (simp_all add: s3_defs getAPICBase_def cpuGetMSR_def toVirtual_def defaultAPICBase_def)
  note v3 = vm_holds_cong[OF vm f3(1-5)]
  have l3: "\<not> usingLock s3" "lock_held (pm_lockword s3) = 0" using lk f3(1) by (simp_all add: usingLock_def)
  note run = initializeProcessors_run[OF v3(1) ne l3, unfolded f3(6,7), OF resp c, of bs]
  obtain s4 where s4: "initializeProcessors bs s3 = Inr s4" "vm_holds s4 (fit_rest 1 ys) (KernelPageTable s2) G"
    "vm_translate s4 (KernelPageTable s2) = vm_translate s3 (KernelPageTable s2)" "thisCPU s4 = Some c"
    "smp_response (requests s4) = Some (resp\<lparr>cpus := map (sent bs resp) (cpus resp)\<rparr>)"
    "HigherHalfDirectMapOffset s4 = HigherHalfDirectMapOffset s2" "\<forall>x. unat x \<notin> list_bytes 4096 ys \<longrightarrow> mem s4 x = mem s2 x"
    "pm_state.more (s4\<lparr>requests := requests s2, CPUs_addr := CPUs_addr s3\<rparr>) = pm_state.more s3"
    by (rule run) (use f3 in auto)
  let ?d = "disableAllLegacyInterrupts s4"
  obtain j where j: "initLAPIC hw ?d = Inr (?d\<lparr>lapic_writes := init_log hw ?d @ [(lapic ?d + 0x80, 0)], lapic_reads := j\<rparr>)"
    using initLAPIC_run[of hw ?d] hw by blast
  define s5 where "s5 = ?d\<lparr>lapic_writes := init_log hw ?d @ [(lapic ?d + 0x80, 0)], lapic_reads := j\<rparr>"
  have f5: "pm_lockword s5 = pm_lockword s4" "pm_freeList s5 = pm_freeList s4" "mem s5 = mem s4" "thisCPU s5 = thisCPU s4"
    "HigherHalfDirectMapOffset s5 = HigherHalfDirectMapOffset s4" "requests s5 = requests s4" "logLock s5 = logLock s4"
    "KernelPageTable s5 = KernelPageTable s4" "ProcessTable s5 = ProcessTable s4" "ProcessTableSpinlock s5 = ProcessTableSpinlock s4"
    "IDTEntries s5 = IDTEntries s4" "IDTEntries_addr s5 = IDTEntries_addr s4"
    by (simp_all add: s5_def disableAllLegacyInterrupts_def outb_def thisCPU_def lapicID_def)
  note m4 = pm_more_boot[OF s4(8), simplified]
  note v5 = vm_holds_cong[OF s4(2) f5(1-5)]
  have k5: "KernelPageTable s5 = KernelPageTable s2" using f5(8) m4(7) f3(8) by simp
  have k4: "KernelPageTable s4 = KernelPageTable s2" using m4(7) f3(8) by simp
  show ?thesis
  proof (rule that[of s4 s5])
    show "KernelPageTable s4 = KernelPageTable s2" by (rule k4)
    show "vm_translate s4 (KernelPageTable s4) = vm_translate s2 (KernelPageTable s2)" unfolding k4 s4(3) v3(2) ..
    show "cr3 s4 = cr3 s2" "lapic s4 = defaultAPICBase + HigherHalfDirectMapOffset s2" using m4(8,9) g3 by simp_all
    show "getAPICBase s4 = defaultAPICBase" using m4(10) g3(3) by (simp add: getAPICBase_def cpuGetMSR_def defaultAPICBase_def)
    show "initializeProcessors bs (setupIDTTable st (setLAPICAddress (setAPICBase defaultAPICBase (initLogLock s2)))) = Inr s4"
      using s4(1) unfolding s3_def .
    show "initLAPIC hw ?d = Inr s5" unfolding s5_def by (rule j)
    show "vm_holds s5 (fit_rest 1 ys) (KernelPageTable s5) G" unfolding k5 by (rule v5(1))
    show "vm_translate s5 (KernelPageTable s5) = vm_translate s2 (KernelPageTable s2)" unfolding k5 v5(2) s4(3) v3(2) ..
    show "smp_response (requests s5) = Some (resp\<lparr>cpus := map (sent bs resp) (cpus resp)\<rparr>)" unfolding f5(6) by (rule s4(5))
    show "\<forall>x. unat x \<notin> list_bytes 4096 ys \<longrightarrow> mem s5 x = mem s2 x" unfolding f5(3) by (rule s4(7))
    show "thisCPU s5 = Some c" "HigherHalfDirectMapOffset s5 = HigherHalfDirectMapOffset s2" unfolding f5(4,5) by (rule s4(4,6))+
    show "ProcessTable s5 = ProcessTable s2" "ProcessTableSpinlock s5 = ProcessTableSpinlock s2" "IDTEntries_addr s5 = IDTEntries_addr s2"
      unfolding f5(9,10,12) m4(1,2,4) f3(9,10,12) by (rule refl)+
    show "IDTEntries s5 = fold set_entry_gate (gate_calls st) (IDTEntries s2)" unfolding f5(11) m4(3) f3(11) ..
    show "lock_held (logLock s5) = 0" unfolding f5(7) m4(6) by (rule f3(13))
  qed
qed

lemma higher_half_not_user: "higher_half va \<Longrightarrow> \<not> same_page va 0x1000"
proof
  assume h: "higher_half va" and "same_page va 0x1000"
  then have "unat (take_bit 36 (drop_bit 12 va)) = 1" by (simp add: same_page_def)
  then have "(unat va div 2 ^ 12) mod 2 ^ 36 = 1" by (simp add: take_bit_eq_mod drop_bit_eq_div unat_div unat_mod)
  then have "unat va div 2 ^ 12 = (unat va div 2 ^ 12 div 2 ^ 36) * 2 ^ 36 + 1" using div_mult_mod_eq[of "unat va div 2 ^ 12" "2 ^ 36"] by simp
  moreover have "unat va div 2 ^ 12 div 2 ^ 36 < 2 ^ 16" using unat_lt64[of va] by (simp add: div_mult2_eq[symmetric] less_mult_imp_div_less)
  moreover have "2 ^ 52 - 2 ^ 35 \<le> unat va div 2 ^ 12" using h by (simp add: higher_half_def less_eq_div_iff_mult_less_eq)
  ultimately show False by simp
qed

text \<open>The direct map takes every physical address below the top of memory to its offset.\<close>

lemma direct_map_space:
  assumes "boot_layout sy off maxp ka" and "unat p < unat maxp"
  shows "higher_half (off + p)" and "kernel_space sy off maxp ka (off + p) = Some p"
proof -
  note L = boot_layoutD[OF assms(1)]
  have p: "unat p < 4096 * page_count 0 maxp" using assms(2) page_count_bounds(2)[OF L(5), of 0] by simp
  then have u: "unat (off + p) = unat off + unat p" using L(3) by (subst unat_add_lem[THEN iffD1]) simp_all
  show "higher_half (off + p)" using L(1) u by (simp add: higher_half_def)
  have "\<not> KernelStart sy \<le> off + p" using p u assms(1) by (simp add: boot_layout_def word_le_nat_alt)
  then show "kernel_space sy off maxp ka (off + p) = Some p" using p u by (simp add: kernel_space_def word_le_nat_alt)
qed

text \<open>The run, for any unused entry \<open>i\<close> that the process table may have.\<close>

lemma KernelMain_run:
  fixes s :: "'a boot_state_scheme" and sy :: symbols
  defines "n \<equiv> unat (MyFirstUserspaceEnd sy - MyFirstUserspace sy)"
  assumes resp: "hhdm_response (requests s) = Some off" "memmap_response (requests s) = Some es" "kernel_address_response (requests s) = Some ka"
      "smp_response (requests s) = Some resp"
    and xs: "xs = usable_chunks off es" "wf_chunks 4096 xs" "gaps xs" "low_chunks off xs" "\<forall>c \<in> set xs. fst c \<noteq> 0"
    and L: "boot_layout bs off (top_address es) ka" and apic: "0xFEE01000 \<le> top_address es"
    and pages: "boot_tables bs off (top_address es) + (15 * length xs + 8) \<le> free_pages xs"
    and cpus: "length (cpus resp) \<le> 18" "distinct (map lapic_id (cpus resp))" "c < length (cpus resp)" "drop_bit 24 (lapicIDReg s) = lapic_id (cpus resp ! c)"
    and hw: "\<forall>ws k. \<exists>n \<ge> k. hw ws n (reg_index LowInterruptCommand) AND command_bits DeliveryStatus = 0"
    and procs: "lock_held (ProcessTableSpinlock s) = 0" "find_unused 0 (ProcessTable s) = Some i" "length (ProcessTable s) < 2 ^ 32"
    and prog: "n \<le> 4096" "\<forall>x. inside (MyFirstUserspace sy) n x \<longrightarrow> unat x \<notin> list_bytes 4096 xs" and down: "bridges_lead_down cfg"
  shows "\<exists>s1 s2 s4 s6 s' p. KernelMain bs sy st hw cfg port s = Inr (Top, s') \<and> thisCPU s' = Some c \<and> currentProcess (CPUs s' ! c) = 0
    \<and> ProcessTable s' = (ProcessTable s)[i := p] \<and> state p = Runnable
    \<and> smp_response (requests s') = Some (resp\<lparr>cpus := map (sent bs resp) (cpus resp)\<rparr>)
    \<and> IDTEntries s' = fold set_entry_gate (gate_calls st) (IDTEntries s) \<and> idtr_base s' = IDTEntries_addr s \<and> msrs s' 0xC0000082 = SyscallHandler sy
    \<and> initByAddingUsablePagesToMemoryManagement s = Inr (top_address es, s1) \<and> initializeVirtualMemory bs (top_address es) s1 = Inr s2
    \<and> initializeProcessors bs (setupIDTTable st (setLAPICAddress (setAPICBase defaultAPICBase (initLogLock s2)))) = Inr s4
    \<and> cr3 s4 = KernelPageTable s4 - off \<and> getAPICBase s4 = 0xFEE00000
    \<and> (\<forall>k < 4096. vm_translate s4 (KernelPageTable s4) (lapic s4 + of_nat k) = Some (0xFEE00000 + of_nat k)
          \<and> vm_translate s6 (pageTable p) (lapic s4 + of_nat k) = Some (0xFEE00000 + of_nat k))
    \<and> obind (initLAPIC hw (disableAllLegacyInterrupts s4)) (createFirstProcess sy) = Inr s6 \<and> SharedMain sy cfg port s6 = Inr (Top, s')
    \<and> (\<forall>va. higher_half va \<longrightarrow> vm_translate s6 (pageTable p) va = kernel_space bs off (top_address es) ka va)
    \<and> (\<forall>k < n. \<exists>pa. vm_translate s6 (pageTable p) (0x1000 + of_nat k) = Some pa \<and> mem s6 (pa + off) = mem s1 (MyFirstUserspace sy + of_nat k))"
proof -
  note run1 = boot_memory[OF resp(1-3) xs L pages]
  obtain s1 s2 ys G where s2: "initByAddingUsablePagesToMemoryManagement s = Inr (top_address es, s1)"
    "initializeVirtualMemory bs (top_address es) s1 = Inr s2" "vm_holds s2 ys (KernelPageTable s2) G" "15 * length xs + 8 \<le> free_pages ys"
    "length ys \<le> length xs" "vm_bytes ys G \<subseteq> list_bytes 4096 xs" "\<forall>x. unat x \<notin> list_bytes 4096 xs \<longrightarrow> mem s2 x = mem s1 x"
    "\<forall>va. higher_half va \<longrightarrow> vm_translate s2 (KernelPageTable s2) va = kernel_space bs off (top_address es) ka va"
    "cr3 s2 = KernelPageTable s2 - off" "\<not> usingLock s2" "lock_held (pm_lockword s2) = 0" "HigherHalfDirectMapOffset s2 = off" "lapicIDReg s2 = lapicIDReg s"
    "pm_state.more (s2\<lparr>KernelPageTable := KernelPageTable s, cr3 := cr3 s\<rparr>) = pm_state.more s"
    by (rule run1) blast
  note m2 = pm_more_boot[OF s2(14), simplified]
  have ysw: "ys \<noteq> []" "wf_chunks 4096 ys" "list_bytes 4096 ys \<subseteq> list_bytes 4096 xs"
    using s2(3,4,6) free_pages_ne[of ys] by (auto simp: vm_holds_def pm_holds_def vm_bytes_def)
  have r2: "smp_response (requests s2) = Some resp" "drop_bit 24 (lapicIDReg s2) = lapic_id (cpus resp ! c)" using resp(4) m2(5) cpus(4) s2(13) by simp_all
  note run2 = boot_processors[where hw = hw and bs = bs and st = st, OF s2(3) ysw(1) s2(10,11) r2(1) cpus(1,2,3) r2(2) hw]
  obtain s4 s5 where s5: "initializeProcessors bs (setupIDTTable st (setLAPICAddress (setAPICBase defaultAPICBase (initLogLock s2)))) = Inr s4"
    "initLAPIC hw (disableAllLegacyInterrupts s4) = Inr s5" "vm_holds s5 (fit_rest 1 ys) (KernelPageTable s5) G"
    "vm_translate s5 (KernelPageTable s5) = vm_translate s2 (KernelPageTable s2)" "thisCPU s5 = Some c" "lock_held (logLock s5) = 0"
    "smp_response (requests s5) = Some (resp\<lparr>cpus := map (sent bs resp) (cpus resp)\<rparr>)"
    "HigherHalfDirectMapOffset s5 = HigherHalfDirectMapOffset s2" "\<forall>x. unat x \<notin> list_bytes 4096 ys \<longrightarrow> mem s5 x = mem s2 x"
    "ProcessTable s5 = ProcessTable s2" "ProcessTableSpinlock s5 = ProcessTableSpinlock s2"
    "IDTEntries s5 = fold set_entry_gate (gate_calls st) (IDTEntries s2)" "IDTEntries_addr s5 = IDTEntries_addr s2"
    "KernelPageTable s4 = KernelPageTable s2" "cr3 s4 = cr3 s2" "vm_translate s4 (KernelPageTable s4) = vm_translate s2 (KernelPageTable s2)"
    "lapic s4 = defaultAPICBase + HigherHalfDirectMapOffset s2" "getAPICBase s4 = defaultAPICBase"
    by (rule run2) blast
  let ?zs = "fit_rest 1 ys"
  have free5: "free_pages ys = Suc (free_pages ?zs)" by (rule free_pages_fit[OF ysw(2,1)])
  have "list_bytes 4096 ?zs \<subseteq> list_bytes 4096 ys" using fit_page(3)[of s2 ys] s2(3) ysw(1) by (auto simp: vm_holds_def)
  then have src5: "\<forall>x. inside (MyFirstUserspace sy) n x \<longrightarrow> unat x \<notin> list_bytes 4096 ?zs" using prog(2) ysw(3) by blast
  have p5: "lock_held (ProcessTableSpinlock s5) = 0" "find_unused 0 (ProcessTable s5) = Some i" "length (ProcessTable s5) < 2 ^ 32" "6 \<le> free_pages ?zs"
    using procs s5(10,11) m2(1,2) s2(4) free5 by simp_all
  obtain s6 p pg ws G' where s6: "createFirstProcess sy s5 = Inr s6" "ProcessTable s6 = (ProcessTable s5)[i := p]" "state p = Runnable"
    "vm_holds s6 ws (pageTable p) G'" "frame_of (pg - off) = pg - off" "free_pages ?zs \<le> free_pages ws + 6" "length ws \<le> length ?zs"
    "vm_translate s6 (pageTable p) = vm_map 0x1000 (pg - off) (vm_translate s5 (KernelPageTable s5))"
    "\<forall>k < n. mem s6 (pg + of_nat k) = mem s5 (MyFirstUserspace sy + of_nat k)"
    "thisCPU s6 = thisCPU s5" "logLock s6 = logLock s5" "proc_state.more s6 = proc_state.more s5"
    using createFirstProcess_run[OF s5(3) p5(4) s5(5) p5(1-3) prog(1)[unfolded n_def] src5[unfolded n_def]] unfolding s5(8) s2(12) n_def by blast
  have h6: "pm_holds s6 ws" using s6(4) by (simp add: vm_holds_def)
  have "15 * length ws < free_pages ws" using s2(4,5) s6(6,7) free5 length_fit_rest[of 1 ys] by simp
  note st16 = run_of_16[OF h6 this]
  have c6: "thisCPU s6 = Some c" "lock_held (logLock s6) = 0" using s6(10,11) s5(5,6) by simp_all
  obtain t s' where s': "SharedMain sy cfg port s6 = Inr (Top, s')" "thisCPU s' = Some c" "currentProcess (CPUs s' ! c) = 0"
    "log_state.more t = log_state.more s6" "log_state.more s' = log_state.more (loadIDTTable (setupProcessor sy c (fit_addr 4096 16 ws) t))"
    using SharedMain_run(1)[OF c6 h6 down st16] by blast
  let ?u = "setupProcessor sy c (fit_addr 4096 16 ws) t"
  note f' = log_more_boot[OF s'(5)] log_more_boot[OF s'(4)] proc_more_boot[OF s6(12)]
  have "es \<noteq> []" using pages xs(1) by (auto simp: usable_chunks_def free_pages_def)
  then have "checkThatLimineGaveUsEverythingWeNeed s = Inr ()" using resp by (simp add: checkThatLimineGaveUsEverythingWeNeed_def Suc_le_eq)
  then have "KernelMain bs sy st hw cfg port s = Inr (Top, s')"
    unfolding KernelMain_def using s2(1,2) s5(1,2) s6(1) s'(1) by simp
  moreover have "ProcessTable s' = (ProcessTable s)[i := p]" "requests s' = requests s5" "IDTEntries s' = IDTEntries s5"
    "idtr_base s' = IDTEntries_addr s5" "msrs s' 0xC0000082 = SyscallHandler sy"
    using f' s6(2) s5(10) m2(1) setupProcessor_fields[of sy c "fit_addr 4096 16 ws" t] setupProcessor_same[of sy c "fit_addr 4096 16 ws" t]
    by (simp_all add: loadIDTTable_def)
  moreover have space: "vm_translate s6 (pageTable p) va = kernel_space bs off (top_address es) ka va" if "higher_half va" for va
  proof -
    have "\<not> same_page va 0x1000" using that by (rule higher_half_not_user)
    then show ?thesis using that s2(8) s5(4) s6(8) by (simp add: vm_map_def)
  qed
  moreover have "\<exists>pa. vm_translate s6 (pageTable p) (0x1000 + of_nat k) = Some pa \<and> mem s6 (pa + off) = mem s1 (MyFirstUserspace sy + of_nat k)"
    if k: "k < n" for k
  proof -
    have "inside (MyFirstUserspace sy) n (MyFirstUserspace sy + of_nat k)" using k prog(1) by (simp add: inside_def unat_of_nat64)
    then have x: "unat (MyFirstUserspace sy + of_nat k) \<notin> list_bytes 4096 xs" using prog(2) by blast
    then have "mem s5 (MyFirstUserspace sy + of_nat k) = mem s1 (MyFirstUserspace sy + of_nat k)" using s5(9) s2(7) ysw(3) by (metis subset_iff)
    moreover have "k < 4096" using k prog(1) by simp
    ultimately show ?thesis using program_visible(1)[OF s6(4,8,5)] s6(9) k by (intro exI[of _ "pg + of_nat k - off"]) simp
  qed
  moreover have "vm_translate s4 (KernelPageTable s4) (lapic s4 + of_nat k) = Some (0xFEE00000 + of_nat k)
      \<and> vm_translate s6 (pageTable p) (lapic s4 + of_nat k) = Some (0xFEE00000 + of_nat k)" if k: "k < 4096" for k
  proof -
    have "unat (0xFEE00000 + of_nat k :: u64) < unat (top_address es)" using apic k by (simp add: word_le_nat_alt unat_word_ariths unat_of_nat64)
    note d = direct_map_space[OF L this]
    have e: "lapic s4 + of_nat k = off + (0xFEE00000 + of_nat k)" using s5(17) s2(12) by (simp add: defaultAPICBase_def)
    show ?thesis unfolding e using d s2(8) s5(16) space by simp
  qed
  moreover have "obind (initLAPIC hw (disableAllLegacyInterrupts s4)) (createFirstProcess sy) = Inr s6" using s5(2) s6(1) by simp
  moreover have "cr3 s4 = KernelPageTable s4 - off" using s5(14,15) s2(9) by simp
  moreover have "getAPICBase s4 = 0xFEE00000" using s5(18) by (simp add: defaultAPICBase_def)
  ultimately show ?thesis using s2(1,2) s6(3) s'(1-3) s5(1,7,12,13) m2(3,4)
    by (intro exI[of _ s1] exI[of _ s2] exI[of _ s4] exI[of _ s6] exI[of _ s'] exI[of _ p]) simp
qed

lemma first_entry:
  fixes x :: ProcessInfo
  defines "ps \<equiv> replicate 64 unused_process"
  shows "find_unused 0 ps = Some 0" and "length ps < 2 ^ 32"
    and "state x = Runnable \<Longrightarrow> j < 64 \<Longrightarrow> state (ps[0 := x] ! j) = Runnable \<longleftrightarrow> j = 0"
proof -
  have "ps = unused_process # replicate 63 unused_process" unfolding ps_def by (simp add: numeral_eq_Suc)
  then show "find_unused 0 ps = Some 0" by (simp add: unused_process_def)
  show "length ps < 2 ^ 32" by (simp add: ps_def)
  show "state x = Runnable \<Longrightarrow> j < 64 \<Longrightarrow> state (ps[0 := x] ! j) = Runnable \<longleftrightarrow> j = 0"
    by (cases "j = 0") (simp_all add: ps_def unused_process_def nth_list_update)
qed

text \<open>
  C1. The kernel boots. Given the four responses of the loader, a map of usable memory in ascending chunks that do not touch,
  low enough for the page tables and with enough pages, whose entries reach beyond the page of the local APIC, at most 18 processors with distinct ids of which
  this one is \<open>c\<close>, an APIC that delivers its command, the process table that the static initialisers leave, a program of at most a page outside of the usable memory,
  and bridges that lead to higher buses, \<^verbatim>\<open>KernelMain\<close> gets to the scheduler. The process table then has one runnable process, the first; the other processors are
  released; the interrupt table is filled and loaded and system calls have their entry. When \<^verbatim>\<open>initLAPIC\<close> is called, with the kernel's page table in \<^verbatim>\<open>cr3\<close>,
  the pointer to the APIC leads through that page table to the device, at every byte of its page. Before the scan of the devices, which may paint a screen
  anywhere, the address space of the process has the kernel and all memory in the higher half, that page included, and the program at \<open>0x1000\<close>.
\<close>

theorem KernelMain_boots:
  fixes s :: "'a boot_state_scheme" and sy :: symbols
  defines "n \<equiv> unat (MyFirstUserspaceEnd sy - MyFirstUserspace sy)"
  assumes resp: "hhdm_response (requests s) = Some off" "memmap_response (requests s) = Some es" "kernel_address_response (requests s) = Some ka"
      "smp_response (requests s) = Some resp"
    and xs: "xs = usable_chunks off es" "wf_chunks 4096 xs" "gaps xs" "low_chunks off xs" "\<forall>c \<in> set xs. fst c \<noteq> 0"
    and L: "boot_layout bs off (top_address es) ka" and apic: "0xFEE01000 \<le> top_address es"
    and pages: "boot_tables bs off (top_address es) + (15 * length xs + 8) \<le> free_pages xs"
    and cpus: "length (cpus resp) \<le> 18" "distinct (map lapic_id (cpus resp))" "c < length (cpus resp)" "drop_bit 24 (lapicIDReg s) = lapic_id (cpus resp ! c)"
    and hw: "\<forall>ws k. \<exists>n \<ge> k. hw ws n (reg_index LowInterruptCommand) AND command_bits DeliveryStatus = 0"
    and procs: "lock_held (ProcessTableSpinlock s) = 0" "ProcessTable s = replicate 64 unused_process"
    and prog: "n \<le> 4096" "\<forall>x. inside (MyFirstUserspace sy) n x \<longrightarrow> unat x \<notin> list_bytes 4096 xs" and down: "bridges_lead_down cfg"
  shows "\<exists>s1 s2 s4 s6 s' p. KernelMain bs sy st hw cfg port s = Inr (Top, s') \<and> thisCPU s' = Some c \<and> currentProcess (CPUs s' ! c) = 0
    \<and> ProcessTable s' = (replicate 64 unused_process)[0 := p] \<and> (\<forall>j < 64. state (ProcessTable s' ! j) = Runnable \<longleftrightarrow> j = 0)
    \<and> smp_response (requests s') = Some (resp\<lparr>cpus := map (sent bs resp) (cpus resp)\<rparr>)
    \<and> IDTEntries s' = fold set_entry_gate (gate_calls st) (IDTEntries s) \<and> idtr_base s' = IDTEntries_addr s \<and> msrs s' 0xC0000082 = SyscallHandler sy
    \<and> initByAddingUsablePagesToMemoryManagement s = Inr (top_address es, s1) \<and> initializeVirtualMemory bs (top_address es) s1 = Inr s2
    \<and> initializeProcessors bs (setupIDTTable st (setLAPICAddress (setAPICBase defaultAPICBase (initLogLock s2)))) = Inr s4
    \<and> cr3 s4 = KernelPageTable s4 - off \<and> getAPICBase s4 = 0xFEE00000
    \<and> (\<forall>k < 4096. vm_translate s4 (KernelPageTable s4) (lapic s4 + of_nat k) = Some (0xFEE00000 + of_nat k)
          \<and> vm_translate s6 (pageTable p) (lapic s4 + of_nat k) = Some (0xFEE00000 + of_nat k))
    \<and> obind (initLAPIC hw (disableAllLegacyInterrupts s4)) (createFirstProcess sy) = Inr s6 \<and> SharedMain sy cfg port s6 = Inr (Top, s')
    \<and> (\<forall>va. higher_half va \<longrightarrow> vm_translate s6 (pageTable p) va = kernel_space bs off (top_address es) ka va)
    \<and> (\<forall>k < n. \<exists>pa. vm_translate s6 (pageTable p) (0x1000 + of_nat k) = Some pa \<and> mem s6 (pa + off) = mem s1 (MyFirstUserspace sy + of_nat k))"
proof -
  have entry: "find_unused 0 (ProcessTable s) = Some 0" "length (ProcessTable s) < 2 ^ 32" unfolding procs(2) by (rule first_entry)+
  note run = KernelMain_run[where st = st and port = port and hw = hw and cfg = cfg and sy = sy and i = 0,
      OF resp xs L apic pages cpus hw procs(1) entry prog[unfolded n_def] down]
  show ?thesis unfolding n_def
    by (rule ex_forward, rule run, elim ex_forward conjE, intro conjI; (assumption | simp add: procs(2) first_entry))
qed

definition sample_map :: "limine_memmap_entry list" where
  "sample_map = [\<lparr>me_base = 0x8000, me_length = 0x3E8000, me_type = 0\<rparr>]"

lemma sample_map:
  "usable_chunks 0xFFFF800000000000 sample_map = [(0xFFFF800000008000, 1000)]" "top_address sample_map = 0x3F0000"
  "hhdm_response (requests sample_boot) = Some 0xFFFF800000000000" "memmap_response (requests sample_boot) = Some sample_map"
  "wf_chunks 4096 [(0xFFFF800000008000, 1000)]" "gaps [(0xFFFF800000008000, 1000)]"
  "boot_layout sample_symbols 0xFFFF800000000000 0x3F0000 sample_address"
  "boot_tables sample_symbols 0xFFFF800000000000 0x3F0000 + 23 \<le> free_pages [(0xFFFF800000008000, 1000)]"
  using sample_boot_facts(1)
  by (simp_all add: sample_map_def usable_chunks_def top_address_def LIMINE_MEMMAP_USABLE_def max_def sample_boot_def boot_layout_def sample_symbols_def
      sample_address_def higher_half_def page_count_def dvd_eq_mod_eq_0 boot_tables_def regions_def free_pages_def pm_holds_def gaps_def)

text \<open>A machine with 4000 pages of memory at 16 megabytes, whose loader also lists the page of the local APIC.\<close>

definition apic_map :: "limine_memmap_entry list" where
  "apic_map = [\<lparr>me_base = 0x1000000, me_length = 0xFA0000, me_type = 0\<rparr>, \<lparr>me_base = 0xFEE00000, me_length = 0x1000, me_type = 1\<rparr>]"

definition apic_boot :: boot_state where
  "apic_boot = sample_boot\<lparr>requests := (requests sample_boot)\<lparr>memmap_response := Some apic_map\<rparr>\<rparr>"

lemma apic_map:
  "usable_chunks 0xFFFF800000000000 apic_map = [(0xFFFF800001000000, 4000)]" "top_address apic_map = 0xFEE01000"
  "wf_chunks 4096 [(0xFFFF800001000000, 4000)]" "gaps [(0xFFFF800001000000, 4000)]"
  "boot_layout sample_symbols 0xFFFF800000000000 0xFEE01000 sample_address"
  "boot_tables sample_symbols 0xFFFF800000000000 0xFEE01000 + 23 \<le> free_pages [(0xFFFF800001000000, 4000)]"
  by (simp_all add: apic_map_def usable_chunks_def top_address_def LIMINE_MEMMAP_USABLE_def max_def boot_layout_def sample_symbols_def gaps_def
      sample_address_def higher_half_def page_count_def dvd_eq_mod_eq_0 boot_tables_def regions_def free_pages_def wf_chunks_def chunk_end_def chunk_bytes_def)

lemma low_apic_map: "low_chunks 0xFFFF800000000000 [(0xFFFF800001000000, 4000)]"
  by (auto intro!: exI[of _ "0x1000"] simp: low_chunks_def)

theorem KernelMain_boots_witness:
  "\<exists>s' (s4 :: boot_state) p. KernelMain sample_symbols \<lparr>TrapRet = 0x111, ProcessEntryPoint_addr = 0x222, SyscallHandler = 0x1234,
         MyFirstUserspace = 0xFFFFFFFF80000800, MyFirstUserspaceEnd = 0xFFFFFFFF80000810\<rparr>
       \<lparr>isr = (\<lambda>_. 0), irq = (\<lambda>_. 0)\<rparr> (\<lambda>_ _ _. 0) two_buses 0 apic_boot = Inr (Top, s')
     \<and> ProcessTable s' = (replicate 64 unused_process)[0 := p] \<and> state (ProcessTable s' ! 0) = Runnable \<and> msrs s' 0xC0000082 = 0x1234
     \<and> vm_translate s4 (KernelPageTable s4) (lapic s4 + 0xB0) = Some 0xFEE000B0"
proof -
  let ?sy = "\<lparr>TrapRet = 0x111, ProcessEntryPoint_addr = 0x222, SyscallHandler = 0x1234, MyFirstUserspace = 0xFFFFFFFF80000800, MyFirstUserspaceEnd = 0xFFFFFFFF80000810\<rparr>"
  let ?xs = "[(0xFFFF800001000000 :: u64, 4000 :: u64)]"
  let ?r = "\<lparr>bsp_lapic_id = 0, cpus = [\<lparr>processor_id = 0, lapic_id = 0, goto_address = 0, extra_argument = 0\<rparr>]\<rparr>"
  have r: "hhdm_response (requests apic_boot) = Some 0xFFFF800000000000" "memmap_response (requests apic_boot) = Some apic_map"
    "kernel_address_response (requests apic_boot) = Some sample_address" "smp_response (requests apic_boot) = Some ?r"
    by (simp_all add: apic_boot_def sample_boot_def)
  have free: "boot_tables sample_symbols 0xFFFF800000000000 (top_address apic_map) + (15 * length ?xs + 8) \<le> free_pages ?xs"
    using apic_map(6) unfolding apic_map(2) by simp
  have c: "length (cpus ?r) \<le> 18" "distinct (map lapic_id (cpus ?r))" "0 < length (cpus ?r)" "drop_bit 24 (lapicIDReg apic_boot) = lapic_id (cpus ?r ! 0)"
    by (simp_all add: apic_boot_def sample_boot_def)
  have p: "lock_held (ProcessTableSpinlock apic_boot) = 0" "ProcessTable apic_boot = replicate 64 unused_process"
    by (simp_all add: apic_boot_def sample_boot_def lock_held_def)
  have n: "unat (MyFirstUserspaceEnd ?sy - MyFirstUserspace ?sy) = 16" by simp
  have src: "\<forall>x. inside (MyFirstUserspace ?sy) 16 x \<longrightarrow> unat x \<notin> list_bytes 4096 ?xs"
    by (auto simp: inside_nat list_bytes_def chunk_bytes_def chunk_end_def)
  have le: "16 \<le> (4096 :: nat)" by simp
  have hw: "\<forall>(ws :: (u64 \<times> u32) list) (k :: nat). \<exists>n \<ge> k. (0 :: u32) AND command_bits DeliveryStatus = 0" by auto
  have "\<forall>c \<in> set ?xs. fst c \<noteq> 0" "boot_layout sample_symbols 0xFFFF800000000000 (top_address apic_map) sample_address" "0xFEE01000 \<le> top_address apic_map"
    using apic_map(2,5) by simp_all
  from KernelMain_boots[where hw = "\<lambda>_ _ _. 0" and sy = ?sy and cfg = two_buses and st = "\<lparr>isr = (\<lambda>_. 0), irq = (\<lambda>_. 0)\<rparr>" and port = 0,
      OF r apic_map(1)[symmetric] apic_map(3,4) low_apic_map this free c _ p, unfolded n, OF hw le src two_buses_lead_down]
  obtain s' q and s4 s6 :: boot_state where "KernelMain sample_symbols ?sy \<lparr>isr = (\<lambda>_. 0), irq = (\<lambda>_. 0)\<rparr> (\<lambda>_ _ _. 0) two_buses 0 apic_boot = Inr (Top, s')"
    "ProcessTable s' = (replicate 64 unused_process)[0 := q]" "\<forall>j < 64. state (ProcessTable s' ! j) = Runnable \<longleftrightarrow> j = 0"
    "msrs s' 0xC0000082 = SyscallHandler ?sy"
    "\<forall>k < 4096. vm_translate s4 (KernelPageTable s4) (lapic s4 + of_nat k) = Some (0xFEE00000 + of_nat k)
       \<and> vm_translate s6 (pageTable q) (lapic s4 + of_nat k) = Some (0xFEE00000 + of_nat k)"
    by blast
  note w = this
  have "state (ProcessTable s' ! 0) = Runnable" "vm_translate s4 (KernelPageTable s4) (lapic s4 + 0xB0) = Some 0xFEE000B0"
    using w(3)[rule_format, of 0] w(5)[rule_format, of "0xB0"] by simp_all
  then show ?thesis using w(1,2,4) by (intro exI[of _ s'] exI[of _ s4] exI[of _ q]) simp
qed

end
