(* ===== verification/Spec2Isabelle.thy ===== *)
theory Spec2Isabelle
  imports Heap_Alloc Process_Types Kernel_Boot
begin

text \<open>
  Verification of the Xesual kernel, a small x86-64 kernel in C++ (\<^verbatim>\<open>src/Kernel\<close>). The model is a
  shallow embedding: every function of the kernel that is modelled is a HOL function on an explicit state, with the order
  of its calls, its early returns and its machine integers. A function that may not return, or may touch memory
  it must not touch, has an \<open>outcome\<close>: a result, or how it got stuck (\<open>Spins\<close> on a lock, \<open>NullDeref\<close>,
  \<open>Diverges\<close>, \<open>Halted\<close>, \<open>OutOfBounds\<close>, \<open>BadArgument\<close>).

  \<^bold>\<open>State.\<close> Memory is a function from 64-bit addresses to bytes; lists, page tables, stacks and buffers live in it.
  The state is a record that grows with the components: \<open>machine\<close> (memory, the processor table, flags, ports),
  \<open>pm_state\<close> (page allocator), \<open>log_state\<close> (log lock), \<open>apic_state\<close> (model-specific registers, local APIC), \<open>proc_state\<close> (process
  table, registers of the running processor), \<open>trap_state\<close> (interrupt table), \<open>boot_state\<close> (responses of the loader). Operations are
  polymorphic in the rest of the record, so a component is proved without the ones above it. The entries of the
  processor table and of the process table are records and not bytes of memory; nothing in the kernel reaches
  them by another pointer.

  \<^bold>\<open>Parts and theories\<close>, in the order of imports:

  \<^item> \<open>Kernel_Prelude\<close>: types, outcomes, ranges of addresses; the lemma collections.
  \<^item> \<open>Kernel_Memory\<close>: loads, stores, \<^verbatim>\<open>memset\<close>, \<^verbatim>\<open>memcpy\<close> (\<^verbatim>\<open>MiscFunctions.cpp\<close>), and what they leave alone.
  \<^item> \<open>Descriptor_Tables\<close>: segment descriptors and the task state (\<^verbatim>\<open>GDT.h\<close>); their bits, read back, and the segments that the processor finds by its selectors.
  \<^item> \<open>Cpu_State\<close>: \<^verbatim>\<open>thisCPU\<close>, \<^verbatim>\<open>pushCLI\<close>, \<^verbatim>\<open>popCLI\<close> (\<^verbatim>\<open>ProcessManagement.h\<close>); pushes and pops nest.
  \<^item> \<open>Spin_Lock\<close>: \<^verbatim>\<open>Spinlock.cpp\<close>, the calls of one processor and the interleaving of any number of them as a step
    relation; mutual exclusion by rule induction.
  \<^item> \<open>Chunk_List\<close>, \<open>Allocator_Interface\<close>: the doubly linked list of free chunks in memory, refined to a list of blocks;
    the contract of a first-fit allocator as the locale \<open>first_fit_allocator\<close>.
  \<^item> \<open>Physical_Memory\<close>: \<^verbatim>\<open>PhysicalMemoryManagement.cpp\<close>. Allocation refines first fit, freeing into a gap inserts; what
    goes wrong below the first chunk, next to a chunk, and with the lock.
  \<^item> \<open>Heap_Alloc\<close>: \<^verbatim>\<open>Alloc.cpp\<close>, the second instance of the locale, with its lock and size errors.
  \<^item> \<open>Page_Tables\<close>, \<open>Page_Mapping\<close>, \<open>Address_Space\<close>: \<^verbatim>\<open>Paging.h\<close> and \<^verbatim>\<open>VirtualMemoryManagement.cpp\<close>; the processor's walk is
    written from its manual, not from the code, with the rights it finds. \<^verbatim>\<open>map\<close> refines the update of a function from virtual to
    physical addresses, for tables below two gigabytes.
  \<^item> \<open>Binary64\<close>, \<open>Printf_Output\<close>, \<open>Printf_Float\<close>, \<open>Printf\<close>: \<^verbatim>\<open>printf.c\<close> and \<^verbatim>\<open>PrintfImplementation.cpp\<close>. The interpreter writes through
    any output function what a reference renderer says; numbers read back; buffers are not overrun. Doubles are rationals rounded to binary64.
  \<^item> \<open>Local_Apic\<close>: \<^verbatim>\<open>LocalAPIC.cpp\<close>, \<^verbatim>\<open>SMP.h\<close>; the device is a parameter that answers reads from the log of writes.
  \<^item> \<open>Process_Table\<close>: \<^verbatim>\<open>ProcessManagement.cpp\<close> and the switch of stacks; the scheduler is a step relation on program points.
  \<^item> \<open>Trap_Gates\<close>: \<^verbatim>\<open>Traps.cpp\<close>, \<^verbatim>\<open>Traps.h\<close>: the interrupt table and the handlers.
  \<^item> \<open>Pci_Bus\<close>: \<^verbatim>\<open>PCI.h\<close>, \<^verbatim>\<open>PCI.cpp\<close>; the configuration space is a parameter. The scan visits what a reference walk lists.
  \<^item> \<open>Framebuffer\<close>: \<^verbatim>\<open>Graphics.cpp\<close> and the painting loop.
  \<^item> \<open>Boot_Protocol\<close>, \<open>Kernel_Space\<close>, \<open>Boot\<close>, \<open>Boot_Run\<close>: \<^verbatim>\<open>KernelMain.cpp\<close>. The locale \<open>table_steps\<close> says what a step on the page tables promises;
    its three instances are the bodies of the three loops of \<^verbatim>\<open>initializeVirtualMemory\<close>. Further lemmas are about the
    processor table, the stack for interrupts, and \<^verbatim>\<open>SharedMain\<close> from its first message to the scheduler.
  \<^item> \<open>Process_Types\<close>: the pointer to the current process is null or leads to an entry of the table, after every call of
    \<^verbatim>\<open>ProcessManagement.cpp\<close>, every trap and every step of the scheduler.
  \<^item> \<open>Trap_Code\<close>, \<open>Trap_Entry\<close>, \<open>System_Calls\<close>: \<^verbatim>\<open>Traps.S\<close>, as lists of instructions that are executed on registers and memory. The stubs
    build the structure that the handlers read, an interrupt is invisible to the code that it interrupts, a system call comes back; and where the stubs go wrong.
  \<^item> \<open>First_Process\<close>: from \<^verbatim>\<open>createFirstProcess\<close> through the first switch to the first instruction in user mode.
  \<^item> \<open>Kernel_Boot\<close>: \<^verbatim>\<open>KernelMain\<close> as a whole, from the responses of the loader to the scheduler.
  \<^item> This theory: boot from the memory map to the address space, across the components.

  \<^bold>\<open>Bounds and fuel.\<close> Loops that may run forever (waiting for the APIC, the loops over addresses whose counter can wrap) are partial
  functions into option, and theorems say when they return. \<open>_ftoa\<close> and \<open>_etoa\<close> call each other, with fuel 4, which is a call
  of each for the value and for its scaled mantissa; more would be \<open>Diverges\<close>, and no theorem says that it does not occur. The scan of buses has a depth of 256: a deeper nest of bridges has
  come back to a bus and never ends. The assembly runs with a number of jumps; two are enough for every stub, which the theorems on them show by reaching its end.
  Lists in memory are followed by a partial function, so a cyclic list is \<open>Diverges\<close>.

  \<^bold>\<open>Not modelled.\<close> The faults of an \<^verbatim>\<open>iretq\<close> with bad segments, what the C++ code keeps on its own stack while a handler runs
  (its callee-saved registers come back, the others are arbitrary), the linker script and the build files, the instructions of the first user program, whose bytes
  are an argument, and what \<^verbatim>\<open>limine.h\<close> declares beyond the four responses the kernel asks for. The rights of pages are those that the walk finds in
  the tables; the checks of the processor on each access are not part of the model's memory: neither on the page at address zero, from which the clock's stub loads, nor on
  the page of the local APIC, to which \<^verbatim>\<open>lapicID\<close>, \<^verbatim>\<open>readLAPIC\<close> and \<^verbatim>\<open>writeLAPIC\<close> go. That this page is mapped when they are called is a conclusion of
  the theorem on \<^verbatim>\<open>KernelMain\<close>, for a memory map that reaches it. What other processors do at the same time is
  modelled for the spinlock only; everywhere else one processor runs, and a lock that is held is \<open>Spins\<close>.
\<close>

section \<open>Boot: from the memory map to the address space\<close>

text \<open>
  C9. The memory that the loader reports is reachable after boot. From the memory map, the kernel makes a free list
  and the new address space with pages from it; through the direct map, every physical
  address of every entry of the map, usable or not, is then found at its offset.
\<close>

theorem boot_reaches_all_memory:
  assumes "hhdm_response (requests s) = Some off" and "memmap_response (requests s) = Some es"
    and "kernel_address_response (requests s) = Some ka"
    and "wf_chunks 4096 (usable_chunks off es)" and "gaps (usable_chunks off es)" and "low_chunks off (usable_chunks off es)"
    and "\<forall>c \<in> set (usable_chunks off es). fst c \<noteq> 0" and "boot_layout sy off (top_address es) ka"
    and "boot_tables sy off (top_address es) \<le> free_pages (usable_chunks off es)"
  shows "\<exists>s1 s2. initByAddingUsablePagesToMemoryManagement s = Inr (top_address es, s1)
    \<and> initializeVirtualMemory sy (top_address es) s1 = Inr s2 \<and> cr3 s2 = KernelPageTable s2 - off
    \<and> (\<forall>e \<in> set es. \<forall>p. me_base e \<le> p \<longrightarrow> p < me_base e + me_length e \<longrightarrow> vm_translate s2 (KernelPageTable s2) (off + p) = Some p)"
proof -
  obtain s1 where s1: "initByAddingUsablePagesToMemoryManagement s = Inr (top_address es, s1)" "pm_holds s1 (usable_chunks off es)"
    "HigherHalfDirectMapOffset s1 = off" "requests s1 = requests s"
    using initByAdding_lemma[OF assms(1,2,4,5,7)] by blast
  obtain s2 where s2: "initializeVirtualMemory sy (top_address es) s1 = Inr s2" "cr3 s2 = KernelPageTable s2 - off"
    "\<forall>va. higher_half va \<longrightarrow> vm_translate s2 (KernelPageTable s2) va = kernel_space sy off (top_address es) ka va"
    using initializeVirtualMemory_lemma[OF s1(2), of ka sy "top_address es" 0] assms(3,6,8,9) s1(3,4) by auto
  note L = boot_layoutD[OF assms(8)]
  have "vm_translate s2 (KernelPageTable s2) (off + p) = Some p" if e: "e \<in> set es" "p < me_base e + me_length e" for e p
  proof -
    have "unat p < unat (top_address es)" using e(2) top_address_le[OF e(1)] by (simp add: word_less_nat_alt word_le_nat_alt)
    then have p: "unat p < 4096 * page_count 0 (top_address es)"
      using page_count_bounds(2)[OF L(5), of 0] by simp
    then have u: "unat (off + p) = unat off + unat p" using L(3) by (subst unat_add_lem[THEN iffD1]) simp_all
    have "higher_half (off + p)" using L(1) u by (simp add: higher_half_def)
    moreover have "\<not> KernelStart sy \<le> off + p" using p u assms(8) by (simp add: boot_layout_def word_le_nat_alt)
    ultimately show ?thesis using s2(3) p u by (simp add: kernel_space_def word_le_nat_alt)
  qed
  then show ?thesis using s1(1) s2(1,2) by blast
qed

theorem boot_reaches_all_memory_witness:
  "\<exists>s1 s2. initByAddingUsablePagesToMemoryManagement sample_boot = Inr (0x3F0000, s1)
     \<and> initializeVirtualMemory sample_symbols 0x3F0000 s1 = Inr s2
     \<and> vm_translate s2 (KernelPageTable s2) 0xFFFF8000003EFFFF = Some 0x3EFFFF"
proof -
  have "boot_tables sample_symbols 0xFFFF800000000000 0x3F0000 \<le> free_pages [(0xFFFF800000008000, 1000)]" using sample_map(8) by simp
  then obtain s1 s2 where w: "initByAddingUsablePagesToMemoryManagement sample_boot = Inr (0x3F0000, s1)"
    "initializeVirtualMemory sample_symbols 0x3F0000 s1 = Inr s2"
    "\<forall>p. 0x8000 \<le> p \<longrightarrow> p < 0x3F0000 \<longrightarrow> vm_translate s2 (KernelPageTable s2) (0xFFFF800000000000 + p) = Some p"
    using boot_reaches_all_memory[OF sample_map(3,4) sample_boot_facts(3), unfolded sample_map(1,2), of sample_symbols] sample_map(5-7)
      sample_boot_facts(2)[unfolded sample_boot_facts(4)] by (auto simp: sample_map_def)
  have "vm_translate s2 (KernelPageTable s2) 0xFFFF8000003EFFFF = Some 0x3EFFFF" using w(3)[rule_format, of "0x3EFFFF"] by simp
  then show ?thesis using w(1,2) by blast
qed

end
